(* ===== verification/Prelude.thy ===== *)
theory Prelude
  imports Main "HOL-Library.Word" "HOL-Library.AList" "HOL-Library.Multiset"
begin

text \<open>
  Shared vocabulary of the development: the machine types of the C++ code, the
  gRPC status values the handlers return, the exceptions the standard library
  throws, and the generic facts on association lists that the component
  theories use.

  A \<open>std::string\<close>, a protobuf \<open>bytes\<close> field and a \<open>std::vector<char>\<close> are all
  lists of 8-bit characters. The target is LP64: \<open>size_t\<close> has 64 bits and
  \<open>int\<close> has 32.
\<close>

section \<open>Types\<close>

type_synonym bytes = string
type_synonym int32 = "32 word"
type_synonym uint32 = "32 word"
type_synonym int64 = "64 word"
type_synonym uint64 = "64 word"
type_synonym size_t = "64 word"

text \<open>
  \<open>grpc::StatusCode\<close>: the codes the sources name, and \<open>OTHER_CODE\<close> for every
  other code the transport may report. The numeric value of a code is a fact of
  the gRPC headers and stays a parameter where the sources print it.
\<close>

datatype StatusCode =
    OK
  | INVALID_ARGUMENT
  | NOT_FOUND
  | ALREADY_EXISTS
  | INTERNAL
  | OTHER_CODE nat

datatype Status = Status (error_code: StatusCode) (error_message: string)

definition status_OK :: Status where
  "status_OK = Status OK []"

definition status_ok :: "Status \<Rightarrow> bool" where
  "status_ok st \<longleftrightarrow> error_code st = OK"

text \<open>\<open>errno\<close> values: the two the sources compare with, and all others.\<close>

datatype errno = ENOENT | EEXIST | ERRNO nat

text \<open>Exceptions that leave a function of the sources or of the C++ library.\<close>

datatype cpp_exception =
    Invalid_argument
  | Out_of_range
  | Runtime_error string
  | System_error errno string

text \<open>
  Collections: \<open>store_simps\<close> for the metadata store, \<open>disk_simps\<close> for the file
  system of a data node, \<open>cluster_simps\<close> for the nodes behind the transport,
  \<open>coord_simps\<close> for the coordinator.
\<close>

named_theorems store_simps
named_theorems disk_simps
named_theorems cluster_simps
named_theorems coord_simps

section \<open>Generic facts\<close>

lemma status_ok_OK [simp]: "status_ok status_OK"
  by (simp add: status_ok_def status_OK_def)

lemma status_ok_Status [simp]: "status_ok (Status c m) \<longleftrightarrow> c = OK"
  by (simp add: status_ok_def)

lemma map_of_alist_update [simp]:
  "map_of (AList.update k v al) = (map_of al)(k \<mapsto> v)"
  by (rule AList.update_conv')

lemma map_of_alist_delete [simp]:
  "map_of (AList.delete k al) = (map_of al)(k := None)"
  by (rule AList.delete_conv')

lemma keys_alist_update [simp]:
  "fst ` set (AList.update k v al) = insert k (fst ` set al)"
  by (simp add: AList.dom_update)

lemma keys_alist_delete [simp]:
  "fst ` set (AList.delete k al) = fst ` set al - {k}"
  using AList.delete_keys [of k al] by (metis set_map set_removeAll)

lemma distinct_alist_update [simp]:
  "distinct (map fst al) \<Longrightarrow> distinct (map fst (AList.update k v al))"
  by (rule AList.distinct_update)

lemma distinct_alist_delete [simp]:
  "distinct (map fst al) \<Longrightarrow> distinct (map fst (AList.delete k al))"
  by (rule AList.distinct_delete)

lemma set_alist_delete:
  "set (AList.delete k al) = {x \<in> set al. fst x \<noteq> k}"
  by (auto simp: AList.delete_eq)

lemma set_alist_update:
  "distinct (map fst al) \<Longrightarrow>
   set (AList.update k v al) = insert (k, v) {x \<in> set al. fst x \<noteq> k}"
proof (induction al)
  case Nil
  then show ?case by simp
next
  case (Cons x al)
  obtain a b where x: "x = (a, b)" by (cases x)
  have fresh: "\<forall>y \<in> set al. fst y \<noteq> a" using Cons.prems x by force
  have IH: "set (AList.update k v al) = insert (k, v) {y \<in> set al. fst y \<noteq> k}"
    using Cons by simp
  show ?case
  proof (cases "a = k")
    case True
    then have "{y \<in> set (x # al). fst y \<noteq> k} = set al" using fresh x by auto
    then show ?thesis using True x by simp
  next
    case False
    then have "{y \<in> set (x # al). fst y \<noteq> k} = insert x {y \<in> set al. fst y \<noteq> k}"
      using x by auto
    then show ?thesis using False x IH by (simp add: insert_commute)
  qed
qed

lemma length_alist_delete:
  "distinct (map fst al) \<Longrightarrow> k \<in> fst ` set al \<Longrightarrow>
   length (AList.delete k al) = length al - 1"
proof (induction al)
  case Nil
  then show ?case by simp
next
  case (Cons x al)
  show ?case
  proof (cases "fst x = k")
    case True
    then have "k \<notin> fst ` set al" using Cons.prems(1) by auto
    then show ?thesis using True by (cases x) simp
  next
    case False
    then have "k \<in> fst ` set al" using Cons.prems(2) by auto
    moreover from this have "al \<noteq> []" by auto
    moreover have "length (AList.delete k al) = length al - 1"
      using Cons calculation by simp
    ultimately show ?thesis using False by (cases x; cases al) auto
  qed
qed

lemma length_alist_update_fresh:
  "k \<notin> fst ` set al \<Longrightarrow> AList.update k v al = al @ [(k, v)]"
  by (induction al) auto

text \<open>Dropping a prefix and filtering agree on a list whose keys are sorted.\<close>

lemma dropWhile_eq_filter_sorted:
  fixes key :: "'a \<Rightarrow> int"
  assumes "sorted (map key xs)"
  shows "dropWhile (\<lambda>x. key x < t) xs = filter (\<lambda>x. \<not> key x < t) xs"
  using assms
proof (induction xs)
  case Nil
  then show ?case by simp
next
  case (Cons x xs)
  show ?case
  proof (cases "key x < t")
    case True
    then show ?thesis using Cons by simp
  next
    case False
    then have "\<forall>y \<in> set xs. \<not> key y < t" using Cons.prems by auto
    then have "filter (\<lambda>y. \<not> key y < t) xs = xs" by (simp add: filter_id_conv)
    then show ?thesis using False by simp
  qed
qed

lemma mset_rotate [simp]: "mset (rotate n xs) = mset xs"
  by (metis append_take_drop_id mset_append rotate_drop_take union_commute)

lemma distinct_mset_subset:
  assumes "mset xs \<subseteq># mset ys" "distinct ys"
  shows "distinct xs"
proof -
  have "count (mset xs) a = (if a \<in> set xs then 1 else 0)" for a
  proof -
    have "count (mset xs) a \<le> count (mset ys) a" using assms(1) by (simp add: mset_subset_eq_count)
    also have "\<dots> \<le> 1" using assms(2) by (simp add: distinct_count_atmost_1)
    finally have "count (mset xs) a \<le> 1" .
    moreover have "a \<in> set xs \<longleftrightarrow> 0 < count (mset xs) a" by simp
    ultimately show ?thesis by (metis le_neq_implies_less less_one linorder_not_less order_le_less)
  qed
  then show ?thesis by (simp add: distinct_count_atmost_1)
qed

lemma distinct_map_mset_subset:
  "mset xs \<subseteq># mset ys \<Longrightarrow> distinct (map f ys) \<Longrightarrow> distinct (map f xs)"
  using distinct_mset_subset [of "map f xs" "map f ys"] by (simp add: image_mset_subseteq_mono)

end
