(* ===== verification/Metadata_Store.thy ===== *)
theory Metadata_Store
  imports Prelude
begin

text \<open>
  The coordinator's metadata store, \<open>coordinator/include/metadata_store.h\<close>: the
  map of active files, the deque of tombstones, the statistics counters, and
  every operation. Each operation holds the store's mutex for its whole body, so
  it is one step of the model. \<open>unordered_map\<close> is an association list with
  distinct keys; \<open>std::chrono::steady_clock\<close> readings are arguments, in
  nanoseconds.

  \<open>file_catalog\<close> is the contract the coordinator relies on, a finite map from
  paths to metadata, and the store is interpreted as one.
\<close>

section \<open>Data\<close>

record ChunkInfo =
  chunk_id :: string
  node_ids :: "int32 list"
  replication_factor :: int32

definition default_ChunkInfo :: ChunkInfo where
  "default_ChunkInfo = \<lparr>chunk_id = [], node_ids = [], replication_factor = 3\<rparr>"

record FileMeta =
  fm_size :: int64
  chunk_size :: int32
  chunks :: "ChunkInfo list"

record PathEntry =
  is_file :: bool
  file_meta :: FileMeta

type_synonym time_point = int
type_synonym tombstone = "string \<times> FileMeta \<times> time_point"

record MetadataStore =
  entries :: "(string \<times> PathEntry) list"
  deleted_entries :: "tombstone list"
  read_count :: size_t
  write_count :: size_t
  tombstone_count :: size_t

definition empty_MetadataStore :: MetadataStore where
  "empty_MetadataStore =
    \<lparr>entries = [], deleted_entries = [], read_count = 0, write_count = 0, tombstone_count = 0\<rparr>"

text \<open>\<open>std::chrono::minutes(5)\<close> in nanoseconds.\<close>

definition TOMBSTONE_LIFETIME :: int where
  "TOMBSTONE_LIFETIME = 5 * 60 * 1000000000"

definition MAX_DELETED_ENTRIES :: nat where
  "MAX_DELETED_ENTRIES = 10000"

record Statistics =
  st_read_count :: size_t
  st_write_count :: size_t
  st_tombstone_count :: size_t
  st_active_entries :: size_t
  st_deleted_entries :: size_t

section \<open>Operations\<close>

definition putFile :: "string \<Rightarrow> FileMeta \<Rightarrow> MetadataStore \<Rightarrow> MetadataStore" where
  "putFile path meta ms =
    ms\<lparr>entries := AList.update path \<lparr>is_file = True, file_meta = meta\<rparr> (entries ms),
       write_count := write_count ms + 1\<rparr>"

definition getFile :: "string \<Rightarrow> MetadataStore \<Rightarrow> FileMeta option \<times> MetadataStore" where
  "getFile path ms =
    (let ms' = ms\<lparr>read_count := read_count ms + 1\<rparr>
     in case map_of (entries ms') path of
          None \<Rightarrow> (None, ms')
        | Some e \<Rightarrow> if \<not> is_file e then (None, ms') else (Some (file_meta e), ms'))"

definition exists_path :: "string \<Rightarrow> MetadataStore \<Rightarrow> bool \<times> MetadataStore" where
  "exists_path path ms =
    (map_of (entries ms) path \<noteq> None, ms\<lparr>read_count := read_count ms + 1\<rparr>)"

text \<open>The private \<open>cleanupOldTombstones\<close> pops expired entries off the front of the deque.\<close>

function cleanupOldTombstones :: "time_point \<Rightarrow> MetadataStore \<Rightarrow> MetadataStore" where
  "cleanupOldTombstones now ms =
    (case deleted_entries ms of
       [] \<Rightarrow> ms
     | (path, meta, delete_time) # rest \<Rightarrow>
         (let age = now - delete_time
          in if age \<le> TOMBSTONE_LIFETIME then ms
             else cleanupOldTombstones now
                    (ms\<lparr>deleted_entries := rest, tombstone_count := tombstone_count ms - 1\<rparr>)))"
  by pat_completeness auto
termination
  by (relation "measure (\<lambda>(now, ms). length (deleted_entries ms))") auto

declare cleanupOldTombstones.simps [simp del]

text \<open>
  \<open>deletePath\<close> reads the clock for the tombstone, and \<open>cleanupOldTombstones\<close> reads
  it again: the two readings are \<open>delete_time\<close> and \<open>now\<close>.
\<close>

definition deletePath ::
  "string \<Rightarrow> time_point \<Rightarrow> time_point \<Rightarrow> MetadataStore \<Rightarrow> MetadataStore" where
  "deletePath path delete_time now ms =
    (case map_of (entries ms) path of
       None \<Rightarrow> ms
     | Some e \<Rightarrow>
         if is_file e then
           (let ms1 = ms\<lparr>deleted_entries := deleted_entries ms @ [(path, file_meta e, delete_time)]\<rparr>;
                ms2 = ms1\<lparr>entries := AList.delete path (entries ms1)\<rparr>;
                ms3 = (if MAX_DELETED_ENTRIES < length (deleted_entries ms2)
                       then cleanupOldTombstones now ms2 else ms2)
            in ms3\<lparr>write_count := write_count ms3 + 1, tombstone_count := tombstone_count ms3 + 1\<rparr>)
         else ms)"

text \<open>
  \<open>cleanupOldTombstonesInternal\<close> walks the deque with an iterator and erases what
  has expired. The chunk deleter is a \<open>std::function\<close>, which may be empty, and
  acts on a state of its own.
\<close>

fun cleanup_scan ::
  "time_point \<Rightarrow> (FileMeta \<Rightarrow> 'w \<Rightarrow> 'w) option \<Rightarrow> tombstone list \<Rightarrow> size_t \<Rightarrow> 'w
    \<Rightarrow> tombstone list \<times> size_t \<times> 'w" where
  "cleanup_scan now chunkDeleter [] tc w = ([], tc, w)"
| "cleanup_scan now chunkDeleter ((path, meta, delete_time) # rest) tc w =
    (let age = now - delete_time
     in if age > TOMBSTONE_LIFETIME
        then cleanup_scan now chunkDeleter rest (tc - 1)
               (case chunkDeleter of None \<Rightarrow> w | Some f \<Rightarrow> f meta w)
        else (let (kept, tc', w') = cleanup_scan now chunkDeleter rest tc w
              in ((path, meta, delete_time) # kept, tc', w')))"

definition cleanupTombstones ::
  "time_point \<Rightarrow> (FileMeta \<Rightarrow> 'w \<Rightarrow> 'w) option \<Rightarrow> MetadataStore \<Rightarrow> 'w \<Rightarrow> MetadataStore \<times> 'w" where
  "cleanupTombstones now chunkDeleter ms w =
    (let (kept, tc, w') = cleanup_scan now chunkDeleter (deleted_entries ms) (tombstone_count ms) w
     in (ms\<lparr>deleted_entries := kept, tombstone_count := tc\<rparr>, w'))"

definition getStatistics :: "MetadataStore \<Rightarrow> Statistics" where
  "getStatistics ms =
    \<lparr>st_read_count = read_count ms,
     st_write_count = write_count ms,
     st_tombstone_count = tombstone_count ms,
     st_active_entries = of_nat (length (entries ms)),
     st_deleted_entries = of_nat (length (deleted_entries ms))\<rparr>"

section \<open>Abstraction and invariant\<close>

text \<open>The files a client can see.\<close>

definition active_files :: "MetadataStore \<Rightarrow> string \<Rightarrow> FileMeta option" where
  "active_files ms path =
    (case map_of (entries ms) path of
       None \<Rightarrow> None
     | Some e \<Rightarrow> if is_file e then Some (file_meta e) else None)"

definition expired :: "time_point \<Rightarrow> tombstone \<Rightarrow> bool" where
  "expired now tomb \<longleftrightarrow> TOMBSTONE_LIFETIME < now - snd (snd tomb)"

definition store_inv :: "MetadataStore \<Rightarrow> bool" where
  "store_inv ms \<longleftrightarrow>
     distinct (map fst (entries ms)) \<and>
     list_all (\<lambda>e. is_file (snd e)) (entries ms) \<and>
     tombstone_count ms = of_nat (length (deleted_entries ms))"

text \<open>The deque in the order of its time stamps, none later than the clock reading \<open>t\<close>.\<close>

definition stamped :: "time_point \<Rightarrow> MetadataStore \<Rightarrow> bool" where
  "stamped t ms \<longleftrightarrow>
     sorted (map (snd \<circ> snd) (deleted_entries ms)) \<and>
     list_all (\<lambda>e. snd (snd e) \<le> t) (deleted_entries ms)"

lemma expired_tuple [simp]: "expired now (p, m, t) \<longleftrightarrow> TOMBSTONE_LIFETIME < now - t"
  by (simp add: expired_def)

subsection \<open>The two cleanup loops\<close>

lemma cleanupOldTombstones_eq:
  "cleanupOldTombstones now ms =
     ms\<lparr>deleted_entries := dropWhile (expired now) (deleted_entries ms),
        tombstone_count := tombstone_count ms
          - of_nat (length (takeWhile (expired now) (deleted_entries ms)))\<rparr>"
proof (induction now ms rule: cleanupOldTombstones.induct)
  case (1 now ms)
  show ?case
  proof (cases "deleted_entries ms")
    case Nil
    then show ?thesis by (subst cleanupOldTombstones.simps) simp
  next
    case (Cons tomb rest)
    obtain p m t where tomb: "tomb = (p, m, t)" by (cases tomb) auto
    show ?thesis
    proof (cases "now - t \<le> TOMBSTONE_LIFETIME")
      case True
      then show ?thesis
        using Cons tomb by (subst cleanupOldTombstones.simps) simp
    next
      case False
      note IH = 1 [OF Cons tomb [symmetric] refl refl False]
      show ?thesis
        using Cons tomb False IH
        by (subst cleanupOldTombstones.simps) (simp add: diff_diff_eq)
    qed
  qed
qed

lemma cleanup_scan_eq:
  "cleanup_scan now del ts tc w =
     (filter (\<lambda>e. \<not> expired now e) ts,
      tc - of_nat (length (filter (expired now) ts)),
      fold (\<lambda>e. case del of None \<Rightarrow> id | Some f \<Rightarrow> f (fst (snd e))) (filter (expired now) ts) w)"
proof (induction ts arbitrary: tc w)
  case Nil
  then show ?case by simp
next
  case (Cons tomb ts)
  obtain p m t where tomb: "tomb = (p, m, t)" by (cases tomb) auto
  show ?case
    using Cons.IH by (cases del) (simp_all add: tomb diff_diff_eq Let_def)
qed

lemma dropWhile_expired_sorted:
  assumes "sorted (map (snd \<circ> snd) ts)"
  shows "dropWhile (expired now) ts = filter (\<lambda>e. \<not> expired now e) ts"
proof -
  have "expired now = (\<lambda>e. (snd \<circ> snd) e < now - TOMBSTONE_LIFETIME)"
    by (auto simp: expired_def fun_eq_iff)
  then show ?thesis
    using dropWhile_eq_filter_sorted [OF assms, of "now - TOMBSTONE_LIFETIME"] by simp
qed

lemma cleanupTombstones_store [store_simps]:
  "fst (cleanupTombstones now del ms w) =
     ms\<lparr>deleted_entries := filter (\<lambda>e. \<not> expired now e) (deleted_entries ms),
        tombstone_count := tombstone_count ms
          - of_nat (length (filter (expired now) (deleted_entries ms)))\<rparr>"
  by (simp add: cleanupTombstones_def cleanup_scan_eq)

lemma cleanupTombstones_world:
  "snd (cleanupTombstones now (Some f) ms w) =
     fold (\<lambda>e. f (fst (snd e))) (filter (expired now) (deleted_entries ms)) w"
  by (simp add: cleanupTombstones_def cleanup_scan_eq)

subsection \<open>Effect on the active files\<close>

lemma active_files_congr: "entries ms' = entries ms \<Longrightarrow> active_files ms' = active_files ms"
  by (simp add: active_files_def fun_eq_iff)

lemma active_files_putFile [store_simps]:
  "active_files (putFile path meta ms) = (active_files ms)(path \<mapsto> meta)"
  by (auto simp: active_files_def putFile_def fun_eq_iff)

lemma getFile_fst [store_simps]: "fst (getFile path ms) = active_files ms path"
  by (auto simp: getFile_def active_files_def Let_def split: option.splits)

lemma getFile_snd [store_simps]: "snd (getFile path ms) = ms\<lparr>read_count := read_count ms + 1\<rparr>"
  by (auto simp: getFile_def Let_def split: option.splits)

lemma getFile_eq:
  "getFile path ms = (active_files ms path, ms\<lparr>read_count := read_count ms + 1\<rparr>)"
  by (metis getFile_fst getFile_snd prod.collapse)

lemma active_files_read [simp]:
  "active_files (ms\<lparr>read_count := n\<rparr>) = active_files ms"
  "active_files (ms\<lparr>deleted_entries := d, tombstone_count := n\<rparr>) = active_files ms"
  by (rule active_files_congr, simp)+

lemma active_files_deletePath [store_simps]:
  "active_files (deletePath path t now ms) = (active_files ms)(path := None)"
  by (auto simp: active_files_def deletePath_def cleanupOldTombstones_eq Let_def fun_eq_iff
      split: option.splits)

lemma active_files_cleanup [store_simps]:
  "active_files (fst (cleanupTombstones now del ms w)) = active_files ms"
  by (simp add: store_simps)

lemma exists_path_active:
  assumes "store_inv ms"
  shows "fst (exists_path path ms) \<longleftrightarrow> active_files ms path \<noteq> None"
proof (cases "map_of (entries ms) path")
  case None
  then show ?thesis by (simp add: exists_path_def active_files_def)
next
  case (Some e)
  then have "is_file e"
    using assms map_of_SomeD [OF Some] by (auto simp: store_inv_def list_all_iff)
  then show ?thesis using Some by (simp add: exists_path_def active_files_def)
qed

subsection \<open>The invariant is kept\<close>

lemma store_inv_empty: "store_inv empty_MetadataStore"
  by (simp add: store_inv_def empty_MetadataStore_def)

lemma store_inv_putFile: "store_inv ms \<Longrightarrow> store_inv (putFile path meta ms)"
  by (auto simp: store_inv_def putFile_def list_all_iff set_alist_update)

lemma store_inv_getFile: "store_inv ms \<Longrightarrow> store_inv (snd (getFile path ms))"
  by (simp add: store_simps store_inv_def)

lemma length_takeWhile_dropWhile:
  "length (dropWhile P xs) = length xs - length (takeWhile P xs)"
  by (metis add_diff_cancel_left' length_append takeWhile_dropWhile_id)

lemma store_inv_deletePath: "store_inv ms \<Longrightarrow> store_inv (deletePath path t now ms)"
proof -
  have len: "length (takeWhile (expired now) xs) \<le> length xs" for xs :: "tombstone list"
    by (rule length_takeWhile_le)
  assume "store_inv ms"
  then show ?thesis
    using len [of "deleted_entries ms @ [(path, m, t)]" for m]
    by (auto simp: store_inv_def deletePath_def cleanupOldTombstones_eq Let_def list_all_iff
        set_alist_delete length_takeWhile_dropWhile of_nat_diff
        split: option.splits)
qed

lemma store_inv_cleanup: "store_inv ms \<Longrightarrow> store_inv (fst (cleanupTombstones now del ms w))"
proof -
  have "length ts = length (filter (expired now) ts) + length (filter (\<lambda>e. \<not> expired now e) ts)"
    for ts by (rule sum_length_filter_compl [symmetric])
  then have "(of_nat (length ts) :: size_t) - of_nat (length (filter (expired now) ts))
     = of_nat (length (filter (\<lambda>e. \<not> expired now e) ts))" for ts
    by (metis add_diff_cancel_left' of_nat_add)
  then show "store_inv ms \<Longrightarrow> ?thesis"
    by (simp add: store_inv_def store_simps)
qed

lemmas store_inv_ops = store_inv_empty store_inv_putFile store_inv_getFile
  store_inv_deletePath store_inv_cleanup

subsection \<open>The deque is in time order\<close>

lemma stamped_empty: "stamped t empty_MetadataStore"
  by (simp add: stamped_def empty_MetadataStore_def)

lemma stamped_later: "stamped t ms \<Longrightarrow> t \<le> t' \<Longrightarrow> stamped t' ms"
  by (auto simp: stamped_def list_all_iff)

lemma stamped_congr:
  "deleted_entries ms' = deleted_entries ms \<Longrightarrow> stamped t ms' \<longleftrightarrow> stamped t ms"
  by (simp add: stamped_def)

lemma stamped_filter:
  assumes "stamped t ms" "deleted_entries ms' = filter P (deleted_entries ms)"
  shows "stamped t ms'"
  using assms by (auto simp: stamped_def list_all_iff sorted_filter simp del: map_map)

lemma stamped_snoc:
  assumes "stamped t ms" "t \<le> delete_time"
    "deleted_entries ms' = deleted_entries ms @ [(path, meta, delete_time)]"
  shows "stamped delete_time ms'"
  using assms by (fastforce simp: stamped_def list_all_iff sorted_append)

lemma stamped_cleanupOldTombstones:
  assumes "stamped t ms"
  shows "stamped t (cleanupOldTombstones now ms)"
  using assms stamped_filter [OF assms, of "cleanupOldTombstones now ms"]
  by (simp add: cleanupOldTombstones_eq dropWhile_expired_sorted stamped_def)

lemma stamped_deletePath:
  assumes "stamped t ms" "t \<le> delete_time" "delete_time \<le> now"
  shows "stamped now (deletePath path delete_time now ms)"
proof (cases "\<exists>e. map_of (entries ms) path = Some e \<and> is_file e")
  case False
  then have "deletePath path delete_time now ms = ms"
    by (auto simp: deletePath_def split: option.splits)
  then show ?thesis using stamped_later assms by (metis order_trans)
next
  case True
  then obtain e where e: "map_of (entries ms) path = Some e" "is_file e" by blast
  define ms1 where "ms1 = ms\<lparr>deleted_entries := deleted_entries ms @ [(path, file_meta e, delete_time)],
    entries := AList.delete path (entries ms)\<rparr>"
  have s1: "stamped now ms1"
    using stamped_snoc [OF assms(1,2), of ms1 path "file_meta e"] stamped_later assms(3)
    by (simp add: ms1_def)
  have "deleted_entries (deletePath path delete_time now ms)
      = deleted_entries (if MAX_DELETED_ENTRIES < length (deleted_entries ms1)
          then cleanupOldTombstones now ms1 else ms1)"
    using e by (simp add: deletePath_def ms1_def Let_def)
  moreover have "stamped now (if MAX_DELETED_ENTRIES < length (deleted_entries ms1)
          then cleanupOldTombstones now ms1 else ms1)"
    using s1 stamped_cleanupOldTombstones by simp
  ultimately show ?thesis using stamped_congr by blast
qed

section \<open>The contract: a finite map from paths to metadata\<close>

text \<open>
  What the coordinator uses of the store. \<open>remove\<close> and \<open>purge\<close> take the clock
  readings of one call as their argument.
\<close>

locale file_catalog =
  fixes put :: "string \<Rightarrow> 'm \<Rightarrow> 's \<Rightarrow> 's"
    and lookup :: "string \<Rightarrow> 's \<Rightarrow> 'm option \<times> 's"
    and remove :: "string \<Rightarrow> 't \<Rightarrow> 's \<Rightarrow> 's"
    and purge :: "'t \<Rightarrow> 's \<Rightarrow> 's"
    and files :: "'s \<Rightarrow> string \<Rightarrow> 'm option"
  assumes files_put: "files (put p m s) = (files s)(p \<mapsto> m)"
    and lookup_value: "fst (lookup p s) = files s p"
    and files_lookup: "files (snd (lookup p s)) = files s"
    and files_remove: "files (remove p t s) = (files s)(p := None)"
    and files_purge: "files (purge t s) = files s"
begin

lemma lookup_put: "fst (lookup q (put p m s)) = (if q = p then Some m else fst (lookup q s))"
  by (simp add: lookup_value files_put)

lemma lookup_remove: "fst (lookup q (remove p t s)) = (if q = p then None else fst (lookup q s))"
  by (simp add: lookup_value files_remove)

lemma lookup_purge: "fst (lookup q (purge t s)) = fst (lookup q s)"
  by (simp add: lookup_value files_purge)

lemma lookup_lookup: "fst (lookup q (snd (lookup p s))) = fst (lookup q s)"
  by (simp add: lookup_value files_lookup)

lemma dom_put: "dom (files (put p m s)) = insert p (dom (files s))"
  by (simp add: files_put)

lemma dom_remove: "dom (files (remove p t s)) = dom (files s) - {p}"
  by (auto simp: files_remove)

lemmas catalog_laws = files_put lookup_value files_lookup files_remove files_purge

end

definition store_remove :: "string \<Rightarrow> time_point \<times> time_point \<Rightarrow> MetadataStore \<Rightarrow> MetadataStore" where
  "store_remove path ts ms = deletePath path (fst ts) (snd ts) ms"

definition store_purge :: "time_point \<times> time_point \<Rightarrow> MetadataStore \<Rightarrow> MetadataStore" where
  "store_purge ts ms = fst (cleanupTombstones (snd ts) None ms ())"

interpretation catalog: file_catalog putFile getFile store_remove store_purge active_files
  by unfold_locales
    (simp_all add: active_files_putFile getFile_eq active_files_deletePath store_remove_def
      store_purge_def active_files_cleanup)

section \<open>Runs of the store\<close>

datatype store_op =
    PutOp string FileMeta
  | GetOp string
  | ExistsOp string
  | DeleteOp string time_point time_point
  | CleanupOp time_point

fun store_step :: "store_op \<Rightarrow> MetadataStore \<Rightarrow> FileMeta option \<times> MetadataStore" where
  "store_step (PutOp p m) ms = (None, putFile p m ms)"
| "store_step (GetOp p) ms = getFile p ms"
| "store_step (ExistsOp p) ms = (None, snd (exists_path p ms))"
| "store_step (DeleteOp p t now) ms = (None, deletePath p t now ms)"
| "store_step (CleanupOp now) ms =
     (None, fst (cleanupTombstones now (Some (\<lambda>_. id)) ms ()))"

fun store_run :: "store_op list \<Rightarrow> MetadataStore \<Rightarrow> FileMeta option list \<times> MetadataStore" where
  "store_run [] ms = ([], ms)"
| "store_run (x # xs) ms =
     (let (r, ms1) = store_step x ms; (rs, ms2) = store_run xs ms1 in (r # rs, ms2))"

text \<open>The specification: the same operations on a map.\<close>

fun spec_step :: "store_op \<Rightarrow> (string \<rightharpoonup> FileMeta) \<Rightarrow> FileMeta option \<times> (string \<rightharpoonup> FileMeta)" where
  "spec_step (PutOp p m) f = (None, f(p \<mapsto> m))"
| "spec_step (GetOp p) f = (f p, f)"
| "spec_step (ExistsOp p) f = (None, f)"
| "spec_step (DeleteOp p t now) f = (None, f(p := None))"
| "spec_step (CleanupOp now) f = (None, f)"

fun spec_run :: "store_op list \<Rightarrow> (string \<rightharpoonup> FileMeta) \<Rightarrow> FileMeta option list \<times> (string \<rightharpoonup> FileMeta)" where
  "spec_run [] f = ([], f)"
| "spec_run (x # xs) f = (let (r, f1) = spec_step x f; (rs, f2) = spec_run xs f1 in (r # rs, f2))"

text \<open>The clock readings of a run, in the order the calls make them.\<close>

fun clock_readings :: "store_op \<Rightarrow> time_point list" where
  "clock_readings (DeleteOp p t now) = [t, now]"
| "clock_readings (CleanupOp now) = [now]"
| "clock_readings _ = []"

definition monotone_clock :: "store_op list \<Rightarrow> bool" where
  "monotone_clock xs \<longleftrightarrow> sorted (concat (map clock_readings xs))"

lemma store_step_refines:
  "spec_step x (active_files ms) = (fst (store_step x ms), active_files (snd (store_step x ms)))"
  by (cases x) (auto simp: catalog.catalog_laws active_files_deletePath active_files_cleanup
      exists_path_def)

lemma store_run_refines:
  "spec_run xs (active_files ms) = (fst (store_run xs ms), active_files (snd (store_run xs ms)))"
proof (induction xs arbitrary: ms)
  case Nil
  then show ?case by simp
next
  case (Cons x xs)
  then show ?case by (simp add: store_step_refines split: prod.splits)
qed

lemma store_inv_exists: "store_inv ms \<Longrightarrow> store_inv (snd (exists_path p ms))"
  by (simp add: exists_path_def store_inv_def)

lemma store_inv_step: "store_inv ms \<Longrightarrow> store_inv (snd (store_step x ms))"
  by (cases x) (simp_all add: store_inv_ops store_inv_exists)

lemma store_run_state [simp]:
  "snd (store_run (x # xs) ms) = snd (store_run xs (snd (store_step x ms)))"
  by (simp split: prod.splits)

lemma store_inv_run: "store_inv ms \<Longrightarrow> store_inv (snd (store_run xs ms))"
  by (induction xs arbitrary: ms) (simp_all add: store_inv_step del: store_run.simps(2))

lemma stamped_step:
  assumes "stamped t ms" "sorted (t # clock_readings x)"
  shows "stamped (last (t # clock_readings x)) (snd (store_step x ms))"
proof (cases x)
  case (DeleteOp p d now)
  then show ?thesis using assms stamped_deletePath [of t ms d now] by simp
next
  case (CleanupOp now)
  then show ?thesis
    using assms stamped_later stamped_filter [of now ms "snd (store_step x ms)" "\<lambda>e. \<not> expired now e"]
    by (simp add: store_simps)
qed (use assms in \<open>auto simp: getFile_eq exists_path_def putFile_def stamped_def\<close>)

lemma stamped_run:
  assumes "stamped t ms" "sorted (t # concat (map clock_readings xs))"
  shows "stamped (last (t # concat (map clock_readings xs))) (snd (store_run xs ms))"
  using assms
proof (induction xs arbitrary: t ms)
  case Nil
  then show ?case by simp
next
  case (Cons x xs)
  define t' where "t' = last (t # clock_readings x)"
  have s: "sorted (t # clock_readings x)" "sorted (t' # concat (map clock_readings xs))"
    using Cons.prems(2) unfolding t'_def by (auto simp: sorted_append)
  have "stamped t' (snd (store_step x ms))"
    using stamped_step [OF Cons.prems(1) s(1)] by (simp add: t'_def)
  from Cons.IH [OF this s(2)] show ?case
    by (cases "concat (map clock_readings xs)") (auto simp: t'_def simp del: store_run.simps(2))
qed

section \<open>Properties\<close>

text \<open>C23. The metadata store refines a finite map: whatever sequence of \<open>putFile\<close>, \<open>getFile\<close>,
  \<open>exists\<close>, \<open>deletePath\<close> and cleanup calls is made from the empty store, at whatever clock
  readings, every \<open>getFile\<close> answers as the map would and the active files are the map's
  content.\<close>

theorem store_refines_map:
  "spec_run xs Map.empty =
     (fst (store_run xs empty_MetadataStore), active_files (snd (store_run xs empty_MetadataStore)))"
proof -
  have "active_files empty_MetadataStore = Map.empty"
    by (simp add: active_files_def empty_MetadataStore_def fun_eq_iff)
  then show ?thesis using store_run_refines [of xs empty_MetadataStore] by simp
qed

text \<open>C33. The statistics are exact after any sequence of calls: \<open>tombstone_count_\<close>, kept by
  increments in \<open>deletePath\<close> and decrements in two cleanup loops, always equals the number of
  entries of the deque.\<close>

theorem statistics_tombstones_exact:
  "st_tombstone_count (getStatistics (snd (store_run xs empty_MetadataStore)))
     = st_deleted_entries (getStatistics (snd (store_run xs empty_MetadataStore)))"
  using store_inv_run [OF store_inv_empty, of xs] by (simp add: getStatistics_def store_inv_def)

text \<open>C30. With a clock that never goes back, the front-popping \<open>cleanupOldTombstones\<close> of
  \<open>deletePath\<close> and the full scan of the background worker keep the same tombstones and the same
  count, from every state the store can be in.\<close>

theorem cleanup_loops_equivalent:
  assumes "monotone_clock xs"
  shows "cleanupOldTombstones now (snd (store_run xs empty_MetadataStore))
       = fst (cleanupTombstones now del (snd (store_run xs empty_MetadataStore)) w)"
proof -
  define ms where "ms = snd (store_run xs empty_MetadataStore)"
  obtain t where "sorted (t # concat (map clock_readings xs))"
    using assms unfolding monotone_clock_def by (cases "concat (map clock_readings xs)") auto
  from stamped_run [OF stamped_empty this]
  have sorted: "sorted (map (snd \<circ> snd) (deleted_entries ms))"
    by (simp add: stamped_def ms_def)
  have len: "length (takeWhile (expired now) (deleted_entries ms))
      = length (filter (expired now) (deleted_entries ms))"
    using dropWhile_expired_sorted [OF sorted, of now]
      sum_length_filter_compl [of "expired now" "deleted_entries ms"]
      arg_cong [OF takeWhile_dropWhile_id [of "expired now" "deleted_entries ms"], of length]
    by (simp del: takeWhile_dropWhile_id)
  show ?thesis
    unfolding ms_def [symmetric]
    by (simp add: cleanupOldTombstones_eq store_simps dropWhile_expired_sorted [OF sorted] len)
qed

theorem cleanup_loops_equivalent_witness:
  "cleanupOldTombstones 700000000000
     (snd (store_run [PutOp ''a'' \<lparr>fm_size = 0, chunk_size = 0, chunks = []\<rparr>, DeleteOp ''a'' 1 2]
       empty_MetadataStore))
   = fst (cleanupTombstones 700000000000 (None :: (FileMeta \<Rightarrow> unit \<Rightarrow> unit) option)
     (snd (store_run [PutOp ''a'' \<lparr>fm_size = 0, chunk_size = 0, chunks = []\<rparr>, DeleteOp ''a'' 1 2]
       empty_MetadataStore)) ())"
  by (rule cleanup_loops_equivalent) (simp add: monotone_clock_def)

text \<open>C31. The worker's scan hands to the chunk deleter exactly the metadata of the tombstones
  older than the lifetime, in deque order and once each, keeps the younger ones in order, and
  leaves the active files alone.\<close>

theorem cleanup_deletes_exactly_expired:
  "snd (cleanupTombstones now (Some (\<lambda>m log. log @ [m])) ms [])
     = map (fst \<circ> snd) (filter (\<lambda>e. TOMBSTONE_LIFETIME < now - snd (snd e)) (deleted_entries ms))
   \<and> deleted_entries (fst (cleanupTombstones now (Some (\<lambda>m log. log @ [m])) ms []))
     = filter (\<lambda>e. \<not> TOMBSTONE_LIFETIME < now - snd (snd e)) (deleted_entries ms)
   \<and> active_files (fst (cleanupTombstones now (Some (\<lambda>m log. log @ [m])) ms [])) = active_files ms"
proof -
  have "fold (\<lambda>e log. log @ [fst (snd e)]) ts l = l @ map (fst \<circ> snd) ts"
    for ts :: "tombstone list" and l :: "FileMeta list"
    by (induction ts arbitrary: l) auto
  moreover have "expired now = (\<lambda>e. TOMBSTONE_LIFETIME < now - snd (snd e))"
    by (auto simp: expired_def fun_eq_iff)
  ultimately show ?thesis
    by (simp add: cleanupTombstones_world cleanupTombstones_store active_files_cleanup)
qed

text \<open>C32. A tombstone is lost with its chunks when the deque is full: \<open>deletePath\<close> on a store
  with \<open>MAX_DELETED_ENTRIES\<close> tombstones in time order drops every expired one, and a later
  background cleanup, whatever its clock reading, never hands the dropped entry to the chunk
  deleter, so its chunks stay on the data nodes.\<close>

theorem full_deque_leaks_chunks:
  assumes "active_files ms path \<noteq> None"
    and "MAX_DELETED_ENTRIES \<le> length (deleted_entries ms)"
    and "stamped t ms" and "t \<le> delete_time" and "delete_time \<le> now"
  shows "deleted_entries (deletePath path delete_time now ms)
       = filter (\<lambda>e. \<not> expired now e) (deleted_entries ms)
         @ (if expired now (path, the (active_files ms path), delete_time) then []
            else [(path, the (active_files ms path), delete_time)])
     \<and> (expired now e \<longrightarrow>
         e \<notin> set (filter (expired later) (deleted_entries (deletePath path delete_time now ms))))"
proof -
  obtain p where p: "map_of (entries ms) path = Some p" "is_file p"
    "active_files ms path = Some (file_meta p)"
    using assms(1) by (auto simp: active_files_def split: option.splits if_splits)
  define ms1 where "ms1 = ms\<lparr>deleted_entries := deleted_entries ms @ [(path, file_meta p, delete_time)],
    entries := AList.delete path (entries ms)\<rparr>"
  have "stamped now ms1"
    using stamped_snoc [OF assms(3,4), of ms1 path "file_meta p"] stamped_later assms(5)
    by (simp add: ms1_def)
  then have "deleted_entries (cleanupOldTombstones now ms1)
      = filter (\<lambda>e. \<not> expired now e) (deleted_entries ms1)"
    by (simp add: cleanupOldTombstones_eq dropWhile_expired_sorted stamped_def)
  moreover have "deleted_entries (deletePath path delete_time now ms)
      = deleted_entries (cleanupOldTombstones now ms1)"
    using p assms(2) by (simp add: deletePath_def ms1_def Let_def)
  ultimately show ?thesis using p by (auto simp: ms1_def)
qed

definition full_store :: MetadataStore where
  "full_store =
    \<lparr>entries = [(''f'', \<lparr>is_file = True, file_meta = \<lparr>fm_size = 0, chunk_size = 0, chunks = []\<rparr>\<rparr>)],
     deleted_entries =
       replicate 10000 (''g'', \<lparr>fm_size = 5, chunk_size = 1048576, chunks = []\<rparr>, 0),
     read_count = 0, write_count = 0, tombstone_count = 10000\<rparr>"

theorem full_deque_leaks_chunks_witness:
  "deleted_entries (deletePath ''f'' 400000000000 400000000000 full_store)
     = [(''f'', \<lparr>fm_size = 0, chunk_size = 0, chunks = []\<rparr>, 400000000000)]"
proof -
  have "active_files full_store ''f'' \<noteq> None"
    "MAX_DELETED_ENTRIES \<le> length (deleted_entries full_store)" "stamped 0 full_store"
    by (simp_all add: active_files_def full_store_def MAX_DELETED_ENTRIES_def stamped_def
        list_all_iff map_replicate sorted_replicate)
  from full_deque_leaks_chunks [OF this, of 400000000000 400000000000 undefined undefined]
  show ?thesis
    by (simp add: full_store_def active_files_def filter_replicate TOMBSTONE_LIFETIME_def)
qed

end
