(* ===== verification/Cpp_Strings.thy ===== *)
theory Cpp_Strings
  imports Prelude
begin

text \<open>
  The part of \<open>std::string\<close> and of the stream library the sources use:
  \<open>std::to_string\<close>, \<open>std::stoi\<close>, \<open>find\<close> and \<open>rfind\<close> of a character, and the
  \<open>while (file.read(buffer, 4096))\<close> loop that the client and the data node share.
  Console output is a record of the two streams, written in whole lines. The lemmas are the round trip of printing and parsing, what the searches
  return, and that the blocks of the read loop add up to the file.
\<close>

section \<open>Console output\<close>

definition endl :: string where
  "endl = [CHR 0x0A]"

definition text_lines :: "string list \<Rightarrow> string" where
  "text_lines ls = concat (map (\<lambda>l. l @ endl) ls)"

text \<open>What a process has written to \<open>std::cout\<close> and \<open>std::cerr\<close>, and a line more.\<close>

record console =
  cout :: string
  cerr :: string

definition quiet :: console where
  "quiet = \<lparr>cout = [], cerr = []\<rparr>"

definition say :: "string \<Rightarrow> console \<Rightarrow> console" where
  "say l c = c\<lparr>cout := cout c @ l @ endl\<rparr>"

definition complain :: "string \<Rightarrow> console \<Rightarrow> console" where
  "complain l c = c\<lparr>cerr := cerr c @ l @ endl\<rparr>"

section \<open>Decimal printing and parsing\<close>

definition digit_char :: "nat \<Rightarrow> char" where
  "digit_char d = char_of (48 + d)"

fun digits :: "nat \<Rightarrow> string" where
  "digits n = (if n < 10 then [digit_char n] else digits (n div 10) @ [digit_char (n mod 10)])"

declare digits.simps [simp del]

definition to_string :: "int \<Rightarrow> string" where
  "to_string z = (if z < 0 then CHR ''-'' # digits (nat (- z)) else digits (nat z))"

definition is_space :: "char \<Rightarrow> bool" where
  "is_space c \<longleftrightarrow> c = CHR '' '' \<or> (9 \<le> (of_char c :: nat) \<and> (of_char c :: nat) \<le> 13)"

definition is_digit :: "char \<Rightarrow> bool" where
  "is_digit c \<longleftrightarrow> 48 \<le> (of_char c :: nat) \<and> (of_char c :: nat) \<le> 57"

definition digit_value :: "char \<Rightarrow> nat" where
  "digit_value c = of_char c - 48"

definition parse_digits :: "string \<Rightarrow> nat" where
  "parse_digits s = foldl (\<lambda>v c. 10 * v + digit_value c) 0 s"

text \<open>
  \<open>std::stoi\<close>: white space is skipped, a sign is read, the longest run of digits
  is converted and whatever follows it is ignored. No digit is
  \<open>std::invalid_argument\<close>, a value outside \<open>int\<close> is \<open>std::out_of_range\<close>.
\<close>

definition split_sign :: "string \<Rightarrow> bool \<times> string" where
  "split_sign s = (case s of
       [] \<Rightarrow> (False, [])
     | c # r \<Rightarrow> if c = CHR ''-'' then (True, r) else if c = CHR ''+'' then (False, r) else (False, s))"

definition stoi :: "string \<Rightarrow> cpp_exception + int" where
  "stoi s =
    (let (neg, r) = split_sign (dropWhile is_space s);
         ds = takeWhile is_digit r;
         v = (if neg then - int (parse_digits ds) else int (parse_digits ds))
     in if ds = [] then Inl Invalid_argument
        else if v < - (2 ^ 31) \<or> 2 ^ 31 \<le> v then Inl Out_of_range
        else Inr v)"

lemma digit_chars:
  "digit_char 0 = CHR ''0''" "digit_char (Suc 0) = CHR ''1''" "digit_char 1 = CHR ''1''"
  "digit_char 2 = CHR ''2''" "digit_char 3 = CHR ''3''" "digit_char 4 = CHR ''4''"
  "digit_char 5 = CHR ''5''" "digit_char 6 = CHR ''6''" "digit_char 7 = CHR ''7''"
  "digit_char 8 = CHR ''8''" "digit_char 9 = CHR ''9''"
  by code_simp+

lemma of_char_digit_char: "d < 10 \<Longrightarrow> (of_char (digit_char d) :: nat) = 48 + d"
  by (simp add: digit_char_def)

lemma is_digit_digit_char [simp]: "d < 10 \<Longrightarrow> is_digit (digit_char d)"
  by (simp add: is_digit_def of_char_digit_char)

lemma digit_value_digit_char [simp]: "d < 10 \<Longrightarrow> digit_value (digit_char d) = d"
  by (simp add: digit_value_def of_char_digit_char)

lemma digits_all_digit: "c \<in> set (digits n) \<Longrightarrow> is_digit c"
proof (induction n rule: digits.induct)
  case (1 n)
  then show ?case by (subst (asm) (2) digits.simps) (auto split: if_splits)
qed

lemma digits_nonempty [simp]: "digits n \<noteq> []"
  by (subst digits.simps) simp

lemma parse_digits_snoc: "parse_digits (xs @ [c]) = 10 * parse_digits xs + digit_value c"
  by (simp add: parse_digits_def)

lemma parse_digits_digits [simp]: "parse_digits (digits n) = n"
proof (induction n rule: digits.induct)
  case (1 n)
  show ?case
  proof (cases "n < 10")
    case True
    then show ?thesis by (subst digits.simps) (simp add: parse_digits_def)
  next
    case False
    then show ?thesis using 1 by (subst digits.simps) (simp add: parse_digits_snoc)
  qed
qed

lemma digits_inject [simp]: "digits m = digits n \<longleftrightarrow> m = n"
  by (metis parse_digits_digits)

lemma is_digit_facts:
  assumes "is_digit c"
  shows "\<not> is_space c" "c \<noteq> CHR ''-''" "c \<noteq> CHR ''+''" "c \<noteq> CHR ''/''" "c \<noteq> CHR ''.''"
    "c \<noteq> CHR ''e''" "c \<noteq> CHR ''_''"
  using assms by (auto simp: is_digit_def is_space_def)

lemma not_in_digits:
  "CHR ''/'' \<notin> set (digits n)" "CHR ''.'' \<notin> set (digits n)" "CHR ''_'' \<notin> set (digits n)"
  using digits_all_digit is_digit_facts by blast+

lemma takeWhile_digits: "takeWhile is_digit (digits n) = digits n"
  using digits_all_digit by (auto simp: takeWhile_eq_all_conv)

lemma skip_space_digits: "dropWhile is_space (digits n) = digits n"
proof -
  have "\<not> is_space (hd (digits n))"
    using digits_all_digit [of "hd (digits n)" n] by (simp add: is_digit_facts)
  then show ?thesis by (cases "digits n") auto
qed

lemma split_sign_digits: "split_sign (digits n) = (False, digits n)"
proof -
  have "is_digit (hd (digits n))" using digits_all_digit [of "hd (digits n)" n] by simp
  then show ?thesis
    using is_digit_facts(2,3) by (cases "digits n") (auto simp: split_sign_def)
qed

text \<open>Printing a counter and reading it back, up to the range of \<open>int\<close>.\<close>

lemma stoi_digits:
  "stoi (digits n) = (if n < 2 ^ 31 then Inr (int n) else Inl Out_of_range)"
  by (simp add: stoi_def skip_space_digits split_sign_digits takeWhile_digits)

lemma to_string_nat [simp]: "to_string (int n) = digits n"
  by (simp add: to_string_def)

lemma to_string_nonneg: "0 \<le> z \<Longrightarrow> to_string z = digits (nat z)"
  by (simp add: to_string_def)

lemma to_string_inject [simp]: "to_string y = to_string z \<longleftrightarrow> y = z"
proof -
  have minus: "CHR ''-'' # xs \<noteq> digits n" for xs n
    using digits_all_digit [of "CHR ''-''" n] is_digit_facts(2) by (metis list.set_intros(1))
  show ?thesis
    using minus minus [symmetric] by (auto simp: to_string_def)
qed

section \<open>Searching for a character\<close>

text \<open>\<open>find\<close> and \<open>rfind\<close>; \<open>None\<close> is \<open>std::string::npos\<close>.\<close>

definition find_char :: "char \<Rightarrow> string \<Rightarrow> nat option" where
  "find_char c s =
    (let n = length (takeWhile (\<lambda>x. x \<noteq> c) s) in if n < length s then Some n else None)"

definition find_char_from :: "char \<Rightarrow> string \<Rightarrow> nat \<Rightarrow> nat option" where
  "find_char_from c s pos = map_option (\<lambda>k. pos + k) (find_char c (drop pos s))"

definition rfind_char :: "char \<Rightarrow> string \<Rightarrow> nat option" where
  "rfind_char c s = map_option (\<lambda>k. length s - 1 - k) (find_char c (rev s))"

lemma find_char_Nil [simp]: "find_char c [] = None"
  by (simp add: find_char_def)

lemma find_char_Cons:
  "find_char c (x # s) = (if x = c then Some 0 else map_option Suc (find_char c s))"
  by (simp add: find_char_def Let_def)

lemma find_char_None: "find_char c s = None \<longleftrightarrow> c \<notin> set s"
  by (induction s) (auto simp: find_char_Cons)

lemma find_char_append: "c \<notin> set p \<Longrightarrow> find_char c (p @ c # s) = Some (length p)"
  by (induction p) (auto simp: find_char_Cons)

lemma find_char_Some:
  "find_char c s = Some k \<Longrightarrow> k < length s \<and> s ! k = c \<and> c \<notin> set (take k s)"
proof (induction s arbitrary: k)
  case Nil
  then show ?case by simp
next
  case (Cons x s)
  then show ?case by (cases k) (auto simp: find_char_Cons split: if_splits)
qed

lemma find_char_from_Some:
  assumes "find_char_from c s pos = Some k"
  shows "pos \<le> k \<and> k < length s \<and> s ! k = c"
proof -
  obtain j where j: "find_char c (drop pos s) = Some j" "k = pos + j"
    using assms by (auto simp: find_char_from_def)
  from find_char_Some [OF j(1)] have "j < length s - pos" "drop pos s ! j = c" by auto
  then show ?thesis using j(2) by (simp add: nth_drop)
qed

lemma rfind_char_None: "rfind_char c s = None \<longleftrightarrow> c \<notin> set s"
  by (simp add: rfind_char_def find_char_None)

lemma rfind_char_append: "c \<notin> set t \<Longrightarrow> rfind_char c (p @ c # t) = Some (length p)"
  using find_char_append [of c "rev t" "rev p"] by (simp add: rfind_char_def)

text \<open>The text after the last occurrence of a separator is determined by the string.\<close>

lemma last_separator_unique:
  fixes c :: char
  assumes "p @ c # t = p' @ c # t'" "c \<notin> set t" "c \<notin> set t'"
  shows "p = p' \<and> t = t'"
proof -
  have "Some (length p) = Some (length p')"
    using rfind_char_append [OF assms(2), of p] rfind_char_append [OF assms(3), of p'] assms(1)
    by simp
  then show ?thesis using assms(1) by simp
qed

section \<open>Reading a stream in blocks\<close>

text \<open>
  \<open>char buffer[4096]; while (file.read(buffer, 4096)) ...; if (file.gcount() > 0) ...\<close>
  reads full blocks and leaves the last short one, possibly empty, in the buffer.
\<close>

definition buffer_size :: nat where
  "buffer_size = 4096"

function read_blocks :: "bytes \<Rightarrow> bytes list \<times> bytes" where
  "read_blocks s =
    (if buffer_size \<le> length s
     then (let (bs, r) = read_blocks (drop buffer_size s) in (take buffer_size s # bs, r))
     else ([], s))"
  by pat_completeness auto
termination
  by (relation "measure length") (auto simp: buffer_size_def)

declare read_blocks.simps [simp del]

lemma read_blocks_short: "length s < buffer_size \<Longrightarrow> read_blocks s = ([], s)"
  by (subst read_blocks.simps) simp

lemma read_blocks_concat: "concat (fst (read_blocks s)) @ snd (read_blocks s) = s"
proof (induction s rule: read_blocks.induct)
  case (1 s)
  then show ?case by (subst (1 2) read_blocks.simps) (auto split: prod.splits)
qed

lemma read_blocks_full: "b \<in> set (fst (read_blocks s)) \<Longrightarrow> length b = buffer_size"
proof (induction s rule: read_blocks.induct)
  case (1 s)
  from "1.prems" show ?case
    by (subst (asm) read_blocks.simps)
      (auto split: prod.splits if_splits intro: "1.IH" simp: min_def)
qed

lemma read_blocks_rest: "length (snd (read_blocks s)) < buffer_size"
proof (induction s rule: read_blocks.induct)
  case (1 s)
  then show ?case by (subst read_blocks.simps) (auto split: prod.splits)
qed

end
