(* ===== verification/Datanode_Storage.thy ===== *)
theory Datanode_Storage
  imports Cpp_Strings "HOL-Library.Signed_Division"
begin

text \<open>
  The chunk files of a data node: \<open>datanode/src/datanode_config.cpp\<close> and
  \<open>datanode/src/datanode_utils.cpp\<close>, over a model of the calls they and the
  service make on the file system.

  The file system is a list of regular files, a list of directories, and two
  parameters of the environment: \<open>fs_fault p\<close> is the error every system call on
  the path \<open>p\<close> reports (permissions, I/O errors), \<open>fs_quota p\<close> is how many bytes
  the device accepts for the file \<open>p\<close> (a full disk). Paths are compared as
  strings: links, \<open>.\<close>, \<open>..\<close> and repeated slashes are not resolved.
\<close>

section \<open>Configuration\<close>

record DataNodeConfig =
  chunk_root_path :: string
  config_node_id :: string

definition default_DataNodeConfig :: DataNodeConfig where
  "default_DataNodeConfig = \<lparr>chunk_root_path = ''/tmp/dfs_chunks'', config_node_id = []\<rparr>"

text \<open>\<open>CreateUnique\<close>; \<open>draw\<close> is what \<open>uniform_int_distribution(1000, 9999)\<close> yields.\<close>

definition CreateUnique :: "string \<Rightarrow> string \<Rightarrow> int \<Rightarrow> DataNodeConfig" where
  "CreateUnique base_path unique_suffix draw =
    default_DataNodeConfig\<lparr>chunk_root_path := base_path,
      config_node_id := (if unique_suffix = [] then ''node_'' @ to_string draw else unique_suffix)\<rparr>"

section \<open>The file system\<close>

record filesystem =
  fs_files :: "(string \<times> bytes) list"
  fs_dirs :: "string list"
  fs_fault :: "string \<Rightarrow> errno option"
  fs_quota :: "string \<Rightarrow> nat option"

definition dirname :: "string \<Rightarrow> string" where
  "dirname p = (case rfind_char CHR ''/'' p of None \<Rightarrow> [] | Some k \<Rightarrow> take k p)"

text \<open>The empty prefix is the root directory or the working directory.\<close>

definition dir_exists :: "filesystem \<Rightarrow> string \<Rightarrow> bool" where
  "dir_exists fs d \<longleftrightarrow> d = [] \<or> d \<in> set (fs_dirs fs)"

definition file_content :: "filesystem \<Rightarrow> string \<Rightarrow> bytes option" where
  "file_content fs p = map_of (fs_files fs) p"

text \<open>\<open>mkdir(2)\<close>: \<open>None\<close> is success.\<close>

definition fs_mkdir :: "string \<Rightarrow> filesystem \<Rightarrow> errno option \<times> filesystem" where
  "fs_mkdir p fs =
    (case fs_fault fs p of
       Some e \<Rightarrow> (Some e, fs)
     | None \<Rightarrow>
         if p = [] then (Some ENOENT, fs)
         else if p \<in> set (fs_dirs fs) \<or> file_content fs p \<noteq> None then (Some EEXIST, fs)
         else if \<not> dir_exists fs (dirname p) then (Some ENOENT, fs)
         else (None, fs\<lparr>fs_dirs := p # fs_dirs fs\<rparr>))"

text \<open>Opening a \<open>std::ofstream\<close> creates or truncates the file; \<open>None\<close> is a failed open.\<close>

definition ofstream_open :: "string \<Rightarrow> filesystem \<Rightarrow> filesystem option" where
  "ofstream_open p fs =
    (if fs_fault fs p \<noteq> None \<or> p = [] \<or> p \<in> set (fs_dirs fs) \<or> \<not> dir_exists fs (dirname p) then None
     else Some (fs\<lparr>fs_files := AList.update p [] (fs_files fs)\<rparr>))"

text \<open>
  Writing to it: what exceeds the quota is lost and turns the stream bad, and a
  bad stream ignores every further write. The first component is whether the
  stream is still good.
\<close>

definition ofstream_write :: "string \<Rightarrow> bool \<Rightarrow> bytes \<Rightarrow> filesystem \<Rightarrow> bool \<times> filesystem" where
  "ofstream_write p good data fs =
    (if \<not> good then (False, fs)
     else (let content = (case file_content fs p of None \<Rightarrow> [] | Some c \<Rightarrow> c) @ data;
               accepted = (case fs_quota fs p of None \<Rightarrow> length content | Some q \<Rightarrow> q)
           in (length content \<le> accepted,
               fs\<lparr>fs_files := AList.update p (take accepted content) (fs_files fs)\<rparr>)))"

text \<open>Opening a \<open>std::ifstream\<close>; a directory opens but reads nothing.\<close>

definition ifstream_open :: "string \<Rightarrow> filesystem \<Rightarrow> bytes option" where
  "ifstream_open p fs =
    (if fs_fault fs p \<noteq> None then None
     else case file_content fs p of
            Some c \<Rightarrow> Some c
          | None \<Rightarrow> if p \<in> set (fs_dirs fs) then Some [] else None)"

text \<open>\<open>std::remove\<close>: a file, or an empty directory.\<close>

definition fs_remove :: "string \<Rightarrow> filesystem \<Rightarrow> errno option \<times> filesystem" where
  "fs_remove p fs =
    (case fs_fault fs p of
       Some e \<Rightarrow> (Some e, fs)
     | None \<Rightarrow>
         if file_content fs p \<noteq> None then (None, fs\<lparr>fs_files := AList.delete p (fs_files fs)\<rparr>)
         else if p \<in> set (fs_dirs fs) then
           (if list_ex (\<lambda>q. dirname q = p) (map fst (fs_files fs) @ fs_dirs fs)
            then (Some (ERRNO 39), fs)
            else (None, fs\<lparr>fs_dirs := removeAll p (fs_dirs fs)\<rparr>))
         else (Some ENOENT, fs))"

section \<open>Chunk paths\<close>

text \<open>The \<open>while\<close> loop over the positions of \<open>/\<close>; \<open>Some\<close> is the exception thrown.\<close>

function mkdir_prefixes :: "string \<Rightarrow> nat \<Rightarrow> filesystem \<Rightarrow> cpp_exception option \<times> filesystem" where
  "mkdir_prefixes path pos fs =
    (case find_char_from CHR ''/'' path pos of
       None \<Rightarrow> (None, fs)
     | Some p \<Rightarrow>
         let current = take p path
         in if current = [] then mkdir_prefixes path (p + 1) fs
            else (case fs_mkdir current fs of
                    (None, fs') \<Rightarrow> mkdir_prefixes path (p + 1) fs'
                  | (Some e, fs') \<Rightarrow>
                      if e \<noteq> EEXIST
                      then (Some (Runtime_error (''Failed to create directory: '' @ current)), fs')
                      else mkdir_prefixes path (p + 1) fs'))"
  by pat_completeness auto
termination
  by (relation "measure (\<lambda>(path, pos, fs). length path - pos)") (auto dest!: find_char_from_Some)

declare mkdir_prefixes.simps [simp del]

definition create_directories_recursively ::
  "string \<Rightarrow> filesystem \<Rightarrow> cpp_exception option \<times> filesystem" where
  "create_directories_recursively path fs =
    (case mkdir_prefixes path 0 fs of
       (Some ex, fs1) \<Rightarrow> (Some ex, fs1)
     | (None, fs1) \<Rightarrow>
         (case fs_mkdir path fs1 of
            (None, fs2) \<Rightarrow> (None, fs2)
          | (Some e, fs2) \<Rightarrow>
              if e \<noteq> EEXIST
              then (Some (Runtime_error (''Failed to create directory: '' @ path)), fs2)
              else (None, fs2)))"

text \<open>
  \<open>get_chunk_path\<close> creates the directories as a side effect and ignores a failure
  to do so; an exception of \<open>std::stoi\<close> leaves it. The divisions of \<open>int\<close>
  truncate.
\<close>

definition get_chunk_path ::
  "string \<Rightarrow> DataNodeConfig \<Rightarrow> filesystem \<Rightarrow> (cpp_exception + string) \<times> filesystem" where
  "get_chunk_path cid config fs =
    (case find_char CHR ''_'' cid of
       None \<Rightarrow> (Inr cid, fs)
     | Some pos \<Rightarrow>
         if take pos cid \<noteq> ''chunk'' then (Inr cid, fs)
         else (case stoi (drop (pos + 1) cid) of
                 Inl ex \<Rightarrow> (Inl ex, fs)
               | Inr N \<Rightarrow>
                   let base_path = (if config_node_id config \<noteq> []
                                    then chunk_root_path config @ ''/'' @ config_node_id config
                                    else chunk_root_path config);
                       group_size = 1000;
                       level3 = N sdiv (group_size * group_size);
                       level2 = (N sdiv group_size) smod group_size;
                       dir_path = base_path @ ''/'' @ to_string level3 @ ''/'' @ to_string level2;
                       (_, fs') = create_directories_recursively dir_path fs
                   in (Inr (dir_path @ ''/'' @ to_string N @ ''.cfile''), fs')))"

subsection \<open>The path of a chunk the coordinator names\<close>

definition base_path :: "DataNodeConfig \<Rightarrow> string" where
  "base_path config = (if config_node_id config \<noteq> []
     then chunk_root_path config @ ''/'' @ config_node_id config else chunk_root_path config)"

definition chunk_dir :: "DataNodeConfig \<Rightarrow> nat \<Rightarrow> string" where
  "chunk_dir config n =
    base_path config @ ''/'' @ digits (n div 1000000) @ ''/'' @ digits (n div 1000 mod 1000)"

definition chunk_file :: "DataNodeConfig \<Rightarrow> nat \<Rightarrow> string" where
  "chunk_file config n = chunk_dir config n @ ''/'' @ digits n @ ''.cfile''"

text \<open>The identifiers the coordinator makes, \<open>"chunk_" + std::to_string(n)\<close>.\<close>

definition chunk_name :: "nat \<Rightarrow> string" where
  "chunk_name n = ''chunk_'' @ digits n"

lemma chunk_name_inject [simp]: "chunk_name m = chunk_name n \<longleftrightarrow> m = n"
  by (simp add: chunk_name_def)

lemma find_char_chunk_name: "find_char CHR ''_'' (chunk_name n) = Some 5"
  using find_char_append [of "CHR ''_''" "''chunk''" "digits n"] by (simp add: chunk_name_def)

lemma sdiv_smod_nonneg:
  "int n sdiv int k = int (n div k)" "int n smod int k = int (n mod k)"
  by (simp_all add: signed_divide_int_def signed_modulo_int_def zdiv_int sgn_if mod_div_mult_eq
      minus_div_mult_eq_mod zmod_int flip: of_nat_mult of_nat_diff)

lemma get_chunk_path_chunk_name:
  "get_chunk_path (chunk_name n) config fs =
     (if n < 2 ^ 31
      then (Inr (chunk_file config n),
            snd (create_directories_recursively (chunk_dir config n) fs))
      else (Inl Out_of_range, fs))"
proof -
  have "take 5 (chunk_name n) = ''chunk''" "drop (5 + 1) (chunk_name n) = digits n"
    by (simp_all add: chunk_name_def)
  moreover have "int n sdiv 1000000 = int (n div 1000000)"
    "(int n sdiv 1000) smod 1000 = int (n div 1000 mod 1000)"
    using sdiv_smod_nonneg(1) [of n 1000000] sdiv_smod_nonneg(1) [of n 1000]
      sdiv_smod_nonneg(2) [of "n div 1000" 1000] by simp_all
  ultimately show ?thesis
    by (simp add: get_chunk_path_def find_char_chunk_name stoi_digits chunk_file_def chunk_dir_def
        base_path_def Let_def split: prod.splits)
qed

lemma slash_not_in_leaf: "CHR ''/'' \<notin> set (digits n @ ''.cfile'')"
  using not_in_digits(1) by simp

lemma dirname_chunk_file [simp]: "dirname (chunk_file config n) = chunk_dir config n"
  using rfind_char_append [OF slash_not_in_leaf, of "chunk_dir config n" n]
  by (simp add: dirname_def chunk_file_def)

text \<open>One file per chunk number, whatever the configurations of the nodes are.\<close>

lemma chunk_file_inject:
  assumes "chunk_file c m = chunk_file c' n"
  shows "m = n"
proof -
  have "digits m @ ''.cfile'' = digits n @ ''.cfile''"
    using last_separator_unique [of "chunk_dir c m" "CHR ''/''" "digits m @ ''.cfile''"
        "chunk_dir c' n" "digits n @ ''.cfile''"] assms slash_not_in_leaf
    by (simp add: chunk_file_def)
  then show ?thesis by simp
qed

subsection \<open>What creating directories does\<close>

text \<open>Only directories of the set \<open>S\<close> were added.\<close>

definition dirs_grow :: "string set \<Rightarrow> filesystem \<Rightarrow> filesystem \<Rightarrow> bool" where
  "dirs_grow S fs fs' \<longleftrightarrow>
     fs_files fs' = fs_files fs \<and> fs_fault fs' = fs_fault fs \<and> fs_quota fs' = fs_quota fs \<and>
     set (fs_dirs fs) \<subseteq> set (fs_dirs fs') \<and> set (fs_dirs fs') \<subseteq> set (fs_dirs fs) \<union> S"

lemma dirs_grow_refl [simp]: "dirs_grow S fs fs"
  by (simp add: dirs_grow_def)

lemma dirs_grow_trans: "dirs_grow S fs fs' \<Longrightarrow> dirs_grow S fs' fs'' \<Longrightarrow> dirs_grow S fs fs''"
  unfolding dirs_grow_def by (intro conjI) (simp_all, blast+)

lemma dirs_grow_mkdir: "p \<in> S \<Longrightarrow> dirs_grow S fs (snd (fs_mkdir p fs))"
  by (auto simp: dirs_grow_def fs_mkdir_def split: option.splits)

lemma dir_exists_grow: "dirs_grow S fs fs' \<Longrightarrow> dir_exists fs d \<Longrightarrow> dir_exists fs' d"
  by (auto simp: dirs_grow_def dir_exists_def)

text \<open>The prefixes of a path that end before a slash, and the path itself.\<close>

definition path_prefixes :: "string \<Rightarrow> string set" where
  "path_prefixes path = insert path {take k path |k. k < length path \<and> path ! k = CHR ''/''}"

lemma dirs_grow_mkdir_prefixes:
  "dirs_grow (path_prefixes path) fs (snd (mkdir_prefixes path pos fs))"
proof (induction path pos fs rule: mkdir_prefixes.induct)
  case (1 path pos fs)
  show ?case
  proof (cases "find_char_from CHR ''/'' path pos")
    case None
    then show ?thesis by (subst mkdir_prefixes.simps) simp
  next
    case (Some k)
    have "take k path \<in> path_prefixes path"
      using find_char_from_Some [OF Some] by (auto simp: path_prefixes_def)
    from dirs_grow_mkdir [OF this, of fs] obtain r fs' where
      m: "fs_mkdir (take k path) fs = (r, fs')" "dirs_grow (path_prefixes path) fs fs'"
      by (cases "fs_mkdir (take k path) fs") simp
    show ?thesis
      using "1.IH" Some m
      by (subst mkdir_prefixes.simps)
        (auto simp: Let_def split: option.splits intro: dirs_grow_trans)
  qed
qed

lemma dirs_grow_create:
  "dirs_grow (path_prefixes path) fs (snd (create_directories_recursively path fs))"
proof -
  obtain r fs1 where 1: "mkdir_prefixes path 0 fs = (r, fs1)" "dirs_grow (path_prefixes path) fs fs1"
    using dirs_grow_mkdir_prefixes [of path fs 0] by (cases "mkdir_prefixes path 0 fs") simp
  obtain r2 fs2 where 2: "fs_mkdir path fs1 = (r2, fs2)" "dirs_grow (path_prefixes path) fs1 fs2"
    using dirs_grow_mkdir [of path "path_prefixes path" fs1]
    by (cases "fs_mkdir path fs1") (simp add: path_prefixes_def)
  show ?thesis
    using 1 2 dirs_grow_trans [OF 1(2) 2(2)]
    by (auto simp: create_directories_recursively_def split: option.splits)
qed

text \<open>
  Without faults, and with no regular file in the way, every prefix becomes a
  directory, because the loop makes a parent before its children.
\<close>

lemma find_char_from_first:
  assumes "find_char_from c s pos = Some k" "pos \<le> j" "j < k"
  shows "s ! j \<noteq> c"
proof -
  obtain i where i: "find_char c (drop pos s) = Some i" "k = pos + i"
    using assms(1) by (auto simp: find_char_from_def)
  have k: "k < length s" using find_char_from_Some [OF assms(1)] by simp
  have "drop pos s ! (j - pos) = s ! j" using assms k by simp
  moreover have "drop pos s ! (j - pos) \<in> set (take i (drop pos s))"
    using assms i k by (auto simp: in_set_conv_nth intro!: exI [of _ "j - pos"])
  ultimately show ?thesis using find_char_Some [OF i(1)] by auto
qed

lemma dirname_take:
  assumes "k \<le> length path"
  shows "dirname (take k path) = []
    \<or> (\<exists>j < k. path ! j = CHR ''/'' \<and> dirname (take k path) = take j path)"
proof (cases "rfind_char CHR ''/'' (take k path)")
  case None
  then show ?thesis by (simp add: dirname_def)
next
  case (Some j)
  then obtain i where i: "find_char CHR ''/'' (rev (take k path)) = Some i"
      "j = length (take k path) - 1 - i"
    by (auto simp: rfind_char_def)
  from find_char_Some [OF i(1)] have "i < length (take k path)"
      "rev (take k path) ! i = CHR ''/''" by auto
  then have "j < k" "path ! j = CHR ''/''" using i(2) assms by (auto simp: rev_nth)
  then show ?thesis using Some by (auto simp: dirname_def min_def)
qed

definition no_file_at :: "string set \<Rightarrow> filesystem \<Rightarrow> bool" where
  "no_file_at S fs \<longleftrightarrow> (\<forall>p \<in> S. file_content fs p = None)"

lemma no_file_at_grow: "dirs_grow S fs fs' \<Longrightarrow> no_file_at T fs' \<longleftrightarrow> no_file_at T fs"
  by (simp add: dirs_grow_def no_file_at_def file_content_def)

lemma fs_mkdir_parent_exists:
  assumes "fs_fault fs p = None" "p \<noteq> []" "dir_exists fs (dirname p)" "file_content fs p = None"
  shows "fst (fs_mkdir p fs) \<in> {None, Some EEXIST} \<and> dir_exists (snd (fs_mkdir p fs)) p"
  using assms by (auto simp: fs_mkdir_def dir_exists_def)

lemma mkdir_prefixes_creates:
  assumes "fs_fault fs = (\<lambda>_. None)" "no_file_at (path_prefixes path) fs"
    "\<forall>k < pos. k < length path \<longrightarrow> path ! k = CHR ''/'' \<longrightarrow> dir_exists fs (take k path)"
  shows "fst (mkdir_prefixes path pos fs) = None \<and>
    (\<forall>k < length path. path ! k = CHR ''/'' \<longrightarrow>
       dir_exists (snd (mkdir_prefixes path pos fs)) (take k path))"
  using assms
proof (induction path pos fs rule: mkdir_prefixes.induct)
  case (1 path pos fs)
  show ?case
  proof (cases "find_char_from CHR ''/'' path pos")
    case None
    then have no: "CHR ''/'' \<notin> set (drop pos path)"
      by (simp add: find_char_from_def find_char_None)
    have "k < pos" if "k < length path" "path ! k = CHR ''/''" for k
    proof (rule ccontr)
      assume "\<not> k < pos"
      then have "drop pos path ! (k - pos) = CHR ''/''" "k - pos < length (drop pos path)"
        using that by auto
      then show False using no by (metis nth_mem)
    qed
    then show ?thesis using None "1.prems"(3) by (subst (1 2) mkdir_prefixes.simps) simp
  next
    case (Some k)
    note k = find_char_from_Some [OF Some]
    have "dir_exists fs (dirname (take k path))"
      using dirname_take [of k path] k "1.prems"(3) find_char_from_first [OF Some]
      by (metis dir_exists_def linorder_not_le order.strict_implies_order order.strict_trans)
    moreover have "take k path \<in> path_prefixes path" using k by (auto simp: path_prefixes_def)
    ultimately have made: "take k path \<noteq> [] \<Longrightarrow>
        fst (fs_mkdir (take k path) fs) \<in> {None, Some EEXIST} \<and>
        dir_exists (snd (fs_mkdir (take k path) fs)) (take k path)"
      using fs_mkdir_parent_exists "1.prems"(1,2) by (simp add: no_file_at_def)
    have grow: "dirs_grow (path_prefixes path) fs (snd (fs_mkdir (take k path) fs))"
      by (rule dirs_grow_mkdir) fact
    define fs' where "fs' = (if take k path = [] then fs else snd (fs_mkdir (take k path) fs))"
    have grow': "dirs_grow (path_prefixes path) fs fs'"
      using grow by (simp add: fs'_def)
    have step: "mkdir_prefixes path pos fs = mkdir_prefixes path (k + 1) fs'"
      using Some made
      by (subst mkdir_prefixes.simps)
        (auto simp: fs'_def Let_def split: prod.splits option.splits)
    have pre: "\<forall>j < k + 1. j < length path \<longrightarrow> path ! j = CHR ''/'' \<longrightarrow> dir_exists fs' (take j path)"
    proof (intro allI impI)
      fix j assume j: "j < k + 1" "j < length path" "path ! j = CHR ''/''"
      then have "j < pos \<or> j = k"
        using find_char_from_first [OF Some, of j] by (cases "j < pos"; cases "j = k") auto
      then show "dir_exists fs' (take j path)"
      proof
        assume "j < pos"
        then show ?thesis using j(2,3) "1.prems"(3) dir_exists_grow [OF grow'] by blast
      next
        assume "j = k"
        then show ?thesis using made by (cases "take k path = []") (auto simp: fs'_def dir_exists_def)
      qed
    qed
    have env: "fs_fault fs' = (\<lambda>_. None)" "no_file_at (path_prefixes path) fs'"
      using grow "1.prems"(1,2) no_file_at_grow [OF grow] by (auto simp: fs'_def dirs_grow_def)
    show ?thesis
    proof (cases "take k path = []")
      case True
      then show ?thesis using "1.IH"(1) [OF Some refl True] env pre step by (simp add: fs'_def)
    next
      case False
      obtain r where r: "fs_mkdir (take k path) fs = (r, fs')" "r = None \<or> r = Some EEXIST"
        using made False by (cases "fs_mkdir (take k path) fs") (auto simp: fs'_def)
      then show ?thesis
        using "1.IH"(2,3) [OF Some refl False] env pre step by (cases r) auto
    qed
  qed
qed

lemma create_directories_succeeds:
  assumes "fs_fault fs = (\<lambda>_. None)" "no_file_at (path_prefixes path) fs" "path \<noteq> []"
  shows "fst (create_directories_recursively path fs) = None
    \<and> dir_exists (snd (create_directories_recursively path fs)) path"
proof -
  obtain fs1 where fs1: "mkdir_prefixes path 0 fs = (None, fs1)"
    "\<forall>k < length path. path ! k = CHR ''/'' \<longrightarrow> dir_exists fs1 (take k path)"
    using mkdir_prefixes_creates [OF assms(1,2), of 0] by (cases "mkdir_prefixes path 0 fs") auto
  have grow: "dirs_grow (path_prefixes path) fs fs1"
    using dirs_grow_mkdir_prefixes [of path fs 0] fs1(1) by simp
  have "dir_exists fs1 (dirname path)"
    using dirname_take [of "length path" path] fs1(2) by (auto simp: dir_exists_def)
  moreover have "file_content fs1 path = None" "fs_fault fs1 path = None"
    using grow assms(1,2) by (auto simp: dirs_grow_def no_file_at_def path_prefixes_def file_content_def)
  ultimately have "fst (fs_mkdir path fs1) \<in> {None, Some EEXIST} \<and> dir_exists (snd (fs_mkdir path fs1)) path"
    using fs_mkdir_parent_exists assms(3) by blast
  then show ?thesis
    using fs1(1) by (auto simp: create_directories_recursively_def split: prod.splits option.splits)
qed

subsection \<open>Chunk files and directories stay apart\<close>

text \<open>
  Every regular file of the store ends in \<open>.cfile\<close> and no directory does. The
  invariant rests on a root path none of whose prefixes ends so.
\<close>

definition ends_cfile :: "string \<Rightarrow> bool" where
  "ends_cfile p \<longleftrightarrow> 6 \<le> length p \<and> drop (length p - 6) p = ''.cfile''"

definition fs_tidy :: "filesystem \<Rightarrow> bool" where
  "fs_tidy fs \<longleftrightarrow> list_all ends_cfile (map fst (fs_files fs)) \<and> \<not> list_ex ends_cfile (fs_dirs fs)"

definition config_tidy :: "DataNodeConfig \<Rightarrow> bool" where
  "config_tidy config \<longleftrightarrow>
     list_all (\<lambda>k. \<not> ends_cfile (take k (base_path config))) [0..<Suc (length (base_path config))]"

lemma ends_cfile_append [simp]: "ends_cfile (p @ ''.cfile'')"
  by (simp add: ends_cfile_def)

lemma ends_cfile_last: "ends_cfile p \<Longrightarrow> p \<noteq> [] \<and> last p = CHR ''e''"
proof -
  assume a: "ends_cfile p"
  then have "p = take (length p - 6) p @ ''.cfile''"
    by (metis append_take_drop_id ends_cfile_def)
  then show ?thesis by (metis append_is_Nil_conv last_appendR last.simps list.distinct(1))
qed

lemma chunk_file_ends_cfile [simp]: "ends_cfile (chunk_file config n)"
  using ends_cfile_append [of "chunk_dir config n @ ''/'' @ digits n"] by (simp add: chunk_file_def)

lemma chunk_dir_prefix_not_cfile:
  assumes "config_tidy config" "k \<le> length (chunk_dir config n)"
  shows "\<not> ends_cfile (take k (chunk_dir config n))"
proof (cases "k \<le> length (base_path config)")
  case True
  then show ?thesis using assms(1) by (auto simp: config_tidy_def chunk_dir_def list_all_iff)
next
  case False
  define rest where "rest = ''/'' @ digits (n div 1000000) @ ''/'' @ digits (n div 1000 mod 1000)"
  define j where "j = k - length (base_path config)"
  have take: "take k (chunk_dir config n) = base_path config @ take j rest"
    using False by (simp add: chunk_dir_def rest_def j_def)
  have "j \<noteq> 0" "rest \<noteq> []" using False by (auto simp: j_def rest_def)
  then have ne: "take j rest \<noteq> []" by simp
  have "CHR ''e'' \<notin> set rest"
    using digits_all_digit is_digit_facts(6) by (auto simp: rest_def)
  then have "last (take j rest) \<noteq> CHR ''e''"
    using ne by (metis in_set_takeD last_in_set)
  then show ?thesis
    using ends_cfile_last [of "base_path config @ take j rest"] ne take by auto
qed

lemma path_prefixes_chunk_dir:
  "config_tidy config \<Longrightarrow> p \<in> path_prefixes (chunk_dir config n) \<Longrightarrow> \<not> ends_cfile p"
  using chunk_dir_prefix_not_cfile [of config "length (chunk_dir config n)" n]
    chunk_dir_prefix_not_cfile [of config _ n]
  by (auto simp: path_prefixes_def)

lemma fs_tidy_create:
  assumes "fs_tidy fs" "config_tidy config"
  shows "fs_tidy (snd (create_directories_recursively (chunk_dir config n) fs))"
  using assms dirs_grow_create [of "chunk_dir config n" fs] path_prefixes_chunk_dir [of config]
  by (fastforce simp: fs_tidy_def dirs_grow_def list_ex_iff)

lemma fs_tidy_no_file_at:
  assumes "fs_tidy fs" "config_tidy config"
  shows "no_file_at (path_prefixes (chunk_dir config n)) fs"
proof -
  have "file_content fs p = None" if "p \<in> path_prefixes (chunk_dir config n)" for p
  proof -
    have "p \<notin> fst ` set (fs_files fs)"
      using assms(1) path_prefixes_chunk_dir [OF assms(2) that] by (auto simp: fs_tidy_def list_all_iff)
    then show ?thesis by (simp add: file_content_def map_of_eq_None_iff)
  qed
  then show ?thesis by (simp add: no_file_at_def)
qed

text \<open>A healthy disk: the open of a chunk file for writing succeeds.\<close>

definition fs_healthy :: "filesystem \<Rightarrow> bool" where
  "fs_healthy fs \<longleftrightarrow> fs_fault fs = (\<lambda>_. None)"

lemma chunk_dir_nonempty [simp]: "chunk_dir config n \<noteq> []"
  by (simp add: chunk_dir_def)

lemma ofstream_open_healthy:
  fixes n :: nat
  assumes "fs_tidy fs" "fs_healthy fs" "config_tidy config"
  defines "fs1 \<equiv> snd (create_directories_recursively (chunk_dir config n) fs)"
  shows "ofstream_open (chunk_file config n) fs1
    = Some (fs1\<lparr>fs_files := AList.update (chunk_file config n) [] (fs_files fs1)\<rparr>)"
proof -
  have "dir_exists fs1 (chunk_dir config n)"
    using create_directories_succeeds [of fs "chunk_dir config n"] assms fs_tidy_no_file_at
    by (simp add: fs_healthy_def)
  moreover have "chunk_file config n \<notin> set (fs_dirs fs1)"
    using fs_tidy_create [OF assms(1,3), of n] by (auto simp: fs1_def fs_tidy_def list_ex_iff)
  moreover have "fs_fault fs1 = (\<lambda>_. None)"
    using dirs_grow_create [of "chunk_dir config n" fs] assms(2)
    by (simp add: fs1_def dirs_grow_def fs_healthy_def)
  moreover have "chunk_file config n \<noteq> []" by (simp add: chunk_file_def)
  ultimately show ?thesis by (simp add: ofstream_open_def)
qed

text \<open>A fresh disk, for the examples.\<close>

definition blank_fs :: filesystem where
  "blank_fs = \<lparr>fs_files = [], fs_dirs = [], fs_fault = (\<lambda>_. None), fs_quota = (\<lambda>_. None)\<rparr>"

section \<open>Properties\<close>

text \<open>C27. For every identifier the coordinator makes, \<open>get_chunk_path\<close> returns a path under the
  node's base path (no traversal out of it) exactly while the counter fits an \<open>int\<close>; from
  \<open>2^31\<close> on \<open>std::stoi\<close> throws \<open>std::out_of_range\<close> out of it and no directory is made.\<close>

theorem chunk_path_of_counter:
  "fst (get_chunk_path (chunk_name n) config fs) =
     (if n < 2 ^ 31
      then Inr (base_path config @ ''/'' @ to_string (int (n div 1000000)) @ ''/''
                @ to_string (int (n div 1000 mod 1000)) @ ''/'' @ to_string (int n) @ ''.cfile'')
      else Inl Out_of_range)
   \<and> fs_files (snd (get_chunk_path (chunk_name n) config fs)) = fs_files fs
   \<and> (n \<ge> 2 ^ 31 \<longrightarrow> snd (get_chunk_path (chunk_name n) config fs) = fs)"
  using dirs_grow_create [of "chunk_dir config n" fs]
  by (auto simp: get_chunk_path_chunk_name chunk_file_def chunk_dir_def dirs_grow_def)

theorem chunk_path_of_counter_witness:
  "fst (get_chunk_path (chunk_name 12345678) default_DataNodeConfig blank_fs)
     = Inr ''/tmp/dfs_chunks/12/345/12345678.cfile''
   \<and> snd (get_chunk_path (chunk_name 2147483648) default_DataNodeConfig blank_fs)
     = blank_fs"
proof -
  have d: "digits 12 = ''12''" "digits 345 = ''345''" "digits 12345678 = ''12345678''"
    by (simp_all add: digits.simps digit_chars)
  show ?thesis
    using chunk_path_of_counter [of 12345678 default_DataNodeConfig
        blank_fs]
      chunk_path_of_counter [of 2147483648 default_DataNodeConfig
        blank_fs]
    by (simp add: base_path_def default_DataNodeConfig_def to_string_nonneg d)
qed

lemma chunk_dir_eq_iff: "chunk_dir config m = chunk_dir config n \<longleftrightarrow> m div 1000 = n div 1000"
proof -
  have upper: "k div 1000000 = k div 1000 div 1000" for k :: nat
    by (simp add: div_mult2_eq [symmetric])
  show ?thesis
  proof
    assume "chunk_dir config m = chunk_dir config n"
    then have "digits (m div 1000000) = digits (n div 1000000) \<and>
        digits (m div 1000 mod 1000) = digits (n div 1000 mod 1000)"
      using last_separator_unique [of "digits (m div 1000000)" "CHR ''/''" "digits (m div 1000 mod 1000)"
          "digits (n div 1000000)" "digits (n div 1000 mod 1000)"] not_in_digits(1)
      by (simp add: chunk_dir_def)
    then have "m div 1000 div 1000 = n div 1000 div 1000" "m div 1000 mod 1000 = n div 1000 mod 1000"
      using upper by auto
    then show "m div 1000 = n div 1000" by (metis div_mult_mod_eq)
  next
    assume "m div 1000 = n div 1000"
    then show "chunk_dir config m = chunk_dir config n" by (simp add: chunk_dir_def upper)
  qed
qed

text \<open>C28. Two chunks never share a file: if \<open>get_chunk_path\<close> returns one path for two identifiers of
  the coordinator, on nodes with whatever configurations and file systems, the identifiers are
  equal. With one configuration the paths it returns lie in one directory exactly when the numbers
  of the chunks agree up to the last three digits, so that a directory holds at most a thousand
  chunks.\<close>

theorem chunk_paths_distinct:
  assumes "fst (get_chunk_path (chunk_name m) config fs) = Inr p"
    and "fst (get_chunk_path (chunk_name n) config' fs') = Inr q"
  shows "(p = q \<longrightarrow> m = n) \<and> (config = config' \<longrightarrow> (dirname p = dirname q \<longleftrightarrow> m div 1000 = n div 1000))"
proof -
  have pq: "p = chunk_file config m" "q = chunk_file config' n"
    using assms by (auto simp: get_chunk_path_chunk_name split: if_splits)
  have "m = n" if "p = q" using chunk_file_inject [of config m config' n] that pq by simp
  then show ?thesis by (auto simp: pq chunk_dir_eq_iff)
qed

theorem chunk_paths_distinct_witness:
  "\<exists>p q r. fst (get_chunk_path (chunk_name 107) default_DataNodeConfig blank_fs) = Inr p \<and>
     fst (get_chunk_path (chunk_name 208) default_DataNodeConfig blank_fs) = Inr q \<and>
     fst (get_chunk_path (chunk_name 1107) default_DataNodeConfig blank_fs) = Inr r \<and>
     p \<noteq> q \<and> dirname p = dirname q \<and> dirname p \<noteq> dirname r"
proof -
  have ok: "fst (get_chunk_path (chunk_name n) default_DataNodeConfig blank_fs)
      = Inr (chunk_file default_DataNodeConfig n)" if "n < 2 ^ 31" for n
    using that by (simp add: get_chunk_path_chunk_name)
  note paths = chunk_paths_distinct [OF ok [of 107] ok [of 208]] chunk_paths_distinct [OF ok [of 107] ok [of 1107]]
  show ?thesis by (intro exI conjI, (rule ok, simp)+) (use paths in auto)
qed

end
