(* ===== verification/Datanode_Service.thy ===== *)
theory Datanode_Service
  imports Datanode_Storage
begin

text \<open>
  The handlers of the data node, \<open>datanode/src/datanode_service_impl.cpp\<close>:
  \<open>PutChunk\<close>, \<open>GetChunk\<close> and \<open>DeleteChunk\<close> over the file system of
  \<open>Datanode_Storage\<close>. A streaming request is the list of the messages \<open>Read\<close>
  delivers before it returns false; a streaming response is the list of the
  messages \<open>Write\<close> accepted, where \<open>wr i\<close> is the result of the \<open>i\<close>-th \<open>Write\<close>.
  An exception that leaves a handler is \<open>Inl\<close>.
\<close>

section \<open>Messages of \<open>datanode.proto\<close>\<close>

record PutChunkRequest =
  pcr_chunk_id :: string
  pcr_data :: bytes
  pcr_replica_index :: int32
  pcr_checksum :: string

record PutChunkResponse =
  pcs_success :: bool
  pcs_error_message :: string
  pcs_assigned_replica_index :: int32

record GetChunkRequest =
  gcr_chunk_id :: string
  gcr_replica_index :: int32

record GetChunkResponse =
  gcs_data :: bytes
  gcs_replica_index :: int32
  gcs_checksum :: string

record DeleteChunkRequest =
  dcr_chunk_id :: string

record DeleteChunkResponse =
  dcs_success :: bool
  dcs_error_message :: string

definition empty_PutChunkRequest :: PutChunkRequest where
  "empty_PutChunkRequest =
    \<lparr>pcr_chunk_id = [], pcr_data = [], pcr_replica_index = 0, pcr_checksum = []\<rparr>"

definition empty_PutChunkResponse :: PutChunkResponse where
  "empty_PutChunkResponse =
    \<lparr>pcs_success = False, pcs_error_message = [], pcs_assigned_replica_index = 0\<rparr>"

definition empty_GetChunkResponse :: GetChunkResponse where
  "empty_GetChunkResponse = \<lparr>gcs_data = [], gcs_replica_index = 0, gcs_checksum = []\<rparr>"

definition empty_DeleteChunkResponse :: DeleteChunkResponse where
  "empty_DeleteChunkResponse = \<lparr>dcs_success = False, dcs_error_message = []\<rparr>"

section \<open>PutChunk\<close>

text \<open>
  The \<open>while (reader->Read(&req))\<close> loop. The stream argument is \<open>None\<close> while
  \<open>first\<close> holds, afterwards the path of the open \<open>ofstream\<close> and whether it is
  good; the code never looks at the latter. \<open>Inr False\<close> is the early return of a
  failed open.
\<close>

fun put_chunk_loop ::
  "DataNodeConfig \<Rightarrow> (string \<times> bool) option \<Rightarrow> PutChunkRequest list \<Rightarrow> filesystem
    \<Rightarrow> (cpp_exception + bool) \<times> filesystem" where
  "put_chunk_loop config stream [] fs = (Inr True, fs)"
| "put_chunk_loop config None (req # reqs) fs =
    (case get_chunk_path (pcr_chunk_id req) config fs of
       (Inl ex, fs1) \<Rightarrow> (Inl ex, fs1)
     | (Inr file_path, fs1) \<Rightarrow>
         (case ofstream_open file_path fs1 of
            None \<Rightarrow> (Inr False, fs1)
          | Some fs2 \<Rightarrow>
              (let (good, fs3) = ofstream_write file_path True (pcr_data req) fs2
               in put_chunk_loop config (Some (file_path, good)) reqs fs3)))"
| "put_chunk_loop config (Some (file_path, good)) (req # reqs) fs =
    (let (good', fs') = ofstream_write file_path good (pcr_data req) fs
     in put_chunk_loop config (Some (file_path, good')) reqs fs')"

definition PutChunk_handler ::
  "DataNodeConfig \<Rightarrow> PutChunkRequest list \<Rightarrow> filesystem
    \<Rightarrow> (cpp_exception + Status \<times> PutChunkResponse) \<times> filesystem" where
  "PutChunk_handler config reqs fs =
    (case put_chunk_loop config None reqs fs of
       (Inl ex, fs') \<Rightarrow> (Inl ex, fs')
     | (Inr False, fs') \<Rightarrow>
         (Inr (Status INTERNAL ''Failed to open file'', empty_PutChunkResponse), fs')
     | (Inr True, fs') \<Rightarrow>
         (Inr (status_OK, empty_PutChunkResponse\<lparr>pcs_success := True\<rparr>), fs'))"

section \<open>GetChunk\<close>

text \<open>
  The read loop and the last short block. \<open>i\<close> counts the calls of \<open>Write\<close>; the
  result of the last one is not checked.
\<close>

function get_chunk_loop ::
  "(nat \<Rightarrow> bool) \<Rightarrow> nat \<Rightarrow> bytes \<Rightarrow> Status \<times> GetChunkResponse list" where
  "get_chunk_loop wr i rest =
    (if buffer_size \<le> length rest
     then (if \<not> wr i then (Status INTERNAL ''Write failed'', [])
           else (let (st, resps) = get_chunk_loop wr (Suc i) (drop buffer_size rest)
                 in (st, empty_GetChunkResponse\<lparr>gcs_data := take buffer_size rest\<rparr> # resps)))
     else (status_OK,
           if rest \<noteq> [] \<and> wr i then [empty_GetChunkResponse\<lparr>gcs_data := rest\<rparr>] else []))"
  by pat_completeness auto
termination
  by (relation "measure (\<lambda>(wr, i, rest). length rest)") (auto simp: buffer_size_def)

declare get_chunk_loop.simps [simp del]

definition GetChunk_handler ::
  "DataNodeConfig \<Rightarrow> GetChunkRequest \<Rightarrow> (nat \<Rightarrow> bool) \<Rightarrow> filesystem
    \<Rightarrow> (cpp_exception + Status \<times> GetChunkResponse list) \<times> filesystem" where
  "GetChunk_handler config request wr fs =
    (case get_chunk_path (gcr_chunk_id request) config fs of
       (Inl ex, fs1) \<Rightarrow> (Inl ex, fs1)
     | (Inr file_path, fs1) \<Rightarrow>
         (case ifstream_open file_path fs1 of
            None \<Rightarrow> (Inr (Status NOT_FOUND ''Chunk not found'', []), fs1)
          | Some content \<Rightarrow> (Inr (get_chunk_loop wr 0 content), fs1)))"

section \<open>DeleteChunk\<close>

text \<open>\<open>strerror\<close> is the C library's.\<close>

definition DeleteChunk_handler ::
  "(errno \<Rightarrow> string) \<Rightarrow> DataNodeConfig \<Rightarrow> DeleteChunkRequest \<Rightarrow> filesystem
    \<Rightarrow> (cpp_exception + Status \<times> DeleteChunkResponse) \<times> filesystem" where
  "DeleteChunk_handler strerror config request fs =
    (case get_chunk_path (dcr_chunk_id request) config fs of
       (Inl ex, fs1) \<Rightarrow> (Inl ex, fs1)
     | (Inr file_path, fs1) \<Rightarrow>
         (case fs_remove file_path fs1 of
            (None, fs2) \<Rightarrow>
              (Inr (status_OK, empty_DeleteChunkResponse\<lparr>dcs_success := True, dcs_error_message := []\<rparr>), fs2)
          | (Some e, fs2) \<Rightarrow>
              if e = ENOENT
              then (Inr (status_OK,
                         empty_DeleteChunkResponse\<lparr>dcs_success := True, dcs_error_message := []\<rparr>), fs2)
              else (Inr (status_OK,
                         empty_DeleteChunkResponse\<lparr>dcs_success := False, dcs_error_message := strerror e\<rparr>), fs2)))"

section \<open>What the handlers do to the disk\<close>

text \<open>The file \<open>p\<close> now holds \<open>c\<close>; everything else is as before.\<close>

definition fs_wrote :: "string \<Rightarrow> bytes \<Rightarrow> filesystem \<Rightarrow> filesystem \<Rightarrow> bool" where
  "fs_wrote p c fs fs' \<longleftrightarrow>
     map_of (fs_files fs') = (map_of (fs_files fs))(p \<mapsto> c) \<and> fs_dirs fs' = fs_dirs fs \<and>
     fs_fault fs' = fs_fault fs \<and> fs_quota fs' = fs_quota fs"

definition quota_take :: "filesystem \<Rightarrow> string \<Rightarrow> bytes \<Rightarrow> bytes" where
  "quota_take fs p c = (case fs_quota fs p of None \<Rightarrow> c | Some q \<Rightarrow> take q c)"

lemma quota_take_Nil [simp]: "quota_take fs p [] = []"
  by (simp add: quota_take_def split: option.splits)

lemma fs_wrote_twice: "fs_wrote p c fs fs' \<Longrightarrow> fs_wrote p d fs' fs'' \<Longrightarrow> fs_wrote p d fs fs''"
  by (auto simp: fs_wrote_def)

lemma fs_wrote_keys: "fs_wrote p c fs fs' \<Longrightarrow> fst ` set (fs_files fs') = insert p (fst ` set (fs_files fs))"
  by (simp add: fs_wrote_def flip: dom_map_of_conv_image_fst)

lemma fs_wrote_content: "fs_wrote p c fs fs' \<Longrightarrow> file_content fs' = (file_content fs)(p \<mapsto> c)"
  by (auto simp: fs_wrote_def file_content_def fun_eq_iff)

lemma fs_wrote_tidy: "fs_wrote p c fs fs' \<Longrightarrow> fs_tidy fs \<Longrightarrow> ends_cfile p \<Longrightarrow> fs_tidy fs'"
  using fs_wrote_keys [of p c fs fs'] by (auto simp: fs_tidy_def fs_wrote_def list_all_iff)

lemma ofstream_write_good:
  assumes "file_content fs p = Some c" "quota_take fs p c = c" "ofstream_write p True d fs = (good, fs')"
  shows "fs_wrote p (quota_take fs p (c @ d)) fs fs'"
    and "good \<Longrightarrow> quota_take fs p (c @ d) = c @ d"
    and "\<not> good \<Longrightarrow> quota_take fs p (c @ d @ e) = quota_take fs p (c @ d)"
  using assms by (auto simp: ofstream_write_def fs_wrote_def quota_take_def Let_def file_content_def
      split: option.splits)

lemma put_chunk_loop_bad: "put_chunk_loop config (Some (p, False)) reqs fs = (Inr True, fs)"
  by (induction reqs arbitrary: fs) (simp_all add: ofstream_write_def)

lemma put_chunk_loop_open:
  assumes "file_content fs p = Some c" "quota_take fs p c = c"
  shows "\<exists>fs'. put_chunk_loop config (Some (p, True)) reqs fs = (Inr True, fs')
    \<and> fs_wrote p (quota_take fs p (c @ concat (map pcr_data reqs))) fs fs'"
  using assms
proof (induction reqs arbitrary: fs c)
  case Nil
  then show ?case by (auto simp: fs_wrote_def file_content_def fun_eq_iff)
next
  case (Cons req reqs)
  obtain good fs1 where w: "ofstream_write p True (pcr_data req) fs = (good, fs1)"
    by (cases "ofstream_write p True (pcr_data req) fs")
  note W = ofstream_write_good [OF Cons.prems w]
  have q: "quota_take fs1 p x = quota_take fs p x" for x
    using W(1) by (simp add: fs_wrote_def quota_take_def)
  show ?case
  proof (cases good)
    case True
    have "file_content fs1 p = Some (c @ pcr_data req)"
      using W(1) W(2) [OF True] by (simp add: fs_wrote_def file_content_def)
    then obtain fs' where "put_chunk_loop config (Some (p, True)) reqs fs1 = (Inr True, fs')"
        "fs_wrote p (quota_take fs1 p ((c @ pcr_data req) @ concat (map pcr_data reqs))) fs1 fs'"
      using Cons.IH [of fs1 "c @ pcr_data req"] q W(2) [OF True] by auto
    then show ?thesis using w True q fs_wrote_twice [OF W(1)] by auto
  next
    case False
    then show ?thesis
      using w W(1) W(3) [OF False] put_chunk_loop_bad [of config p reqs fs1] by simp
  qed
qed

lemma ofstream_open_wrote:
  "ofstream_open p fs = Some fs' \<Longrightarrow> fs_wrote p [] fs fs'"
  by (auto simp: ofstream_open_def fs_wrote_def split: if_splits)

text \<open>\<open>PutChunk\<close> of a stream of messages for one chunk, on every branch.\<close>

lemma PutChunk_handler_chunk:
  fixes config :: DataNodeConfig and fs :: filesystem
  assumes "pcr_chunk_id req = chunk_name n" "n < 2 ^ 31"
  defines "fs1 \<equiv> snd (create_directories_recursively (chunk_dir config n) fs)"
  shows "case ofstream_open (chunk_file config n) fs1 of
      None \<Rightarrow> PutChunk_handler config (req # reqs) fs
        = (Inr (Status INTERNAL ''Failed to open file'', empty_PutChunkResponse), fs1)
    | Some fs2 \<Rightarrow> \<exists>fs'. PutChunk_handler config (req # reqs) fs
        = (Inr (status_OK, empty_PutChunkResponse\<lparr>pcs_success := True\<rparr>), fs') \<and>
          fs_wrote (chunk_file config n)
            (quota_take fs1 (chunk_file config n) (concat (map pcr_data (req # reqs)))) fs1 fs'"
proof (cases "ofstream_open (chunk_file config n) fs1")
  case None
  then show ?thesis
    using assms by (simp add: PutChunk_handler_def get_chunk_path_chunk_name fs1_def)
next
  case (Some fs2)
  note o = ofstream_open_wrote [OF Some]
  have c: "file_content fs2 (chunk_file config n) = Some []"
    using o by (simp add: fs_wrote_def file_content_def)
  obtain fs' where
    "put_chunk_loop config (Some (chunk_file config n, True)) (req # reqs) fs2 = (Inr True, fs')"
    "fs_wrote (chunk_file config n)
       (quota_take fs2 (chunk_file config n) (concat (map pcr_data (req # reqs)))) fs2 fs'"
    using put_chunk_loop_open [OF c, of config "req # reqs"] by auto
  moreover have "quota_take fs2 p x = quota_take fs1 p x" for p x
    using o by (simp add: fs_wrote_def quota_take_def)
  moreover have "put_chunk_loop config None (req # reqs) fs
      = put_chunk_loop config (Some (chunk_file config n, True)) (req # reqs) fs2"
    using assms(1,2) Some by (simp add: get_chunk_path_chunk_name fs1_def split: prod.splits)
  ultimately show ?thesis
    using Some fs_wrote_twice [OF o] by (auto simp: PutChunk_handler_def)
qed

subsection \<open>Streaming a chunk back\<close>

lemma get_chunk_loop_all:
  assumes "\<forall>i. wr i"
  shows "fst (get_chunk_loop wr i rest) = status_OK
    \<and> concat (map gcs_data (snd (get_chunk_loop wr i rest))) = rest
    \<and> (\<forall>m \<in> set (snd (get_chunk_loop wr i rest)).
          gcs_data m \<noteq> [] \<and> length (gcs_data m) \<le> buffer_size)"
  using assms
proof (induction wr i rest rule: get_chunk_loop.induct)
  case (1 wr i rest)
  show ?case
  proof (cases "buffer_size \<le> length rest")
    case True
    have w: "wr i" using "1.prems" by simp
    obtain st resps where rec: "get_chunk_loop wr (Suc i) (drop buffer_size rest) = (st, resps)"
      by (cases "get_chunk_loop wr (Suc i) (drop buffer_size rest)")
    have "get_chunk_loop wr i rest
        = (st, empty_GetChunkResponse\<lparr>gcs_data := take buffer_size rest\<rparr> # resps)"
      using True w rec by (subst get_chunk_loop.simps) simp
    moreover have "take buffer_size rest \<noteq> []" using True by (auto simp: buffer_size_def)
    ultimately show ?thesis
      using "1.IH" [OF True _ "1.prems"] w rec by (auto simp: empty_GetChunkResponse_def)
  next
    case False
    then show ?thesis
      using "1.prems" by (subst (1 2 3) get_chunk_loop.simps) (simp add: empty_GetChunkResponse_def)
  qed
qed

lemma GetChunk_handler_chunk:
  assumes "gcr_chunk_id req = chunk_name n" "n < 2 ^ 31"
  shows "GetChunk_handler config req wr fs =
    (let fs1 = snd (create_directories_recursively (chunk_dir config n) fs)
     in (case ifstream_open (chunk_file config n) fs1 of
           None \<Rightarrow> Inr (Status NOT_FOUND ''Chunk not found'', [])
         | Some content \<Rightarrow> Inr (get_chunk_loop wr 0 content), fs1))"
  using assms by (auto simp: GetChunk_handler_def get_chunk_path_chunk_name Let_def split: option.splits)

subsection \<open>Summary of each handler, for the cluster\<close>

text \<open>
  \<open>fs_kept\<close>: the disk is as before but for directories. \<open>fs_stable\<close>: faults,
  quotas and the separation of files and directories are kept.
\<close>

definition fs_stable :: "filesystem \<Rightarrow> filesystem \<Rightarrow> bool" where
  "fs_stable fs fs' \<longleftrightarrow>
     fs_fault fs' = fs_fault fs \<and> fs_quota fs' = fs_quota fs \<and> (fs_tidy fs \<longrightarrow> fs_tidy fs')"

definition fs_kept :: "filesystem \<Rightarrow> filesystem \<Rightarrow> bool" where
  "fs_kept fs fs' \<longleftrightarrow> file_content fs' = file_content fs"

lemma fs_stable_refl [simp]: "fs_stable fs fs"
  by (simp add: fs_stable_def)

lemma fs_stable_trans: "fs_stable fs fs' \<Longrightarrow> fs_stable fs' fs'' \<Longrightarrow> fs_stable fs fs''"
  by (simp add: fs_stable_def)

lemma fs_stable_create:
  "config_tidy config \<Longrightarrow> fs_stable fs (snd (create_directories_recursively (chunk_dir config n) fs))"
  using dirs_grow_create [of "chunk_dir config n" fs] fs_tidy_create
  by (auto simp: fs_stable_def dirs_grow_def)

lemma fs_kept_create: "fs_kept fs (snd (create_directories_recursively (chunk_dir config n) fs))"
  using dirs_grow_create [of "chunk_dir config n" fs]
  by (auto simp: fs_kept_def dirs_grow_def file_content_def fun_eq_iff)

lemma fs_wrote_stable: "fs_wrote p c fs fs' \<Longrightarrow> ends_cfile p \<Longrightarrow> fs_stable fs fs'"
  using fs_wrote_tidy by (auto simp: fs_stable_def fs_wrote_def)

lemma PutChunk_handler_effect:
  assumes "pcr_chunk_id req = chunk_name n" "n < 2 ^ 31" "config_tidy config"
  shows "\<exists>r fs'. PutChunk_handler config [req] fs = (Inr r, fs') \<and> fs_stable fs fs' \<and>
    (if status_ok (fst r)
     then file_content fs' = (file_content fs)
            (chunk_file config n \<mapsto> quota_take fs (chunk_file config n) (pcr_data req))
     else fs_kept fs fs') \<and>
    (fs_tidy fs \<longrightarrow> fs_healthy fs \<longrightarrow> status_ok (fst r))"
proof -
  define fs1 where "fs1 = snd (create_directories_recursively (chunk_dir config n) fs)"
  have s1: "fs_stable fs fs1" and k1: "fs_kept fs fs1"
    by (simp_all add: fs1_def fs_stable_create fs_kept_create assms)
  note P = PutChunk_handler_chunk
    [where reqs = "[]" and config = config and fs = fs, OF assms(1,2), folded fs1_def]
  show ?thesis
  proof (cases "ofstream_open (chunk_file config n) fs1")
    case None
    then have "\<not> (fs_tidy fs \<and> fs_healthy fs)"
      using ofstream_open_healthy [OF _ _ assms(3), of fs n] by (auto simp: fs1_def)
    then show ?thesis using P None s1 k1 by auto
  next
    case (Some fs2)
    then obtain fs' where H: "PutChunk_handler config [req] fs
        = (Inr (status_OK, empty_PutChunkResponse\<lparr>pcs_success := True\<rparr>), fs')"
      "fs_wrote (chunk_file config n) (quota_take fs1 (chunk_file config n) (pcr_data req)) fs1 fs'"
      using P by auto
    have "quota_take fs1 = quota_take fs"
      using s1 by (simp add: fs_stable_def quota_take_def fun_eq_iff)
    then show ?thesis
      using k1 fs_stable_trans [OF s1 fs_wrote_stable [OF H(2)]] fs_wrote_content [OF H(2)]
      by (simp add: H(1) fs_kept_def)
  qed
qed

lemma ifstream_open_chunk:
  assumes "fs_tidy fs"
  shows "ifstream_open (chunk_file config n) fs =
    (if fs_fault fs (chunk_file config n) \<noteq> None then None
     else file_content fs (chunk_file config n))"
proof -
  have "chunk_file config n \<notin> set (fs_dirs fs)"
    using assms by (auto simp: fs_tidy_def list_ex_iff)
  then show ?thesis by (auto simp: ifstream_open_def split: option.splits)
qed

lemma GetChunk_handler_effect:
  assumes "gcr_chunk_id req = chunk_name n" "n < 2 ^ 31" "config_tidy config" "fs_tidy fs"
  shows "\<exists>r fs'. GetChunk_handler config req (\<lambda>_. True) fs = (Inr r, fs') \<and> fs_stable fs fs' \<and>
    fs_kept fs fs' \<and>
    (status_ok (fst r) \<longrightarrow>
       file_content fs (chunk_file config n) = Some (concat (map gcs_data (snd r)))) \<and>
    (fs_healthy fs \<longrightarrow> file_content fs (chunk_file config n) \<noteq> None \<longrightarrow> status_ok (fst r))"
proof -
  define fs1 where "fs1 = snd (create_directories_recursively (chunk_dir config n) fs)"
  have s1: "fs_stable fs fs1" and k1: "fs_kept fs fs1"
    by (simp_all add: fs1_def fs_stable_create fs_kept_create assms)
  then have "ifstream_open (chunk_file config n) fs1 =
      (if fs_fault fs (chunk_file config n) \<noteq> None then None
       else file_content fs (chunk_file config n))"
    using ifstream_open_chunk [of fs1] assms(4) by (simp add: fs_stable_def fs_kept_def)
  then show ?thesis
    using GetChunk_handler_chunk [OF assms(1,2), of config "\<lambda>_. True" fs] s1 k1
      get_chunk_loop_all [of "\<lambda>_. True" 0 "the (file_content fs (chunk_file config n))"]
    by (cases "file_content fs (chunk_file config n)";
        cases "get_chunk_loop (\<lambda>_. True) 0 (the (file_content fs (chunk_file config n)))")
      (auto simp: fs1_def Let_def fs_healthy_def)
qed

lemma GetChunk_handler_kept:
  assumes "gcr_chunk_id req = chunk_name n" "n < 2 ^ 31" "config_tidy config"
  shows "\<exists>r fs'. GetChunk_handler config req wr fs = (Inr r, fs') \<and> fs_stable fs fs' \<and> fs_kept fs fs'"
  using GetChunk_handler_chunk [OF assms(1,2), of config wr fs] fs_stable_create [OF assms(3)]
    fs_kept_create by (auto simp: Let_def split: option.splits)

lemma fs_remove_chunk:
  assumes "fs_tidy fs"
  shows "fs_remove (chunk_file config n) fs =
    (case fs_fault fs (chunk_file config n) of
       Some e \<Rightarrow> (Some e, fs)
     | None \<Rightarrow>
         if file_content fs (chunk_file config n) \<noteq> None
         then (None, fs\<lparr>fs_files := AList.delete (chunk_file config n) (fs_files fs)\<rparr>)
         else (Some ENOENT, fs))"
proof -
  have "chunk_file config n \<notin> set (fs_dirs fs)"
    using assms by (auto simp: fs_tidy_def list_ex_iff)
  then show ?thesis by (simp add: fs_remove_def split: option.splits)
qed

lemma DeleteChunk_handler_effect:
  assumes "dcr_chunk_id req = chunk_name n" "n < 2 ^ 31" "config_tidy config" "fs_tidy fs"
  shows "\<exists>r fs'. DeleteChunk_handler strerror config req fs = (Inr (status_OK, r), fs') \<and>
    fs_stable fs fs' \<and>
    (case fs_fault fs (chunk_file config n) of
       None \<Rightarrow> file_content fs' = (file_content fs)(chunk_file config n := None) \<and> dcs_success r
     | Some e \<Rightarrow> fs_kept fs fs' \<and>
         (dcs_success r \<longleftrightarrow> e = ENOENT) \<and> (e \<noteq> ENOENT \<longrightarrow> dcs_error_message r = strerror e))"
proof -
  define fs1 where "fs1 = snd (create_directories_recursively (chunk_dir config n) fs)"
  have s1: "fs_stable fs fs1" and k1: "fs_kept fs fs1"
    by (simp_all add: fs1_def fs_stable_create fs_kept_create assms)
  have t1: "fs_tidy fs1" using s1 assms(4) by (simp add: fs_stable_def)
  have p: "get_chunk_path (dcr_chunk_id req) config fs = (Inr (chunk_file config n), fs1)"
    using assms(1,2) by (simp add: get_chunk_path_chunk_name fs1_def)
  define fs2 where "fs2 = fs1\<lparr>fs_files := AList.delete (chunk_file config n) (fs_files fs1)\<rparr>"
  have s2: "fs_stable fs fs2"
    using s1 t1 by (auto simp: fs_stable_def fs2_def fs_tidy_def list_all_iff set_alist_delete)
  have c2: "file_content fs2 = (file_content fs)(chunk_file config n := None)"
    using k1 by (simp add: fs2_def file_content_def fs_kept_def fun_eq_iff)
  have f: "fs_fault fs1 = fs_fault fs" using s1 by (simp add: fs_stable_def)
  show ?thesis
  proof (cases "fs_fault fs (chunk_file config n)")
    case None
    show ?thesis
    proof (cases "file_content fs (chunk_file config n)")
      case None
      then have "(file_content fs)(chunk_file config n := None) = file_content fs1"
        using k1 by (auto simp: fs_kept_def fun_eq_iff)
      then show ?thesis
        using None \<open>fs_fault fs (chunk_file config n) = None\<close> p s1 k1 f
        by (simp add: DeleteChunk_handler_def fs_remove_chunk [OF t1] fs_kept_def
            empty_DeleteChunkResponse_def)
    next
      case (Some c)
      then show ?thesis
        using \<open>fs_fault fs (chunk_file config n) = None\<close> p s2 c2 k1 f
        by (simp add: DeleteChunk_handler_def fs_remove_chunk [OF t1] fs_kept_def
            empty_DeleteChunkResponse_def fs2_def)
    qed
  next
    case (Some e)
    then show ?thesis
      using p s1 k1 f
      by (simp add: DeleteChunk_handler_def fs_remove_chunk [OF t1] empty_DeleteChunkResponse_def)
  qed
qed

section \<open>Properties\<close>

text \<open>C26. A data node returns what it was given: on a disk without faults or quota, \<open>PutChunk\<close> of
  any stream of messages for an identifier of the coordinator, followed by \<open>GetChunk\<close>, answers OK
  twice and streams back exactly the concatenated data, in non-empty messages of at most 4096
  bytes, and no other chunk's file changed.\<close>

theorem datanode_put_get_roundtrip:
  assumes "fs_tidy fs" "fs_healthy fs" "fs_quota fs = (\<lambda>_. None)" "config_tidy config"
    and "n < 2 ^ 31" "pcr_chunk_id req = chunk_name n" "gcr_chunk_id greq = chunk_name n"
  shows "\<exists>fs' fs'' resps.
     PutChunk_handler config (req # reqs) fs
       = (Inr (status_OK, empty_PutChunkResponse\<lparr>pcs_success := True\<rparr>), fs') \<and>
     GetChunk_handler config greq (\<lambda>_. True) fs' = (Inr (status_OK, resps), fs'') \<and>
     concat (map gcs_data resps) = concat (map pcr_data (req # reqs)) \<and>
     (\<forall>m \<in> set resps. gcs_data m \<noteq> [] \<and> length (gcs_data m) \<le> 4096) \<and>
     (\<forall>m. m \<noteq> n \<longrightarrow> file_content fs'' (chunk_file config m) = file_content fs (chunk_file config m))"
proof -
  define data where "data = concat (map pcr_data (req # reqs))"
  define fs1 where "fs1 = snd (create_directories_recursively (chunk_dir config n) fs)"
  note s1 = fs_stable_create [OF assms(4), of fs n, folded fs1_def]
  note k1 = fs_kept_create [of fs config n, folded fs1_def]
  obtain fs' where P: "PutChunk_handler config (req # reqs) fs
        = (Inr (status_OK, empty_PutChunkResponse\<lparr>pcs_success := True\<rparr>), fs')"
      "fs_wrote (chunk_file config n) data fs1 fs'"
    using PutChunk_handler_chunk [where config = config and fs = fs and reqs = reqs, OF assms(6,5)]
      ofstream_open_healthy [OF assms(1,2,4), of n] s1 assms(3)
    by (auto simp: fs1_def data_def quota_take_def fs_stable_def)
  have s2: "fs_stable fs fs'"
    using fs_stable_trans [OF s1 fs_wrote_stable [OF P(2)]] by simp
  have c2: "file_content fs' = (file_content fs)(chunk_file config n \<mapsto> data)"
    using fs_wrote_content [OF P(2)] k1 by (simp add: fs_kept_def)
  obtain st resps fs'' where G: "GetChunk_handler config greq (\<lambda>_. True) fs' = (Inr (st, resps), fs'')"
      "fs_kept fs' fs''"
    using GetChunk_handler_effect [OF assms(7,5,4), of fs'] s2 assms(1) by (auto simp: fs_stable_def)
  define fs3 where "fs3 = snd (create_directories_recursively (chunk_dir config n) fs')"
  have "ifstream_open (chunk_file config n) fs3 = Some data"
    using ifstream_open_chunk [of fs3 config n] fs_stable_trans [OF s2 fs_stable_create [OF assms(4), of fs' n]]
      fs_kept_create [of fs' config n] c2 assms(1,2)
    by (simp add: fs3_def fs_stable_def fs_kept_def fs_healthy_def)
  then have "(st, resps) = get_chunk_loop (\<lambda>_. True) 0 data"
    using GetChunk_handler_chunk [OF assms(7,5), of config "\<lambda>_. True" fs'] G(1) by (simp add: fs3_def Let_def)
  then have "st = status_OK" "concat (map gcs_data resps) = data"
      "\<forall>m \<in> set resps. gcs_data m \<noteq> [] \<and> length (gcs_data m) \<le> 4096"
    using get_chunk_loop_all [of "\<lambda>_. True" 0 data] by (metis fst_conv snd_conv buffer_size_def)+
  moreover have "file_content fs'' (chunk_file config m) = file_content fs (chunk_file config m)"
    if "m \<noteq> n" for m
    using that G(2) c2 chunk_file_inject by (auto simp: fs_kept_def)
  ultimately show ?thesis using P(1) G(1) unfolding data_def by blast
qed

lemma digits_single: "n < 10 \<Longrightarrow> digits n = [digit_char n]"
  by (subst digits.simps) simp

lemma blank_fs_facts:
  "fs_tidy blank_fs" "fs_healthy blank_fs" "fs_quota blank_fs = (\<lambda>_. None)"
  "config_tidy default_DataNodeConfig"
  by (simp_all add: fs_tidy_def fs_healthy_def blank_fs_def config_tidy_def base_path_def
      default_DataNodeConfig_def ends_cfile_def upt_rec)

theorem datanode_put_get_roundtrip_witness:
  "\<exists>fs' fs'' resps.
     PutChunk_handler default_DataNodeConfig
       [empty_PutChunkRequest\<lparr>pcr_chunk_id := chunk_name 3, pcr_data := ''ab''\<rparr>,
        empty_PutChunkRequest\<lparr>pcr_data := ''c''\<rparr>] blank_fs
       = (Inr (status_OK, empty_PutChunkResponse\<lparr>pcs_success := True\<rparr>), fs') \<and>
     GetChunk_handler default_DataNodeConfig \<lparr>gcr_chunk_id = chunk_name 3, gcr_replica_index = 0\<rparr>
       (\<lambda>_. True) fs' = (Inr (status_OK, resps), fs'') \<and>
     concat (map gcs_data resps) = ''abc''"
proof -
  have "pcr_chunk_id (empty_PutChunkRequest\<lparr>pcr_chunk_id := chunk_name 3, pcr_data := ''ab''\<rparr>)
      = chunk_name 3"
    "gcr_chunk_id \<lparr>gcr_chunk_id = chunk_name 3, gcr_replica_index = 0\<rparr> = chunk_name 3" by simp_all
  from datanode_put_get_roundtrip [OF blank_fs_facts _ this, of "[empty_PutChunkRequest\<lparr>pcr_data := ''c''\<rparr>]"]
  show ?thesis by auto
qed

text \<open>C35. A failed write is reported as success: when the device accepts fewer bytes than the chunk
  has, \<open>PutChunk\<close> answers OK with \<open>success = true\<close> and the file holds only a prefix, because the
  state of the stream is not checked after \<open>write\<close> and \<open>close\<close>.\<close>

theorem short_write_reported_as_success:
  assumes "fs_tidy fs" "fs_healthy fs" "config_tidy config" "n < 2 ^ 31"
    and "pcr_chunk_id req = chunk_name n"
    and "fs_quota fs (chunk_file config n) = Some q"
    and "q < length (concat (map pcr_data (req # reqs)))"
  shows "\<exists>fs'. PutChunk_handler config (req # reqs) fs
       = (Inr (status_OK, empty_PutChunkResponse\<lparr>pcs_success := True\<rparr>), fs') \<and>
     file_content fs' (chunk_file config n) = Some (take q (concat (map pcr_data (req # reqs)))) \<and>
     file_content fs' (chunk_file config n) \<noteq> Some (concat (map pcr_data (req # reqs)))"
proof -
  define fs1 where "fs1 = snd (create_directories_recursively (chunk_dir config n) fs)"
  have "fs_quota fs1 = fs_quota fs"
    using fs_stable_create [OF assms(3), of fs n] by (simp add: fs1_def fs_stable_def)
  then obtain fs' where "PutChunk_handler config (req # reqs) fs
        = (Inr (status_OK, empty_PutChunkResponse\<lparr>pcs_success := True\<rparr>), fs')"
      "fs_wrote (chunk_file config n) (take q (concat (map pcr_data (req # reqs)))) fs1 fs'"
    using PutChunk_handler_chunk [where config = config and fs = fs and reqs = reqs, OF assms(5,4)]
      ofstream_open_healthy [OF assms(1,2,3), of n] assms(6)
    by (auto simp: fs1_def quota_take_def)
  moreover have "take q data \<noteq> data" if "q < length data" for data :: bytes
    using that by (metis length_take min.absorb4 nat_less_le)
  ultimately show ?thesis using assms(7) fs_wrote_content by fastforce
qed

theorem short_write_reported_as_success_witness:
  "\<exists>fs'. PutChunk_handler default_DataNodeConfig
       [empty_PutChunkRequest\<lparr>pcr_chunk_id := chunk_name 3, pcr_data := ''abc''\<rparr>]
       (blank_fs\<lparr>fs_quota := (\<lambda>_. Some 1)\<rparr>)
       = (Inr (status_OK, empty_PutChunkResponse\<lparr>pcs_success := True\<rparr>), fs') \<and>
     file_content fs' (chunk_file default_DataNodeConfig 3) = Some ''a''"
proof -
  define fs where "fs = blank_fs\<lparr>fs_quota := (\<lambda>_. Some 1)\<rparr>"
  define req where "req = empty_PutChunkRequest\<lparr>pcr_chunk_id := chunk_name 3, pcr_data := ''abc''\<rparr>"
  have "fs_tidy fs" "fs_healthy fs" using blank_fs_facts by (simp_all add: fs_def fs_tidy_def fs_healthy_def)
  from short_write_reported_as_success [OF this blank_fs_facts(4), of 3 req 1 "[]"]
  show ?thesis unfolding fs_def [symmetric] req_def [symmetric] by (auto simp: fs_def req_def)
qed

text \<open>C34. \<open>DeleteChunk\<close> answers gRPC OK on every branch: without a fault the file is gone and
  \<open>success\<close> is true whether or not it existed, so deletion is idempotent; on any error but
  \<open>ENOENT\<close> the file stays, and only the \<open>success\<close> flag and the \<open>strerror\<close> text say so.\<close>

theorem delete_chunk_branches:
  assumes "fs_tidy fs" "config_tidy config" "n < 2 ^ 31" "dcr_chunk_id req = chunk_name n"
  shows "\<exists>r fs'. DeleteChunk_handler strerror config req fs = (Inr (status_OK, r), fs') \<and>
     (case fs_fault fs (chunk_file config n) of
        None \<Rightarrow> dcs_success r \<and> file_content fs' = (file_content fs)(chunk_file config n := None)
      | Some e \<Rightarrow> file_content fs' = file_content fs \<and>
          (if e = ENOENT then dcs_success r
           else \<not> dcs_success r \<and> dcs_error_message r = strerror e))"
  using DeleteChunk_handler_effect [OF assms(4,3,2,1), of strerror]
  by (auto simp: fs_kept_def split: option.splits)

theorem delete_chunk_branches_witness:
  "\<exists>r fs'. DeleteChunk_handler (\<lambda>_. ''denied'') default_DataNodeConfig \<lparr>dcr_chunk_id = chunk_name 3\<rparr>
       (blank_fs\<lparr>fs_fault := (\<lambda>_. Some (ERRNO 13))\<rparr>) = (Inr (status_OK, r), fs') \<and>
     \<not> dcs_success r \<and> dcs_error_message r = ''denied''"
proof -
  define fs where "fs = blank_fs\<lparr>fs_fault := (\<lambda>_. Some (ERRNO 13))\<rparr>"
  have "fs_tidy fs" using blank_fs_facts by (simp add: fs_def fs_tidy_def)
  from delete_chunk_branches [OF this blank_fs_facts(4), of 3 "\<lparr>dcr_chunk_id = chunk_name 3\<rparr>" "\<lambda>_. ''denied''"]
  show ?thesis unfolding fs_def [symmetric] by (auto simp: fs_def)
qed

end
