(* ===== verification/Datanode_Stub.thy ===== *)
theory Datanode_Stub
  imports Datanode_Service
begin

text \<open>
  The client side of a data node, \<open>datanode/include/datanode_stub_wrapper.h\<close> and
  \<open>datanode/src/datanode_stub_wrapper.cpp\<close>. The C++ interface
  \<open>IDataNodeStubWrapper\<close> is a record of its three virtual functions, a factory is
  a function from address and port to such a record, and all of them act on an
  outside state \<open>'w\<close>. The stub that gRPC generates from \<open>datanode.proto\<close> is the
  parameter \<open>DataNodeStub\<close>.

  \<open>chunk_nodes\<close> states what the coordinator may rely on when it talks to data
  nodes through such a factory.
\<close>

section \<open>The generated stub\<close>

text \<open>
  \<open>rpc_PutChunk\<close> is given the messages the client wants to write, and yields how
  many \<open>Write\<close> accepted, the status of \<open>Finish\<close> and the response.
  \<open>rpc_GetChunk\<close> yields the messages \<open>Read\<close> delivers and the status of \<open>Finish\<close>.
\<close>

record 'w DataNodeStub =
  rpc_PutChunk :: "PutChunkRequest list \<Rightarrow> 'w \<Rightarrow> (nat \<times> Status \<times> PutChunkResponse) \<times> 'w"
  rpc_GetChunk :: "GetChunkRequest \<Rightarrow> 'w \<Rightarrow> (GetChunkResponse list \<times> Status) \<times> 'w"
  rpc_DeleteChunk :: "DeleteChunkRequest \<Rightarrow> 'w \<Rightarrow> (Status \<times> DeleteChunkResponse) \<times> 'w"

section \<open>The wrapper\<close>

text \<open>\<open>GetChunk\<close> takes and returns the contents of its output vector.\<close>

record 'w IDataNodeStubWrapper =
  PutChunk :: "string \<Rightarrow> bytes \<Rightarrow> 'w \<Rightarrow> Status \<times> 'w"
  GetChunk :: "string \<Rightarrow> bytes \<Rightarrow> 'w \<Rightarrow> (Status \<times> bytes) \<times> 'w"
  DeleteChunk :: "string \<Rightarrow> 'w \<Rightarrow> Status \<times> 'w"

definition wrapper_PutChunk :: "'w DataNodeStub \<Rightarrow> string \<Rightarrow> bytes \<Rightarrow> 'w \<Rightarrow> Status \<times> 'w" where
  "wrapper_PutChunk stub cid data w =
    (let request = empty_PutChunkRequest\<lparr>pcr_chunk_id := cid, pcr_data := data\<rparr>;
         ((accepted, finish_status, response), w') = rpc_PutChunk stub [request] w
     in if accepted < 1 then (finish_status, w')
        else (finish_status, w'))"

definition wrapper_GetChunk ::
  "'w DataNodeStub \<Rightarrow> string \<Rightarrow> bytes \<Rightarrow> 'w \<Rightarrow> (Status \<times> bytes) \<times> 'w" where
  "wrapper_GetChunk stub cid data w =
    (let ((responses, status), w') =
           rpc_GetChunk stub \<lparr>gcr_chunk_id = cid, gcr_replica_index = 0\<rparr> w;
         (temp_data, success) =
           foldl (\<lambda>(temp_data, success) r. (temp_data @ gcs_data r, True)) ([], False) responses
     in if status_ok status \<and> success then ((status_OK, temp_data), w')
        else ((status, data), w'))"

definition wrapper_DeleteChunk :: "'w DataNodeStub \<Rightarrow> string \<Rightarrow> 'w \<Rightarrow> Status \<times> 'w" where
  "wrapper_DeleteChunk stub cid w =
    (let ((status, response), w') = rpc_DeleteChunk stub \<lparr>dcr_chunk_id = cid\<rparr> w in (status, w'))"

text \<open>The gRPC target of a node.\<close>

definition node_target :: "string \<Rightarrow> int32 \<Rightarrow> string" where
  "node_target address port = address @ '':'' @ to_string (sint port)"

definition DataNodeStubWrapper ::
  "(string \<Rightarrow> 'w DataNodeStub) \<Rightarrow> string \<Rightarrow> int32 \<Rightarrow> 'w IDataNodeStubWrapper" where
  "DataNodeStubWrapper NewStub address port =
    (let stub = NewStub (node_target address port)
     in \<lparr>PutChunk = wrapper_PutChunk stub, GetChunk = wrapper_GetChunk stub,
         DeleteChunk = wrapper_DeleteChunk stub\<rparr>)"

definition CreateClient ::
  "(string \<Rightarrow> 'w DataNodeStub) \<Rightarrow> string \<Rightarrow> int32 \<Rightarrow> 'w IDataNodeStubWrapper" where
  "CreateClient NewStub address port = DataNodeStubWrapper NewStub address port"

lemma foldl_responses:
  "foldl (\<lambda>(td, s) r. (td @ gcs_data r, True)) (t, b) rs
     = (t @ concat (map gcs_data rs), b \<or> rs \<noteq> [])"
  by (induction rs arbitrary: t b) auto

lemma wrapper_GetChunk_eq:
  "wrapper_GetChunk stub cid data w =
    (let ((rs, st), w') = rpc_GetChunk stub \<lparr>gcr_chunk_id = cid, gcr_replica_index = 0\<rparr> w
     in (if status_ok st \<and> rs \<noteq> [] then (status_OK, concat (map gcs_data rs)) else (st, data), w'))"
proof -
  obtain rs st w' where "rpc_GetChunk stub \<lparr>gcr_chunk_id = cid, gcr_replica_index = 0\<rparr> w = ((rs, st), w')"
    by (metis prod.exhaust)
  then show ?thesis by (simp add: wrapper_GetChunk_def foldl_responses Let_def)
qed

lemma wrapper_PutChunk_eq:
  "wrapper_PutChunk stub cid data w =
    (let ((k, st, r), w') = rpc_PutChunk stub
       [empty_PutChunkRequest\<lparr>pcr_chunk_id := cid, pcr_data := data\<rparr>] w in (st, w'))"
  by (simp add: wrapper_PutChunk_def Let_def split: prod.splits)

section \<open>What the coordinator relies on\<close>

type_synonym endpoint = "string \<times> int32"

text \<open>
  What writing a chunk promises. \<open>stored w e c\<close> is the content of chunk \<open>c\<close> on the node at
  \<open>e\<close>. \<open>sound\<close> says that no failed call reports OK; \<open>live w e\<close> that from now on
  every call to \<open>e\<close> is delivered and its disk has no faults; \<open>valid\<close> which identifiers are
  used. \<open>keeps e c d\<close> is what the disk of \<open>e\<close> keeps of \<open>d\<close> when it is written as chunk \<open>c\<close>:
  all of it while there is room, a prefix of it on a full disk.
\<close>

locale writable_nodes =
  fixes create :: "string \<Rightarrow> int32 \<Rightarrow> 'w IDataNodeStubWrapper"
    and stored :: "'w \<Rightarrow> endpoint \<Rightarrow> string \<Rightarrow> bytes option"
    and sound :: "'w \<Rightarrow> bool"
    and live :: "'w \<Rightarrow> endpoint \<Rightarrow> bool"
    and valid :: "string \<Rightarrow> bool"
    and keeps :: "endpoint \<Rightarrow> string \<Rightarrow> bytes \<Rightarrow> bytes"
  assumes put_sound: "sound w \<Longrightarrow> valid c \<Longrightarrow> sound (snd (PutChunk (create a p) c d w))"
    and put_live: "sound w \<Longrightarrow> valid c \<Longrightarrow> live w e \<Longrightarrow> live (snd (PutChunk (create a p) c d w)) e"
    and put_ok: "sound w \<Longrightarrow> valid c \<Longrightarrow> live w (a, p) \<Longrightarrow>
        status_ok (fst (PutChunk (create a p) c d w))"
    and put_keeps: "sound w \<Longrightarrow> valid c \<Longrightarrow> status_ok (fst (PutChunk (create a p) c d w)) \<Longrightarrow>
        stored (snd (PutChunk (create a p) c d w)) (a, p) c = Some (keeps (a, p) c d)"
    and put_writes: "sound w \<Longrightarrow> valid c \<Longrightarrow> valid c' \<Longrightarrow>
        stored (snd (PutChunk (create a p) c d w)) e c' = stored w e c' \<or>
        (c' = c \<and> stored (snd (PutChunk (create a p) c d w)) e c' = Some (keeps e c d))"

text \<open>The contract of nodes whose disks have room, with what reading and deleting promise.\<close>

locale chunk_nodes = writable_nodes create stored sound live valid "\<lambda>e c d. d"
  for create :: "string \<Rightarrow> int32 \<Rightarrow> 'w IDataNodeStubWrapper"
    and stored :: "'w \<Rightarrow> endpoint \<Rightarrow> string \<Rightarrow> bytes option"
    and sound :: "'w \<Rightarrow> bool"
    and live :: "'w \<Rightarrow> endpoint \<Rightarrow> bool"
    and valid :: "string \<Rightarrow> bool" +
  assumes get_sound: "sound w \<Longrightarrow> valid c \<Longrightarrow> sound (snd (GetChunk (create a p) c d w))"
    and del_sound: "sound w \<Longrightarrow> valid c \<Longrightarrow> sound (snd (DeleteChunk (create a p) c w))"
    and get_live: "sound w \<Longrightarrow> valid c \<Longrightarrow> live w e \<Longrightarrow> live (snd (GetChunk (create a p) c d w)) e"
    and del_live: "sound w \<Longrightarrow> valid c \<Longrightarrow> live w e \<Longrightarrow> live (snd (DeleteChunk (create a p) c w)) e"
    and get_keeps: "sound w \<Longrightarrow> valid c \<Longrightarrow> valid c' \<Longrightarrow>
        stored (snd (GetChunk (create a p) c d w)) e c' = stored w e c'"
    and get_value: "sound w \<Longrightarrow> valid c \<Longrightarrow>
        status_ok (fst (fst (GetChunk (create a p) c [] w))) \<Longrightarrow>
        stored w (a, p) c = Some (snd (fst (GetChunk (create a p) c [] w)))"
    and get_ok: "sound w \<Longrightarrow> valid c \<Longrightarrow> live w (a, p) \<Longrightarrow> stored w (a, p) c \<noteq> None \<Longrightarrow>
        status_ok (fst (fst (GetChunk (create a p) c d w)))"
    and del_effect: "sound w \<Longrightarrow> valid c \<Longrightarrow> valid c' \<Longrightarrow>
        stored (snd (DeleteChunk (create a p) c w)) e c' = stored w e c' \<or>
        (c' = c \<and> stored (snd (DeleteChunk (create a p) c w)) e c' = None)"
    and del_gone: "sound w \<Longrightarrow> valid c \<Longrightarrow> live w (a, p) \<Longrightarrow>
        stored (snd (DeleteChunk (create a p) c w)) (a, p) c = None"
begin

lemma put_stored: "sound w \<Longrightarrow> valid c \<Longrightarrow> status_ok (fst (PutChunk (create a p) c d w)) \<Longrightarrow>
  stored (snd (PutChunk (create a p) c d w)) (a, p) c = Some d"
  by (rule put_keeps)

lemma put_effect: "sound w \<Longrightarrow> valid c \<Longrightarrow> valid c' \<Longrightarrow>
  stored (snd (PutChunk (create a p) c d w)) e c' = stored w e c' \<or>
  (c' = c \<and> stored (snd (PutChunk (create a p) c d w)) e c' = Some d)"
  by (rule put_writes)

lemma put_other: "sound w \<Longrightarrow> valid c \<Longrightarrow> valid c' \<Longrightarrow> c' \<noteq> c \<Longrightarrow>
  stored (snd (PutChunk (create a p) c d w)) e c' = stored w e c'"
  using put_effect by blast

lemma put_again: "sound w \<Longrightarrow> valid c \<Longrightarrow> stored w e c = Some d \<Longrightarrow>
  stored (snd (PutChunk (create a p) c d w)) e c = Some d"
  using put_effect by metis

lemma del_other: "sound w \<Longrightarrow> valid c \<Longrightarrow> valid c' \<Longrightarrow> c' \<noteq> c \<Longrightarrow>
  stored (snd (DeleteChunk (create a p) c w)) e c' = stored w e c'"
  using del_effect by blast

lemma del_again: "sound w \<Longrightarrow> valid c \<Longrightarrow> stored w e c = None \<Longrightarrow>
  stored (snd (DeleteChunk (create a p) c w)) e c = None"
  using del_effect by metis

text \<open>Reading back what a successful \<open>PutChunk\<close> wrote.\<close>

lemma put_then_get:
  assumes "sound w" "valid c" "live w (a, p)"
    and w'_def: "w' = snd (PutChunk (create a p) c d w)"
  shows "status_ok (fst (fst (GetChunk (create a p) c [] w')))
    \<and> snd (fst (GetChunk (create a p) c [] w')) = d"
proof -
  have w': "sound w'" "live w' (a, p)" "stored w' (a, p) c = Some d"
    using assms put_sound put_live put_stored put_ok by (simp_all add: w'_def)
  then show ?thesis using get_ok [of w' c a p] get_value [of w' c a p] assms(2) by auto
qed

end

end
