(* ===== verification/Registry.thy ===== *)
theory Registry
  imports Metadata_Store Datanode_Stub
begin

text \<open>
  The node registry of \<open>CoordinatorServiceImpl\<close>
  (\<open>coordinator/src/coordinator_service_impl.cpp\<close>): the state of the service
  object, \<open>RegisterDataNode\<close>, \<open>UnregisterDataNode\<close>, \<open>extractClientAddress\<close>, the
  round-robin \<open>selectNodesForReplication\<close> and \<open>resolveNodeAddresses\<close>.

  \<open>registered_nodes_\<close> is an \<open>unordered_map\<close>: an association list with distinct keys,
  walked in the order \<open>hash_order\<close>, a parameter known only to list every entry
  once. The log output is not modelled. Nothing the two handlers call throws, so
  their \<open>catch\<close> branches have no counterpart.
\<close>

section \<open>State\<close>

record DataNodeInfo =
  info_node_id :: int32
  info_address :: string
  info_port :: int32

type_synonym node_registry = "(int32 \<times> DataNodeInfo) list"

text \<open>
  The program points of \<open>cleanupWorker\<close>: the test of the outer loop, the test of
  the inner loop after \<open>i\<close> seconds, the test after it, the cleanup, the end.
\<close>

datatype worker_pc = While_Test | Sleep_Test nat | Recheck | Cleaning | Exited

text \<open>
  \<open>chunk_id_counter\<close> is the function-local static of \<open>PutFile\<close>; \<open>running\<close> is the
  atomic flag of the cleanup thread; \<open>cleanup_thread\<close> is a joinable thread at its
  program point, or no thread.
\<close>

record CoordinatorServiceImpl =
  store :: MetadataStore
  registered_nodes :: node_registry
  next_node_id :: int32
  next_node_index :: uint32
  chunk_id_counter :: uint64
  running :: bool
  cleanup_thread :: "worker_pc option"

definition new_CoordinatorServiceImpl :: CoordinatorServiceImpl where
  "new_CoordinatorServiceImpl =
    \<lparr>store = empty_MetadataStore, registered_nodes = [], next_node_id = 1, next_node_index = 0,
     chunk_id_counter = 0, running = False, cleanup_thread = None\<rparr>"

text \<open>The messages of \<open>coordinator.proto\<close> for registration.\<close>

record RegisterDataNodeResponse =
  rdr_success :: bool
  rdr_node_id :: int32
  rdr_error_message :: string

record UnregisterDataNodeResponse =
  udr_success :: bool
  udr_error_message :: string

definition empty_RegisterDataNodeResponse :: RegisterDataNodeResponse where
  "empty_RegisterDataNodeResponse =
    \<lparr>rdr_success = False, rdr_node_id = 0, rdr_error_message = []\<rparr>"

definition empty_UnregisterDataNodeResponse :: UnregisterDataNodeResponse where
  "empty_UnregisterDataNodeResponse = \<lparr>udr_success = False, udr_error_message = []\<rparr>"

section \<open>Operations\<close>

text \<open>The argument is \<open>context->peer()\<close>.\<close>

definition extractClientAddress :: "string \<Rightarrow> string" where
  "extractClientAddress peer_info =
    (case rfind_char CHR '':'' peer_info of
       Some colon_pos \<Rightarrow> take colon_pos peer_info
     | None \<Rightarrow> peer_info)"

definition RegisterDataNode ::
  "(node_registry \<Rightarrow> node_registry) \<Rightarrow> string \<Rightarrow> int32 \<Rightarrow> CoordinatorServiceImpl
    \<Rightarrow> (Status \<times> RegisterDataNodeResponse) \<times> CoordinatorServiceImpl" where
  "RegisterDataNode hash_order peer port st =
    (let client_address = extractClientAddress peer
     in case find (\<lambda>(existing_id, existing_info).
                    info_address existing_info = client_address \<and> info_port existing_info = port)
               (hash_order (registered_nodes st)) of
          Some (existing_id, existing_info) \<Rightarrow>
            ((status_OK, empty_RegisterDataNodeResponse
                \<lparr>rdr_success := False,
                 rdr_error_message := ''Address:port '' @ client_address @ '':'' @ to_string (sint port)
                   @ '' already registered with node ID '' @ to_string (sint existing_id)\<rparr>), st)
        | None \<Rightarrow>
            (let assigned_id = next_node_id st;
                 info = \<lparr>info_node_id = assigned_id, info_address = client_address, info_port = port\<rparr>
             in ((status_OK, empty_RegisterDataNodeResponse
                    \<lparr>rdr_success := True, rdr_node_id := assigned_id\<rparr>),
                 st\<lparr>next_node_id := next_node_id st + 1,
                    registered_nodes := AList.update assigned_id info (registered_nodes st)\<rparr>)))"

definition UnregisterDataNode ::
  "int32 \<Rightarrow> CoordinatorServiceImpl
    \<Rightarrow> (Status \<times> UnregisterDataNodeResponse) \<times> CoordinatorServiceImpl" where
  "UnregisterDataNode node_id st =
    (case map_of (registered_nodes st) node_id of
       None \<Rightarrow>
         ((Status NOT_FOUND ''Node not found'', empty_UnregisterDataNodeResponse
             \<lparr>udr_success := False,
              udr_error_message := ''Node ID '' @ to_string (sint node_id) @ '' not found in registry''\<rparr>), st)
     | Some info \<Rightarrow>
         ((status_OK, empty_UnregisterDataNodeResponse\<lparr>udr_success := True\<rparr>),
          st\<lparr>registered_nodes := AList.delete node_id (registered_nodes st)\<rparr>))"

text \<open>
  The loop of the selection. \<open>num_nodes\<close> is the size of the vector narrowed to
  \<open>int32_t\<close>. \<open>next_node_index_\<close> is unsigned and wraps; its remainder by \<open>num_nodes\<close> is taken
  at the unsigned type and converted to \<open>int32_t\<close>. \<open>start_index + i\<close> and the remainder of the
  sum are \<open>int32_t\<close> operations, the remainder that of a division that truncates.
  \<open>pick_index\<close> and \<open>pick_nodes\<close> yield \<open>None\<close> where C++ leaves the behaviour undefined: a
  remainder by zero, a sum or a quotient that does not fit, an index outside the vector.
\<close>

definition pick_index :: "int32 \<Rightarrow> int32 \<Rightarrow> nat \<Rightarrow> nat \<Rightarrow> nat option" where
  "pick_index start_index num_nodes len i =
    (let total = sint start_index + int i
     in if num_nodes = 0 \<or> 2 ^ 31 \<le> total \<or> 2 ^ 31 \<le> total sdiv sint num_nodes then None
        else (let node_index = total smod sint num_nodes
              in if 0 \<le> node_index \<and> nat node_index < len then Some (nat node_index) else None))"

definition pick_nodes :: "int32 list \<Rightarrow> uint32 \<Rightarrow> int32 \<Rightarrow> int32 list option" where
  "pick_nodes ids counter rf =
    (let num_nodes = of_nat (length ids) :: int32
     in if num_nodes = 0 then None
        else (let start_index = counter mod num_nodes
              in those (map (\<lambda>i. map_option (\<lambda>node_index. ids ! node_index)
                                  (pick_index start_index num_nodes (length ids) i)) [0..<nat (sint rf)])))"

definition selectNodesForReplication ::
  "(node_registry \<Rightarrow> node_registry) \<Rightarrow> int32 \<Rightarrow> CoordinatorServiceImpl
    \<Rightarrow> (int32 list \<times> CoordinatorServiceImpl) option" where
  "selectNodesForReplication hash_order rf st =
    (if sint rf \<le> 0 then Some ([], st)
     else if registered_nodes st = [] then Some ([], st)
     else
       (let nodes = map fst (hash_order (registered_nodes st))
        in if nodes = [] then Some ([], st)
           else map_option (\<lambda>selected_nodes. (selected_nodes, st\<lparr>next_node_index := next_node_index st + 1\<rparr>))
                  (pick_nodes nodes (next_node_index st) rf)))"

definition resolveNodeAddresses :: "int32 list \<Rightarrow> CoordinatorServiceImpl \<Rightarrow> string list" where
  "resolveNodeAddresses ids st =
    map (\<lambda>node_id.
           case map_of (registered_nodes st) node_id of
             Some info \<Rightarrow> info_address info @ '':'' @ to_string (sint (info_port info))
           | None \<Rightarrow> ''unknown:'' @ to_string (sint node_id)) ids"

section \<open>Invariant\<close>

definition iterates_all :: "(node_registry \<Rightarrow> node_registry) \<Rightarrow> bool" where
  "iterates_all hash_order \<longleftrightarrow> (\<forall>al. mset (hash_order al) = mset al)"

definition info_endpoint :: "DataNodeInfo \<Rightarrow> endpoint" where
  "info_endpoint info = (info_address info, info_port info)"

text \<open>
  \<open>k\<close> identifiers have been handed out, each key is its node's identifier and one
  of them, and no two nodes have the same address and port.
\<close>

definition registry_inv :: "nat \<Rightarrow> CoordinatorServiceImpl \<Rightarrow> bool" where
  "registry_inv k st \<longleftrightarrow>
     next_node_id st = of_nat (k + 1) \<and>
     distinct (map fst (registered_nodes st)) \<and>
     distinct (map (info_endpoint \<circ> snd) (registered_nodes st)) \<and>
     list_all (\<lambda>(i, info). info_node_id info = i \<and> i \<in> of_nat ` {1..k}) (registered_nodes st)"

lemma iterates_all_set: "iterates_all h \<Longrightarrow> set (h al) = set al"
  by (metis iterates_all_def set_mset_mset)

lemma iterates_all_length: "iterates_all h \<Longrightarrow> length (h al) = length al"
  by (metis iterates_all_def size_mset)

lemma iterates_all_keys: "iterates_all h \<Longrightarrow> mset (map fst (h al)) = mset (map fst al)"
  by (simp add: iterates_all_def)

lemma iterates_all_id: "iterates_all (\<lambda>al. al)" "iterates_all rev"
  by (simp_all add: iterates_all_def)

text \<open>The first entry with the given endpoint, as a case distinction on the set of endpoints.\<close>

lemma find_endpoint:
  assumes "iterates_all h"
  shows "find (\<lambda>(i, info). info_address info = a \<and> info_port info = p) (h al) = None
     \<longleftrightarrow> (a, p) \<notin> (info_endpoint \<circ> snd) ` set al"
    and "find (\<lambda>(i, info). info_address info = a \<and> info_port info = p) (h al) = Some x
     \<Longrightarrow> x \<in> set al \<and> info_endpoint (snd x) = (a, p)"
proof -
  show "find (\<lambda>(i, info). info_address info = a \<and> info_port info = p) (h al) = None
     \<longleftrightarrow> (a, p) \<notin> (info_endpoint \<circ> snd) ` set al"
    using iterates_all_set [OF assms, of al] by (force simp: find_None_iff info_endpoint_def)
  show "x \<in> set al \<and> info_endpoint (snd x) = (a, p)"
    if "find (\<lambda>(i, info). info_address info = a \<and> info_port info = p) (h al) = Some x"
    using that iterates_all_set [OF assms, of al] nth_mem
    by (fastforce simp: find_Some_iff info_endpoint_def)
qed

lemma fresh_id:
  assumes "k < 2 ^ 32 - 1"
  shows "(of_nat (k + 1) :: int32) \<notin> of_nat ` {1..k}"
proof
  assume "(of_nat (k + 1) :: int32) \<in> of_nat ` {1..k}"
  then obtain j where "j \<in> {1..k}" "(of_nat (k + 1) :: int32) = of_nat j" by blast
  moreover have "unat (of_nat (k + 1) :: int32) = k + 1"
    using assms by (simp add: unsigned_of_nat take_bit_nat_eq_self del: of_nat_add of_nat_Suc)
  moreover have "unat (of_nat j :: int32) = j"
    using assms calculation(1) by (simp add: unsigned_of_nat take_bit_nat_eq_self)
  ultimately show False by auto
qed

text \<open>\<open>RegisterDataNode\<close> and \<open>UnregisterDataNode\<close> by their outcome.\<close>

lemma RegisterDataNode_cases:
  assumes "iterates_all h"
  obtains (conflict) i info where "(i, info) \<in> set (registered_nodes st)"
    "info_endpoint info = (extractClientAddress peer, port)"
    "RegisterDataNode h peer port st =
      ((status_OK, empty_RegisterDataNodeResponse
          \<lparr>rdr_success := False,
           rdr_error_message := ''Address:port '' @ extractClientAddress peer @ '':'' @ to_string (sint port)
             @ '' already registered with node ID '' @ to_string (sint i)\<rparr>), st)"
  | (fresh) "(extractClientAddress peer, port) \<notin> (info_endpoint \<circ> snd) ` set (registered_nodes st)"
    "RegisterDataNode h peer port st =
      ((status_OK, empty_RegisterDataNodeResponse\<lparr>rdr_success := True, rdr_node_id := next_node_id st\<rparr>),
       st\<lparr>next_node_id := next_node_id st + 1,
          registered_nodes := AList.update (next_node_id st)
            \<lparr>info_node_id = next_node_id st, info_address = extractClientAddress peer, info_port = port\<rparr>
            (registered_nodes st)\<rparr>)"
proof (cases "find (\<lambda>(i, info). info_address info = extractClientAddress peer \<and> info_port info = port)
    (h (registered_nodes st))")
  case None
  have "(extractClientAddress peer, port) \<notin> (info_endpoint \<circ> snd) ` set (registered_nodes st)"
    using None find_endpoint(1) [OF assms] by blast
  then show thesis by (rule fresh) (simp add: RegisterDataNode_def Let_def None)
next
  case (Some x)
  then show thesis
    using conflict [of "fst x" "snd x"] find_endpoint(2) [OF assms Some]
    by (cases x) (simp add: RegisterDataNode_def Let_def)
qed

lemma registry_inv_new: "registry_inv 0 new_CoordinatorServiceImpl"
  by (simp add: registry_inv_def new_CoordinatorServiceImpl_def)

lemma registry_inv_fresh:
  assumes "registry_inv k st" "k < 2 ^ 32 - 1"
  shows "next_node_id st \<notin> fst ` set (registered_nodes st)"
  using assms fresh_id [OF assms(2)] by (force simp: registry_inv_def list_all_iff)

lemma registry_inv_Register:
  assumes "registry_inv k st" "iterates_all h" "k < 2 ^ 32 - 1"
  shows "registry_inv (if rdr_success (snd (fst (RegisterDataNode h peer port st))) then k + 1 else k)
    (snd (RegisterDataNode h peer port st))"
  using assms(2)
proof (cases rule: RegisterDataNode_cases [where st = st and peer = peer and port = port])
  case (conflict i info)
  then show ?thesis using assms(1) by simp
next
  case fresh
  have "AList.update (next_node_id st)
      \<lparr>info_node_id = next_node_id st, info_address = extractClientAddress peer, info_port = port\<rparr>
      (registered_nodes st) = registered_nodes st @ [(next_node_id st,
      \<lparr>info_node_id = next_node_id st, info_address = extractClientAddress peer, info_port = port\<rparr>)]"
    using registry_inv_fresh [OF assms(1,3)] by (rule length_alist_update_fresh)
  moreover have "{1..k + 1} = insert (k + 1) {1..k}" by auto
  ultimately show ?thesis
    using assms(1) fresh registry_inv_fresh [OF assms(1,3)]
    by (auto simp: registry_inv_def list_all_iff info_endpoint_def)
qed

lemma registry_inv_Unregister:
  "registry_inv k st \<Longrightarrow> registry_inv k (snd (UnregisterDataNode i st))"
  by (auto simp: registry_inv_def UnregisterDataNode_def list_all_iff set_alist_delete
      AList.delete_eq distinct_map_filter split: option.splits)

section \<open>Round robin\<close>

text \<open>\<open>k\<close> picks from a ring of nodes, from position \<open>s\<close> on.\<close>

definition ring_picks :: "'a list \<Rightarrow> nat \<Rightarrow> nat \<Rightarrow> 'a list" where
  "ring_picks nodes s k = map (\<lambda>i. nodes ! ((s + i) mod length nodes)) [0..<k]"

lemma length_ring_picks [simp]: "length (ring_picks nodes s k) = k"
  by (simp add: ring_picks_def)

lemma ring_picks_nth: "i < k \<Longrightarrow> ring_picks nodes s k ! i = nodes ! ((s + i) mod length nodes)"
  by (simp add: ring_picks_def)

lemma ring_picks_take:
  "k \<le> length nodes \<Longrightarrow> ring_picks nodes s k = take k (rotate s nodes)"
  by (rule nth_equalityI) (simp_all add: ring_picks_nth nth_rotate)

lemma ring_picks_round:
  "nodes \<noteq> [] \<Longrightarrow> ring_picks nodes s (length nodes + k) = rotate s nodes @ ring_picks nodes s k"
proof (rule nth_equalityI)
  fix i assume ne: "nodes \<noteq> []" and i: "i < length (ring_picks nodes s (length nodes + k))"
  show "ring_picks nodes s (length nodes + k) ! i = (rotate s nodes @ ring_picks nodes s k) ! i"
  proof (cases "i < length nodes")
    case True
    then show ?thesis using i by (simp add: ring_picks_nth nth_append nth_rotate)
  next
    case False
    then have "s + i = s + (i - length nodes) + length nodes" by simp
    then have "(s + i) mod length nodes = (s + (i - length nodes)) mod length nodes"
      by (metis mod_add_self2)
    then show ?thesis using i False by (simp add: ring_picks_nth nth_append)
  qed
qed simp

lemma ring_picks_set: "nodes \<noteq> [] \<Longrightarrow> set (ring_picks nodes s k) \<subseteq> set nodes"
  by (auto simp: ring_picks_def)

lemma count_distinct_take:
  assumes "distinct xs"
  shows "count (mset (take k xs)) x \<le> 1"
proof -
  have "distinct (take k xs)" using assms by simp
  then show ?thesis by (simp add: distinct_count_atmost_1)
qed

lemma ring_picks_balanced:
  assumes "distinct nodes" "x \<in> set nodes"
  shows "k div length nodes \<le> count (mset (ring_picks nodes s k)) x
    \<and> count (mset (ring_picks nodes s k)) x \<le> k div length nodes + 1"
proof (induction k rule: less_induct)
  case (less k)
  have ne: "nodes \<noteq> []" using assms(2) by auto
  show ?case
  proof (cases "k < length nodes")
    case True
    then show ?thesis
      using count_distinct_take [of "rotate s nodes" k x] assms(1)
      by (simp add: ring_picks_take)
  next
    case False
    define j where "j = k - length nodes"
    have "0 < length nodes" using ne by simp
    then have k: "k = length nodes + j" "j < k" using False unfolding j_def by linarith+
    have "count (mset (rotate s nodes)) x = 1"
      using assms distinct_count_atmost_1 [of "rotate s nodes"] by simp
    then have "count (mset (ring_picks nodes s k)) x = 1 + count (mset (ring_picks nodes s j)) x"
      using k(1) ring_picks_round [OF ne] by simp
    moreover have "k div length nodes = 1 + j div length nodes"
      using k(1) ne by (simp add: div_add_self1)
    ultimately show ?thesis using less.IH [OF k(2)] by simp
  qed
qed

text \<open>The picks of \<open>length nodes\<close> consecutive starting points, at one position.\<close>

lemma ring_column:
  "map (\<lambda>k. nodes ! ((c + k + i) mod length nodes)) [0..<length nodes] = rotate (c + i) nodes"
  by (rule nth_equalityI) (simp_all add: nth_rotate ac_simps)

text \<open>Where the sum fits \<open>int32_t\<close>, the index is the remainder of natural numbers.\<close>

lemma sint_of_small: "m < 2 ^ 31 \<Longrightarrow> sint (of_nat m :: int32) = int m"
  by (simp add: signed_of_nat signed_take_bit_int_eq_self)

lemma pick_index_eq:
  assumes "0 < len" "len < 2 ^ 31" "s < len" "s + i < 2 ^ 31"
  shows "pick_index (of_nat s) (of_nat len) len i = Some ((s + i) mod len)"
proof -
  have n: "sint (of_nat len :: int32) = int len" "sint (of_nat s :: int32) = int s"
    using assms by (simp_all add: sint_of_small)
  have nz: "(of_nat len :: int32) \<noteq> 0"
  proof
    assume "(of_nat len :: int32) = 0"
    then show False using n(1) assms(1) by simp
  qed
  have t: "int s + int i = int (s + i)" by simp
  have d: "int (s + i) sdiv int len = int ((s + i) div len)" "int (s + i) smod int len = int ((s + i) mod len)"
    using assms(1) by (simp_all add: signed_divide_int_def signed_modulo_int_def sgn_if zdiv_int zmod_int)
  have "(s + i) div len < 2 ^ 31" using assms(4) div_le_dividend [of "s + i" len] by linarith
  then have "\<not> 2 ^ 31 \<le> int ((s + i) div len)" "\<not> 2 ^ 31 \<le> int (s + i)" using assms(4) by simp_all
  then show ?thesis using nz assms(1) by (simp add: pick_index_def n t d Let_def del: of_nat_add)
qed

lemma those_Some: "(\<And>x. x \<in> set xs \<Longrightarrow> f x = Some (g x)) \<Longrightarrow> those (map f xs) = Some (map g xs)"
  by (induction xs) simp_all

lemma those_members: "those (map f xs) = Some ys \<Longrightarrow> y \<in> set ys \<Longrightarrow> \<exists>x \<in> set xs. f x = Some y"
  by (induction xs arbitrary: ys) (auto split: option.splits)

lemma those_length: "those xs = Some ys \<Longrightarrow> length ys = length xs"
  by (induction xs arbitrary: ys) (auto split: option.splits)

lemma pick_nodes_eq:
  assumes "ids \<noteq> []" "0 < sint rf" "int (length ids) + sint rf \<le> 2 ^ 31"
  shows "pick_nodes ids c rf = Some (ring_picks ids (unat c mod length ids) (nat (sint rf)))"
proof -
  define len where "len = length ids"
  have len: "0 < len" "len < 2 ^ 31" using assms by (auto simp: len_def)
  have u: "unat (of_nat len :: int32) = len" using len(2) by (simp add: unsigned_of_nat take_bit_nat_eq_self)
  have nz: "(of_nat len :: int32) \<noteq> 0"
  proof
    assume "(of_nat len :: int32) = 0"
    then show False using u len(1) by simp
  qed
  define s where "s = unat c mod len"
  have s: "c mod of_nat len = of_nat s" using u by (simp add: s_def word_arith_nat_mod)
  have b: "s < len" using len(1) by (simp add: s_def)
  have pick: "pick_index (of_nat s) (of_nat len) len i = Some ((s + i) mod len)" if "i < nat (sint rf)" for i
    by (rule pick_index_eq) (use len b that assms(3) in \<open>auto simp: len_def\<close>)
  have "those (map (\<lambda>i. map_option ((!) ids) (pick_index (of_nat s) (of_nat len) len i)) [0..<nat (sint rf)])
      = Some (map (\<lambda>i. ids ! ((s + i) mod len)) [0..<nat (sint rf)])"
    by (rule those_Some) (simp add: pick)
  then show ?thesis
    unfolding pick_nodes_def ring_picks_def len_def [symmetric] s [symmetric] s_def [symmetric] Let_def
    using nz by simp
qed

lemma pick_three_of_three: "pick_nodes [3, 2, 1] 0 3 = Some [3, 2, 1]"
proof -
  have "[0..<3] = [0, 1, 2::nat]" by code_simp
  then show ?thesis using pick_nodes_eq [of "[3, 2, 1]" 3 0] by (simp add: ring_picks_def)
qed

lemma pick_nodes_set:
  assumes "pick_nodes ids c rf = Some js"
  shows "set js \<subseteq> set ids"
proof
  fix y assume y: "y \<in> set js"
  have *: "those (map (\<lambda>i. map_option ((!) ids)
      (pick_index (c mod of_nat (length ids)) (of_nat (length ids)) (length ids) i)) [0..<nat (sint rf)]) = Some js"
    using assms by (simp add: pick_nodes_def Let_def split: if_splits)
  from those_members [OF * y] show "y \<in> set ids"
    by (auto simp: pick_index_def Let_def split: if_splits)
qed

lemma pick_nodes_length: "pick_nodes ids c rf = Some js \<Longrightarrow> length js = nat (sint rf)"
  by (auto simp: pick_nodes_def Let_def dest: those_length split: if_splits)

lemma select_eq:
  assumes "iterates_all h" "registered_nodes st \<noteq> []" "0 < sint rf"
    "int (length (registered_nodes st)) + sint rf \<le> 2 ^ 31"
  shows "selectNodesForReplication h rf st =
    Some (ring_picks (map fst (h (registered_nodes st)))
       (unat (next_node_index st) mod length (registered_nodes st)) (nat (sint rf)),
     st\<lparr>next_node_index := next_node_index st + 1\<rparr>)"
proof -
  note len = iterates_all_length [OF assms(1), of "registered_nodes st"]
  have ne: "map fst (h (registered_nodes st)) \<noteq> []" using len assms(2) by auto
  from pick_nodes_eq [OF this assms(3)] assms(4) len
  have "pick_nodes (map fst (h (registered_nodes st))) (next_node_index st) rf
    = Some (ring_picks (map fst (h (registered_nodes st)))
       (unat (next_node_index st) mod length (registered_nodes st)) (nat (sint rf)))" by simp
  then show ?thesis
    using assms(2,3) ne by (simp add: selectNodesForReplication_def Let_def)
qed

lemma select_state:
  "selectNodesForReplication h rf st = Some (ids, st') \<Longrightarrow>
   st' = st \<or> st' = st\<lparr>next_node_index := next_node_index st + 1\<rparr>"
  by (auto simp: selectNodesForReplication_def Let_def split: if_splits)

lemma select_members:
  assumes "iterates_all h" "selectNodesForReplication h rf st = Some (ids, st')"
  shows "set ids \<subseteq> fst ` set (registered_nodes st)"
    and "registered_nodes st \<noteq> [] \<Longrightarrow> 0 < sint rf \<Longrightarrow> int (length ids) = sint rf"
proof -
  show "set ids \<subseteq> fst ` set (registered_nodes st)"
    using assms(2) pick_nodes_set [of "map fst (h (registered_nodes st))" "next_node_index st" rf ids]
      iterates_all_set [OF assms(1), of "registered_nodes st"]
    by (auto simp: selectNodesForReplication_def Let_def split: if_splits)
  show "int (length ids) = sint rf" if "registered_nodes st \<noteq> []" "0 < sint rf"
  proof -
    have "h (registered_nodes st) \<noteq> []"
      using that(1) iterates_all_length [OF assms(1), of "registered_nodes st"] by auto
    then show ?thesis
      using assms(2) that pick_nodes_length [of "map fst (h (registered_nodes st))" "next_node_index st" rf ids]
      by (auto simp: selectNodesForReplication_def Let_def split: if_splits)
  qed
qed

lemma select_defined:
  assumes "iterates_all h" "int (length (registered_nodes st)) + sint rf \<le> 2 ^ 31"
  shows "selectNodesForReplication h rf st \<noteq> None"
proof (cases "registered_nodes st = [] \<or> sint rf \<le> 0")
  case True
  then show ?thesis by (auto simp: selectNodesForReplication_def)
next
  case False
  then show ?thesis using select_eq [OF assms(1) _ _ assms(2)] by simp
qed

lemma registry_inv_length:
  assumes "registry_inv k st"
  shows "length (registered_nodes st) \<le> k"
proof -
  have "fst ` set (registered_nodes st) \<subseteq> of_nat ` {1..k}"
    using assms by (auto simp: registry_inv_def list_all_iff)
  then have "card (set (map fst (registered_nodes st))) \<le> card ((of_nat :: nat \<Rightarrow> int32) ` {1..k})"
    by (intro card_mono) auto
  also have "\<dots> \<le> k" using card_image_le [of "{1..k}" "of_nat :: nat \<Rightarrow> int32"] by simp
  finally show ?thesis using assms distinct_card [of "map fst (registered_nodes st)"]
    by (simp add: registry_inv_def)
qed

text \<open>\<open>m\<close> selections one after the other.\<close>

fun select_calls ::
  "(node_registry \<Rightarrow> node_registry) \<Rightarrow> int32 \<Rightarrow> nat \<Rightarrow> CoordinatorServiceImpl \<Rightarrow> int32 list list option" where
  "select_calls h rf 0 st = Some []"
| "select_calls h rf (Suc m) st =
     (case selectNodesForReplication h rf st of
        None \<Rightarrow> None
      | Some (ids, st') \<Rightarrow> map_option (Cons ids) (select_calls h rf m st'))"

lemma select_calls_eq:
  assumes "iterates_all h" "registered_nodes st \<noteq> []" "0 < sint rf"
    "int (length (registered_nodes st)) + sint rf \<le> 2 ^ 31"
  shows "select_calls h rf m st = Some
    (map (\<lambda>k. ring_picks (map fst (h (registered_nodes st)))
       (unat (next_node_index st + of_nat k) mod length (registered_nodes st)) (nat (sint rf))) [0..<m])"
  using assms(2,4)
proof (induction m arbitrary: st)
  case 0
  then show ?case by simp
next
  case (Suc m)
  have "[0..<Suc m] = 0 # map Suc [0..<m]"
    by (simp add: upt_conv_Cons map_Suc_upt del: upt_Suc)
  then show ?case
    using Suc select_eq [OF assms(1) Suc.prems(1) assms(3) Suc.prems(2)]
    by (simp add: o_def ac_simps del: upt_Suc)
qed

section \<open>The specification: a map from identifiers to endpoints\<close>

definition registry_view :: "CoordinatorServiceImpl \<Rightarrow> int32 \<Rightarrow> endpoint option" where
  "registry_view st i = map_option info_endpoint (map_of (registered_nodes st) i)"

datatype registry_op = Register string int32 | Unregister int32

text \<open>The answer of an operation: its status and the identifier handed out, if any.\<close>

fun registry_step ::
  "(node_registry \<Rightarrow> node_registry) \<Rightarrow> registry_op \<Rightarrow> CoordinatorServiceImpl
    \<Rightarrow> (Status \<times> int32 option) \<times> CoordinatorServiceImpl" where
  "registry_step h (Register peer port) st =
     (case RegisterDataNode h peer port st of
        ((status, resp), st') \<Rightarrow> ((status, if rdr_success resp then Some (rdr_node_id resp) else None), st'))"
| "registry_step h (Unregister i) st =
     (case UnregisterDataNode i st of ((status, resp), st') \<Rightarrow> ((status, None), st'))"

fun registry_run ::
  "(node_registry \<Rightarrow> node_registry) \<Rightarrow> registry_op list \<Rightarrow> CoordinatorServiceImpl
    \<Rightarrow> (Status \<times> int32 option) list \<times> CoordinatorServiceImpl" where
  "registry_run h [] st = ([], st)"
| "registry_run h (x # xs) st =
     (let (r, st1) = registry_step h x st; (rs, st2) = registry_run h xs st1 in (r # rs, st2))"

text \<open>The specification numbers the nodes 1, 2, 3, \<dots> and never reuses a number.\<close>

type_synonym registry_spec = "nat \<times> (int32 \<rightharpoonup> endpoint)"

fun registry_spec_step :: "registry_op \<Rightarrow> registry_spec \<Rightarrow> (Status \<times> int32 option) \<times> registry_spec" where
  "registry_spec_step (Register peer port) (k, m) =
     (if (extractClientAddress peer, port) \<in> ran m then ((status_OK, None), (k, m))
      else ((status_OK, Some (of_nat (k + 1))),
            (k + 1, m(of_nat (k + 1) \<mapsto> (extractClientAddress peer, port)))))"
| "registry_spec_step (Unregister i) (k, m) =
     ((if m i = None then Status NOT_FOUND ''Node not found'' else status_OK, None), (k, m(i := None)))"

fun registry_spec_run ::
  "registry_op list \<Rightarrow> registry_spec \<Rightarrow> (Status \<times> int32 option) list \<times> registry_spec" where
  "registry_spec_run [] s = ([], s)"
| "registry_spec_run (x # xs) s =
     (let (r, s1) = registry_spec_step x s; (rs, s2) = registry_spec_run xs s1 in (r # rs, s2))"

definition registry_rel :: "CoordinatorServiceImpl \<Rightarrow> registry_spec \<Rightarrow> bool" where
  "registry_rel st s \<longleftrightarrow> registry_inv (fst s) st \<and> registry_view st = snd s"

lemma ran_registry_view:
  assumes "distinct (map fst (registered_nodes st))"
  shows "ran (registry_view st) = (info_endpoint \<circ> snd) ` set (registered_nodes st)"
proof -
  have "ran (registry_view st) = info_endpoint ` ran (map_of (registered_nodes st))"
    unfolding registry_view_def ran_def by force
  then show ?thesis by (simp add: ran_distinct [OF assms] image_image)
qed

lemma registry_step_refines:
  assumes "registry_rel st s" "iterates_all h" "fst s < 2 ^ 32 - 1"
  shows "fst (registry_step h x st) = fst (registry_spec_step x s)
    \<and> registry_rel (snd (registry_step h x st)) (snd (registry_spec_step x s))"
proof (cases x)
  case (Register peer port)
  obtain k m where s: "s = (k, m)" by (cases s)
  have inv: "registry_inv k st" and m: "m = registry_view st" and k: "k < 2 ^ 32 - 1"
    using assms by (auto simp: registry_rel_def s)
  have d: "distinct (map fst (registered_nodes st))" and nx: "next_node_id st = of_nat (k + 1)"
    using inv by (simp_all add: registry_inv_def)
  note ran = ran_registry_view [OF d]
  note I = registry_inv_Register [OF inv assms(2) k, of peer port]
  from assms(2) show ?thesis
  proof (cases rule: RegisterDataNode_cases [where st = st and peer = peer and port = port])
    case (conflict i info)
    then have "(extractClientAddress peer, port) \<in> ran m"
      unfolding m ran by (metis comp_apply image_eqI snd_conv)
    then show ?thesis using conflict(3) assms(1) by (simp add: Register s)
  next
    case fresh
    then have "(extractClientAddress peer, port) \<notin> ran m" unfolding m ran by blast
    moreover have "registry_view (snd (RegisterDataNode h peer port st))
        = m(of_nat (k + 1) \<mapsto> (extractClientAddress peer, port))"
      using fresh(2) nx by (auto simp: registry_view_def m info_endpoint_def fun_eq_iff)
    ultimately show ?thesis using fresh(2) I nx by (simp add: Register s registry_rel_def)
  qed
next
  case (Unregister i)
  obtain k m where s: "s = (k, m)" by (cases s)
  have "registry_view (snd (UnregisterDataNode i st)) = (registry_view st)(i := None)"
    by (auto simp: registry_view_def UnregisterDataNode_def fun_eq_iff split: option.splits)
  moreover have "fst (fst (UnregisterDataNode i st))
      = (if registry_view st i = None then Status NOT_FOUND ''Node not found'' else status_OK)"
    by (auto simp: registry_view_def UnregisterDataNode_def split: option.splits)
  ultimately show ?thesis
    using assms(1) registry_inv_Unregister [of k st i]
    by (auto simp: Unregister s registry_rel_def split: prod.splits)
qed

lemma registry_spec_step_count: "fst (snd (registry_spec_step x s)) \<le> fst s + 1"
  by (cases x; cases s) simp_all

lemma registry_run_refines:
  assumes "registry_rel st s" "iterates_all h" "fst s + length xs < 2 ^ 32"
  shows "fst (registry_run h xs st) = fst (registry_spec_run xs s)
    \<and> registry_rel (snd (registry_run h xs st)) (snd (registry_spec_run xs s))"
  using assms(1,3)
proof (induction xs arbitrary: st s)
  case Nil
  then show ?case by simp
next
  case (Cons x xs)
  have "fst s < 2 ^ 32 - 1" using Cons.prems(2) by simp
  note step = registry_step_refines [OF Cons.prems(1) assms(2) this, of x]
  have "fst (snd (registry_spec_step x s)) + length xs < 2 ^ 32"
    using registry_spec_step_count [of x s] Cons.prems(2) by simp
  note rest = Cons.IH [OF conjunct2 [OF step] this]
  show ?case using step rest by (simp add: split_beta Let_def)
qed

section \<open>Properties\<close>

text \<open>C22. The registry refines a map from identifiers to endpoints. For every order in which the
  hash table is walked and every sequence of fewer than \<open>2^32\<close> registrations and unregistrations
  from a fresh coordinator: a registration succeeds exactly when no registered node has that
  address and port and is answered OK either way, successful ones are numbered 1, 2, 3, \<dots> without
  reuse, an unregistration of an unknown identifier is NOT_FOUND, and no two registered nodes
  ever share an endpoint.\<close>

theorem registry_refines_map:
  assumes "iterates_all hash_order" "length xs < 2 ^ 32"
  shows "fst (registry_run hash_order xs new_CoordinatorServiceImpl)
           = fst (registry_spec_run xs (0, Map.empty))
     \<and> registry_view (snd (registry_run hash_order xs new_CoordinatorServiceImpl))
           = snd (snd (registry_spec_run xs (0, Map.empty)))
     \<and> distinct (map (info_endpoint \<circ> snd)
           (registered_nodes (snd (registry_run hash_order xs new_CoordinatorServiceImpl))))"
proof -
  have "registry_rel new_CoordinatorServiceImpl (0, Map.empty)"
    using registry_inv_new
    by (auto simp: registry_rel_def registry_view_def new_CoordinatorServiceImpl_def fun_eq_iff)
  from registry_run_refines [OF this assms(1), of xs] assms(2) show ?thesis
    by (simp add: registry_rel_def registry_inv_def)
qed

theorem registry_refines_map_witness:
  "fst (registry_run rev [Register ''ipv4:10.0.0.1:5000'' 9000, Register ''ipv4:10.0.0.1:5001'' 9000,
      Unregister 1, Register ''ipv4:10.0.0.1:5002'' 9000, Unregister 1] new_CoordinatorServiceImpl)
   = [(status_OK, Some 1), (status_OK, None), (status_OK, None), (status_OK, Some 2),
      (Status NOT_FOUND ''Node not found'', None)]"
  using registry_refines_map [OF iterates_all_id(2),
      of "[Register ''ipv4:10.0.0.1:5000'' 9000, Register ''ipv4:10.0.0.1:5001'' 9000,
        Unregister 1, Register ''ipv4:10.0.0.1:5002'' 9000, Unregister 1]"]
  by (simp add: extractClientAddress_def rfind_char_def find_char_def)

text \<open>The address the registry keeps is the one that reaches the node: for a peer string that
  the host part and a port number make, the host part comes back, and the same holds for every
  target the coordinator dials, so a node that answers at the address it registered from is found
  again there.\<close>

theorem extract_address_roundtrip:
  "extractClientAddress (host @ '':'' @ to_string n) = host
   \<and> extractClientAddress (node_target host port) = host"
proof -
  have "CHR '':'' \<notin> set (to_string z)" for z
    using digits_all_digit [of "CHR '':''"] by (auto simp: to_string_def is_digit_def)
  then show ?thesis
    by (simp add: extractClientAddress_def node_target_def rfind_char_append)
qed

text \<open>C24. One selection is balanced: with registered nodes and a positive replication factor that
  together make at most \<open>2^31\<close>, so that \<open>start_index + i\<close> fits \<open>int32_t\<close>, it is defined and
  returns exactly that many registered identifiers, all different when there are enough nodes,
  each registered node as often as any other up to one, and only the round-robin counter of the
  coordinator changes.\<close>

theorem selection_balanced:
  assumes "registry_inv k st" "iterates_all hash_order" "registered_nodes st \<noteq> []" "0 < sint rf"
    and "int (length (registered_nodes st)) + sint rf \<le> 2 ^ 31"
  defines "n \<equiv> length (registered_nodes st)"
  shows "\<exists>ids. selectNodesForReplication hash_order rf st
           = Some (ids, st\<lparr>next_node_index := next_node_index st + 1\<rparr>)
     \<and> int (length ids) = sint rf
     \<and> (\<forall>i \<in> set ids. map_of (registered_nodes st) i \<noteq> None)
     \<and> (sint rf \<le> int n \<longrightarrow> distinct ids)
     \<and> (\<forall>i. map_of (registered_nodes st) i \<noteq> None \<longrightarrow>
          nat (sint rf) div n \<le> count (mset ids) i \<and> count (mset ids) i \<le> nat (sint rf) div n + 1)"
proof -
  define nodes where "nodes = map fst (hash_order (registered_nodes st))"
  have len: "length nodes = n" and set: "set nodes = fst ` set (registered_nodes st)"
    using iterates_all_length [OF assms(2)] iterates_all_set [OF assms(2)]
    by (simp_all add: nodes_def n_def)
  have "distinct (map fst (registered_nodes st))" using assms(1) by (simp add: registry_inv_def)
  then have d: "distinct nodes"
    using mset_eq_imp_distinct_iff [OF iterates_all_keys [OF assms(2), of "registered_nodes st"]]
    by (simp add: nodes_def)
  define ids where "ids = ring_picks nodes (unat (next_node_index st) mod n) (nat (sint rf))"
  have eq: "selectNodesForReplication hash_order rf st
      = Some (ids, st\<lparr>next_node_index := next_node_index st + 1\<rparr>)"
    using select_eq [OF assms(2-5)] by (simp add: ids_def nodes_def n_def)
  have "distinct ids" if "sint rf \<le> int n"
    using that d len by (simp add: ids_def ring_picks_take)
  moreover have "\<forall>i. map_of (registered_nodes st) i \<noteq> None \<longleftrightarrow> i \<in> set nodes"
    by (simp add: set map_of_eq_None_iff)
  moreover have "set ids \<subseteq> set nodes"
    using select_members(1) [OF assms(2) eq] by (simp add: set)
  ultimately show ?thesis
    using ring_picks_balanced [OF d, of _ "nat (sint rf)"] assms(4) eq len
    by (intro exI [of _ ids]) (auto simp: ids_def)
qed

text \<open>Three nodes, for the examples.\<close>

definition three_nodes :: CoordinatorServiceImpl where
  "three_nodes = new_CoordinatorServiceImpl
    \<lparr>registered_nodes :=
       [(1, \<lparr>info_node_id = 1, info_address = ''ipv4:10.0.0.1'', info_port = 9000\<rparr>),
        (2, \<lparr>info_node_id = 2, info_address = ''ipv4:10.0.0.2'', info_port = 9000\<rparr>),
        (3, \<lparr>info_node_id = 3, info_address = ''ipv4:10.0.0.3'', info_port = 9000\<rparr>)],
     next_node_id := 4\<rparr>"

lemma three_nodes_inv: "registry_inv 3 three_nodes"
proof -
  have "{1..3::nat} = {1, 2, 3}" by auto
  then show ?thesis by (simp add: registry_inv_def three_nodes_def info_endpoint_def)
qed

theorem selection_balanced_witness:
  "\<exists>ids st'. selectNodesForReplication rev 3 three_nodes = Some (ids, st') \<and> distinct ids \<and> length ids = 3"
  using selection_balanced [OF three_nodes_inv iterates_all_id(2), of 3]
  by (auto simp: three_nodes_def)

text \<open>The bound is sharp: one node and the largest replication factor reach \<open>2^31\<close>, one more
  pick overflows.\<close>

lemma pick_overflow:
  "pick_index 0 1 1 (2 ^ 31 - 1) = Some 0" "pick_index 0 1 1 (2 ^ 31) = None"
  "pick_index (2 ^ 31 - 2) (2 ^ 31 - 1) (2 ^ 31 - 1) 2 = None"
  by (simp_all add: pick_index_def signed_divide_int_def signed_modulo_int_def)

text \<open>C25. Placement is fair over time: while the registry does not change, the 32-bit counter does
  not wrap, and the number of nodes and the replication factor together are at most \<open>2^31\<close> (so
  that \<open>start_index + i\<close> fits \<open>int32_t\<close>), every selection is defined and the next \<open>n\<close> selections over \<open>n\<close> nodes put every node at every replica
  position exactly once.\<close>

theorem round_robin_fair:
  assumes "iterates_all hash_order" "registered_nodes st \<noteq> []" "int i < sint rf"
    and "unat (next_node_index st) + length (registered_nodes st) \<le> 2 ^ 32"
    and "int (length (registered_nodes st)) + sint rf \<le> 2 ^ 31"
  shows "map_option (\<lambda>rounds. mset (map (\<lambda>ids. ids ! i) rounds))
       (select_calls hash_order rf (length (registered_nodes st)) st)
     = Some (mset (map fst (registered_nodes st)))"
proof -
  define nodes where "nodes = map fst (hash_order (registered_nodes st))"
  define c where "c = unat (next_node_index st)"
  have len: "length (registered_nodes st) = length nodes"
    using iterates_all_length [OF assms(1)] by (simp add: nodes_def)
  have "unat (next_node_index st + of_nat k) = c + k" if "k < length nodes" for k
    using that assms(4) len unfolding c_def
    by (simp add: unat_plus_if' unsigned_of_nat take_bit_nat_eq_self)
  moreover have "((c + k) mod length nodes + i) mod length nodes = (c + k + i) mod length nodes" for k
    by (rule mod_add_left_eq)
  ultimately have "map_option (map (\<lambda>ids. ids ! i)) (select_calls hash_order rf (length nodes) st)
      = Some (map (\<lambda>k. nodes ! ((c + k + i) mod length nodes)) [0..<length nodes])"
    using assms(3) by (simp add: select_calls_eq [OF assms(1,2) _ assms(5)] ring_picks_nth len flip: nodes_def)
  then have "map_option (\<lambda>rounds. mset (map (\<lambda>ids. ids ! i) rounds)) (select_calls hash_order rf (length nodes) st)
      = Some (mset (map (\<lambda>k. nodes ! ((c + k + i) mod length nodes)) [0..<length nodes]))"
    by (metis (no_types, lifting) option.map_sel option.simps(8) option.simps(9) map_option_eq_Some)
  then show ?thesis
    using iterates_all_keys [OF assms(1), of "registered_nodes st"]
    by (simp add: ring_column len mset_rotate flip: nodes_def)
qed

theorem round_robin_fair_witness:
  "map_option (\<lambda>rounds. mset (map (\<lambda>ids. ids ! 2) rounds)) (select_calls rev 3 3 three_nodes)
    = Some {#1, 2, 3#}"
proof -
  have "length (registered_nodes three_nodes) = 3" "registered_nodes three_nodes \<noteq> []"
      "next_node_index three_nodes = 0" "map fst (registered_nodes three_nodes) = [1, 2, 3]"
    by (simp_all add: three_nodes_def new_CoordinatorServiceImpl_def)
  then show ?thesis
    using round_robin_fair [OF iterates_all_id(2), of three_nodes 2 3] by simp
qed

text \<open>The bound is sharp: when the counter wraps, two neighbouring selections start alike.\<close>

lemma round_robin_wrap:
  "select_calls (\<lambda>al. al) 3 2 (three_nodes\<lparr>next_node_index := 4294967295\<rparr>)
    = Some [[1, 2, 3], [1, 2, 3]]"
proof -
  define st where "st = three_nodes\<lparr>next_node_index := 4294967295\<rparr>"
  have st: "registered_nodes st \<noteq> []" "map fst (registered_nodes st) = [1, 2, 3]"
      "length (registered_nodes st) = 3" "next_node_index st = 4294967295"
    by (simp_all add: st_def three_nodes_def)
  show ?thesis unfolding st_def [symmetric]
    by (simp add: select_calls_eq [OF iterates_all_id(1) st(1)] st ring_picks_def upt_rec)
qed

end
