(* ===== verification/Cluster.thy ===== *)
theory Cluster
  imports Datanode_Stub
begin

text \<open>
  The data nodes behind the transport. A server is a \<open>DataNodeServiceImpl\<close> with its
  configuration, on a host whose disk it may share with other servers. gRPC is
  the environment: the fate of the \<open>i\<close>-th call is given by an arbitrary function,
  so a theorem about a cluster holds for every pattern of failures. A call is
  delivered and answered, never reaches the server, or reaches it and the reply
  is lost, after \<open>k\<close> messages of a response stream.

  The interpretation at the end shows that \<open>DataNodeStubWrapper\<close> over this
  transport and the handlers of \<open>Datanode_Service\<close> meet the contract
  \<open>chunk_nodes\<close>.
\<close>

section \<open>The transport\<close>

datatype call_fate = Delivered | Unreachable Status | Reply_Lost nat Status

text \<open>
  \<open>unavailable\<close> is what a call to a target without a server reports, \<open>uncaught\<close>
  what gRPC answers when a handler throws, \<open>c_strerror\<close> is \<open>std::strerror\<close>.
\<close>

record cluster =
  hosts :: "string \<Rightarrow> filesystem"
  servers :: "(string \<times> (string \<times> DataNodeConfig)) list"
  calls :: nat
  fates :: "nat \<Rightarrow> string \<Rightarrow> call_fate"
  unavailable :: Status
  uncaught :: Status
  c_strerror :: "errno \<Rightarrow> string"

definition dispatch ::
  "string \<Rightarrow> (DataNodeConfig \<Rightarrow> filesystem \<Rightarrow> (cpp_exception + 'r) \<times> filesystem) \<Rightarrow> cluster
    \<Rightarrow> (Status + 'r) \<times> cluster" where
  "dispatch target handler w =
    (case map_of (servers w) target of
       None \<Rightarrow> (Inl (unavailable w), w)
     | Some (host, config) \<Rightarrow>
         (let (r, fs') = handler config (hosts w host)
          in (case r of Inl ex \<Rightarrow> Inl (uncaught w) | Inr x \<Rightarrow> Inr x,
              w\<lparr>hosts := (hosts w)(host := fs')\<rparr>)))"

definition tick :: "cluster \<Rightarrow> cluster" where
  "tick w = w\<lparr>calls := calls w + 1\<rparr>"

definition call_PutChunk ::
  "string \<Rightarrow> PutChunkRequest list \<Rightarrow> cluster \<Rightarrow> (nat \<times> Status \<times> PutChunkResponse) \<times> cluster" where
  "call_PutChunk target reqs w =
    (case fates w (calls w) target of
       Unreachable st \<Rightarrow> ((0, st, empty_PutChunkResponse), tick w)
     | Delivered \<Rightarrow>
         (case dispatch target (\<lambda>config. PutChunk_handler config reqs) (tick w) of
            (Inl st, w') \<Rightarrow> ((length reqs, st, empty_PutChunkResponse), w')
          | (Inr (st, resp), w') \<Rightarrow> ((length reqs, st, resp), w'))
     | Reply_Lost k st \<Rightarrow>
         ((length reqs, st, empty_PutChunkResponse),
          snd (dispatch target (\<lambda>config. PutChunk_handler config reqs) (tick w))))"

definition call_GetChunk ::
  "string \<Rightarrow> GetChunkRequest \<Rightarrow> cluster \<Rightarrow> (GetChunkResponse list \<times> Status) \<times> cluster" where
  "call_GetChunk target req w =
    (case fates w (calls w) target of
       Unreachable st \<Rightarrow> (([], st), tick w)
     | Delivered \<Rightarrow>
         (case dispatch target (\<lambda>config. GetChunk_handler config req (\<lambda>_. True)) (tick w) of
            (Inl st, w') \<Rightarrow> (([], st), w')
          | (Inr (st, resps), w') \<Rightarrow> ((resps, st), w'))
     | Reply_Lost k st \<Rightarrow>
         (case dispatch target (\<lambda>config. GetChunk_handler config req (\<lambda>i. i < k)) (tick w) of
            (Inl _, w') \<Rightarrow> (([], st), w')
          | (Inr (_, resps), w') \<Rightarrow> ((resps, st), w')))"

definition call_DeleteChunk ::
  "string \<Rightarrow> DeleteChunkRequest \<Rightarrow> cluster \<Rightarrow> (Status \<times> DeleteChunkResponse) \<times> cluster" where
  "call_DeleteChunk target req w =
    (case fates w (calls w) target of
       Unreachable st \<Rightarrow> ((st, empty_DeleteChunkResponse), tick w)
     | Delivered \<Rightarrow>
         (case dispatch target (\<lambda>config. DeleteChunk_handler (c_strerror w) config req) (tick w) of
            (Inl st, w') \<Rightarrow> ((st, empty_DeleteChunkResponse), w')
          | (Inr (st, resp), w') \<Rightarrow> ((st, resp), w'))
     | Reply_Lost k st \<Rightarrow>
         ((st, empty_DeleteChunkResponse),
          snd (dispatch target (\<lambda>config. DeleteChunk_handler (c_strerror w) config req) (tick w))))"

definition network_stub :: "string \<Rightarrow> cluster DataNodeStub" where
  "network_stub target =
    \<lparr>rpc_PutChunk = call_PutChunk target, rpc_GetChunk = call_GetChunk target,
     rpc_DeleteChunk = call_DeleteChunk target\<rparr>"

section \<open>Contents and health\<close>

definition stored_chunk :: "cluster \<Rightarrow> endpoint \<Rightarrow> string \<Rightarrow> bytes option" where
  "stored_chunk w e cid =
    (case map_of (servers w) (node_target (fst e) (snd e)) of
       None \<Rightarrow> None
     | Some (host, config) \<Rightarrow>
         (case fst (get_chunk_path cid config (hosts w host)) of
            Inl ex \<Rightarrow> None
          | Inr path \<Rightarrow> file_content (hosts w host) path))"

definition valid_chunk :: "string \<Rightarrow> bool" where
  "valid_chunk cid \<longleftrightarrow> (\<exists>n < 2 ^ 31. cid = chunk_name n)"

definition honest :: "call_fate \<Rightarrow> bool" where
  "honest f = (case f of Delivered \<Rightarrow> True | Unreachable st \<Rightarrow> \<not> status_ok st
     | Reply_Lost k st \<Rightarrow> \<not> status_ok st)"

text \<open>
  A tidy cluster: on the disks the names that end in \<open>.cfile\<close> are those of files, no
  configured base directory has such a name on its path, and no failed call reports OK. Its
  disks may have faults and may run full. \<open>disks_have_room\<close> says that
  they never do, and \<open>disk_keeps\<close> what the disk of a node keeps of the data written to a chunk.
\<close>

definition cluster_tidy :: "cluster \<Rightarrow> bool" where
  "cluster_tidy w \<longleftrightarrow>
     (\<forall>h. fs_tidy (hosts w h)) \<and> list_all (\<lambda>(t, h, c). config_tidy c) (servers w) \<and>
     (\<forall>n t. honest (fates w n t)) \<and> \<not> status_ok (unavailable w) \<and> \<not> status_ok (uncaught w)"

definition disks_have_room :: "cluster \<Rightarrow> bool" where
  "disks_have_room w \<longleftrightarrow> (\<forall>h. fs_quota (hosts w h) = (\<lambda>_. None))"

definition cluster_sound :: "cluster \<Rightarrow> bool" where
  "cluster_sound w \<longleftrightarrow> cluster_tidy w \<and> disks_have_room w"

definition disk_keeps :: "cluster \<Rightarrow> endpoint \<Rightarrow> string \<Rightarrow> bytes \<Rightarrow> bytes" where
  "disk_keeps w e cid d =
    (case map_of (servers w) (node_target (fst e) (snd e)) of
       None \<Rightarrow> d
     | Some (host, config) \<Rightarrow>
         (case fst (get_chunk_path cid config (hosts w host)) of
            Inl ex \<Rightarrow> d
          | Inr path \<Rightarrow> quota_take (hosts w host) path d))"

text \<open>The servers and the disks' capacities do not change while the system runs.\<close>

definition same_disks :: "cluster \<Rightarrow> cluster \<Rightarrow> bool" where
  "same_disks w0 w \<longleftrightarrow> cluster_tidy w \<and> servers w = servers w0 \<and>
     (\<forall>h. fs_quota (hosts w h) = fs_quota (hosts w0 h))"

definition node_live :: "cluster \<Rightarrow> endpoint \<Rightarrow> bool" where
  "node_live w e \<longleftrightarrow>
     (case map_of (servers w) (node_target (fst e) (snd e)) of
        None \<Rightarrow> False
      | Some (host, config) \<Rightarrow> fs_healthy (hosts w host)) \<and>
     (\<forall>n \<ge> calls w. fates w n (node_target (fst e) (snd e)) = Delivered)"

section \<open>Effect of a call\<close>

lemma tick_simps [simp]:
  "hosts (tick w) = hosts w" "servers (tick w) = servers w" "fates (tick w) = fates w"
  "calls (tick w) = calls w + 1" "unavailable (tick w) = unavailable w"
  "uncaught (tick w) = uncaught w" "c_strerror (tick w) = c_strerror w"
  by (simp_all add: tick_def)

text \<open>
  \<open>host_effect R target w w'\<close>: one more call was made, and if a server answers at
  the target then its host's disk changed as \<open>R\<close> says.
\<close>

definition host_effect ::
  "(DataNodeConfig \<Rightarrow> filesystem \<Rightarrow> filesystem \<Rightarrow> bool) \<Rightarrow> string \<Rightarrow> cluster \<Rightarrow> cluster \<Rightarrow> bool" where
  "host_effect R target w w' \<longleftrightarrow>
     servers w' = servers w \<and> fates w' = fates w \<and> calls w' = calls w + 1 \<and>
     unavailable w' = unavailable w \<and> uncaught w' = uncaught w \<and>
     (hosts w' = hosts w \<or>
      (\<exists>host config fs'. map_of (servers w) target = Some (host, config) \<and>
         hosts w' = (hosts w)(host := fs') \<and> R config (hosts w host) fs'))"

lemma host_effect_tick [simp]: "host_effect R target w (tick w)"
  by (simp add: host_effect_def)

lemma host_effect_mono: "host_effect R t w w' \<Longrightarrow> (\<And>c fs fs'. R c fs fs' \<Longrightarrow> S c fs fs') \<Longrightarrow> host_effect S t w w'"
  unfolding host_effect_def by blast

lemma cluster_tidy_host: "cluster_tidy w \<Longrightarrow> fs_tidy (hosts w h)"
  by (simp add: cluster_tidy_def)

lemma cluster_tidy_config:
  "cluster_tidy w \<Longrightarrow> map_of (servers w) t = Some (h, c) \<Longrightarrow> config_tidy c"
  by (auto simp: cluster_tidy_def list_all_iff dest: map_of_SomeD)

lemma host_effect_sound:
  assumes "host_effect R t w w'" "\<And>c fs fs'. R c fs fs' \<Longrightarrow> fs_stable fs fs'" "cluster_tidy w"
  shows "cluster_tidy w'"
  using assms by (auto simp: host_effect_def cluster_tidy_def fs_stable_def)

lemma host_effect_same_disks:
  assumes "host_effect R t w w'" "\<And>c fs fs'. R c fs fs' \<Longrightarrow> fs_stable fs fs'" "same_disks w0 w"
  shows "same_disks w0 w'"
  using assms host_effect_sound [OF assms(1,2)] by (auto simp: host_effect_def same_disks_def fs_stable_def)

lemma same_disks_room: "same_disks w w' \<Longrightarrow> cluster_sound w \<Longrightarrow> cluster_sound w'"
  by (simp add: same_disks_def cluster_sound_def disks_have_room_def)

lemma same_disks_refl: "cluster_tidy w \<Longrightarrow> same_disks w w"
  by (simp add: same_disks_def)

lemma host_effect_live:
  assumes "host_effect R t w w'" "\<And>c fs fs'. R c fs fs' \<Longrightarrow> fs_stable fs fs'" "node_live w e"
  shows "node_live w' e"
  using assms by (auto simp: host_effect_def node_live_def fs_stable_def fs_healthy_def split: option.splits)

lemma stored_chunk_name:
  assumes "n < 2 ^ 31"
  shows "stored_chunk w e (chunk_name n) =
    (case map_of (servers w) (node_target (fst e) (snd e)) of
       None \<Rightarrow> None | Some (host, config) \<Rightarrow> file_content (hosts w host) (chunk_file config n))"
  using assms by (auto simp: stored_chunk_def get_chunk_path_chunk_name split: option.splits)

lemma disk_keeps_name:
  assumes "n < 2 ^ 31"
  shows "disk_keeps w e (chunk_name n) d =
    (case map_of (servers w) (node_target (fst e) (snd e)) of
       None \<Rightarrow> d | Some (host, config) \<Rightarrow> quota_take (hosts w host) (chunk_file config n) d)"
  using assms by (auto simp: disk_keeps_def get_chunk_path_chunk_name split: option.splits)

lemma disk_keeps_same: "same_disks w0 w \<Longrightarrow> n < 2 ^ 31 \<Longrightarrow> disk_keeps w e (chunk_name n) d = disk_keeps w0 e (chunk_name n) d"
  by (auto simp: disk_keeps_name same_disks_def quota_take_def split: option.splits)

lemma disk_keeps_prefix: "\<exists>k. disk_keeps w e c d = take k d"
  by (auto simp: disk_keeps_def quota_take_def intro: exI [of _ "length d"] split: option.split sum.split)

lemma disk_keeps_room: "disks_have_room w \<Longrightarrow> disk_keeps w e c d = d"
  by (simp add: disk_keeps_def disks_have_room_def quota_take_def split: option.split sum.split)

text \<open>
  What a relation between disks means for the contents of a chunk, whose new content may depend
  on the disk it is written to.
\<close>

definition chunk_may_become ::
  "nat \<Rightarrow> (filesystem \<Rightarrow> string \<Rightarrow> bytes option) \<Rightarrow> DataNodeConfig \<Rightarrow> filesystem \<Rightarrow> filesystem \<Rightarrow> bool" where
  "chunk_may_become n x config fs fs' \<longleftrightarrow> fs_stable fs fs' \<and>
     (fs_kept fs fs' \<or> file_content fs' = (file_content fs)(chunk_file config n := x fs (chunk_file config n)))"

lemma host_effect_stored:
  assumes "host_effect (chunk_may_become n x) t w w'" "m < 2 ^ 31"
  shows "stored_chunk w' e (chunk_name m) = stored_chunk w e (chunk_name m) \<or>
    (m = n \<and> (\<exists>host config. map_of (servers w) (node_target (fst e) (snd e)) = Some (host, config) \<and>
       stored_chunk w' e (chunk_name m) = x (hosts w host) (chunk_file config n)))"
proof -
  consider "hosts w' = hosts w" | host config fs' where
      "map_of (servers w) t = Some (host, config)" "hosts w' = (hosts w)(host := fs')"
      "chunk_may_become n x config (hosts w host) fs'"
    using assms(1) unfolding host_effect_def by blast
  then show ?thesis
  proof cases
    case 1
    then show ?thesis
      using assms(1) by (auto simp: stored_chunk_name [OF assms(2)] host_effect_def split: option.splits)
  next
    case 2
    have s: "servers w' = servers w" using assms(1) by (simp add: host_effect_def)
    show ?thesis
      using 2(2,3) s chunk_file_inject [of _ m config n]
      by (fastforce simp: stored_chunk_name [OF assms(2)] chunk_may_become_def fs_kept_def
          split: option.splits if_splits)
  qed
qed

lemma dispatch_effect:
  assumes "\<And>h c. map_of (servers w) t = Some (h, c) \<Longrightarrow> R c (hosts w h) (snd (handler c (hosts w h)))"
  shows "host_effect R t w (snd (dispatch t handler (tick w)))"
  using assms by (auto simp: dispatch_def host_effect_def split: option.splits prod.splits)

subsection \<open>PutChunk through the wrapper\<close>

abbreviation put_req :: "string \<Rightarrow> bytes \<Rightarrow> PutChunkRequest" where
  "put_req c d \<equiv> empty_PutChunkRequest\<lparr>pcr_chunk_id := c, pcr_data := d\<rparr>"

abbreviation (input) kept_data :: "bytes \<Rightarrow> filesystem \<Rightarrow> string \<Rightarrow> bytes option" where
  "kept_data d \<equiv> \<lambda>fs path. Some (quota_take fs path d)"

lemma client_Put:
  "PutChunk (CreateClient network_stub a p) c d w =
    (let ((k, st, r), w') = call_PutChunk (node_target a p) [put_req c d] w in (st, w'))"
  by (simp add: CreateClient_def DataNodeStubWrapper_def wrapper_PutChunk_eq network_stub_def Let_def)

lemma put_handler:
  assumes "cluster_tidy w" "n < 2 ^ 31" "map_of (servers w) t = Some (h, config)"
  obtains r fs' where "PutChunk_handler config [put_req (chunk_name n) d] (hosts w h) = (Inr r, fs')"
    "chunk_may_become n (kept_data d) config (hosts w h) fs'"
    "status_ok (fst r) \<Longrightarrow> file_content fs' (chunk_file config n) = Some (quota_take (hosts w h) (chunk_file config n) d)"
    "fs_healthy (hosts w h) \<Longrightarrow> status_ok (fst r)"
proof -
  have "pcr_chunk_id (put_req (chunk_name n) d) = chunk_name n" by simp
  from PutChunk_handler_effect [OF this assms(2) cluster_tidy_config [OF assms(1,3)], of "hosts w h"]
  obtain r fs' where "PutChunk_handler config [put_req (chunk_name n) d] (hosts w h) = (Inr r, fs')"
    "fs_stable (hosts w h) fs'"
    "if status_ok (fst r) then file_content fs' = (file_content (hosts w h))(chunk_file config n \<mapsto>
       quota_take (hosts w h) (chunk_file config n) d) else fs_kept (hosts w h) fs'"
    "fs_healthy (hosts w h) \<Longrightarrow> status_ok (fst r)"
    using cluster_tidy_host [OF assms(1)] by (auto simp: empty_PutChunkRequest_def)
  then show thesis
    by (intro that) (auto simp: chunk_may_become_def split: if_splits)
qed

lemma put_host_effect:
  assumes "cluster_tidy w" "n < 2 ^ 31"
  shows "host_effect (chunk_may_become n (kept_data d)) (node_target a p) w
    (snd (PutChunk (CreateClient network_stub a p) (chunk_name n) d w))"
proof -
  have "chunk_may_become n (kept_data d) c (hosts w h)
      (snd (PutChunk_handler c [put_req (chunk_name n) d] (hosts w h)))"
    if "map_of (servers w) (node_target a p) = Some (h, c)" for h c
    using put_handler [OF assms that, of d] by (metis snd_conv)
  from dispatch_effect [of w "node_target a p" "chunk_may_become n (kept_data d)",
      where handler = "\<lambda>c. PutChunk_handler c [put_req (chunk_name n) d]", OF this]
  show ?thesis
    by (auto simp: client_Put call_PutChunk_def Let_def split: call_fate.splits sum.splits prod.splits)
qed

lemma put_delivered:
  assumes "cluster_tidy w" "n < 2 ^ 31"
    and res_def: "res = PutChunk (CreateClient network_stub a p) (chunk_name n) d w"
  shows "status_ok (fst res) \<Longrightarrow> stored_chunk (snd res) (a, p) (chunk_name n) = Some (disk_keeps w (a, p) (chunk_name n) d)"
    and "node_live w (a, p) \<Longrightarrow> status_ok (fst res)"
proof -
  have bad: "fates w (calls w) (node_target a p) \<noteq> Delivered \<Longrightarrow> \<not> status_ok (fst res)"
    using assms(1)
    by (auto simp: res_def client_Put call_PutChunk_def cluster_tidy_def Let_def split: call_fate.splits)
      (metis (no_types, lifting) call_fate.simps(10,11) honest_def)+
  show "status_ok (fst res) \<Longrightarrow> stored_chunk (snd res) (a, p) (chunk_name n) = Some (disk_keeps w (a, p) (chunk_name n) d)"
  proof -
    assume ok: "status_ok (fst res)"
    then have del: "fates w (calls w) (node_target a p) = Delivered" using bad by blast
    show ?thesis
    proof (cases "map_of (servers w) (node_target a p)")
      case None
      then show ?thesis
        using ok del assms(1)
        by (simp add: res_def client_Put call_PutChunk_def dispatch_def cluster_tidy_def)
    next
      case (Some hc)
      obtain h c where hc: "hc = (h, c)" by (cases hc)
      note s = Some [unfolded hc]
      obtain r fs' where r: "PutChunk_handler c [put_req (chunk_name n) d] (hosts w h) = (Inr r, fs')"
        "status_ok (fst r) \<Longrightarrow> file_content fs' (chunk_file c n) = Some (quota_take (hosts w h) (chunk_file c n) d)"
        using put_handler [OF assms(1,2) s, of d] by metis
      have "res = (fst r, (tick w)\<lparr>hosts := (hosts w)(h := fs')\<rparr>)"
        using del s r(1) by (cases r) (simp add: res_def client_Put call_PutChunk_def dispatch_def)
      then show ?thesis using ok r(2) s by (simp add: stored_chunk_name [OF assms(2)] disk_keeps_name [OF assms(2)])
    qed
  qed
  show "status_ok (fst res)" if live: "node_live w (a, p)"
  proof -
    obtain h c where s: "map_of (servers w) (node_target a p) = Some (h, c)" "fs_healthy (hosts w h)"
      and del: "fates w (calls w) (node_target a p) = Delivered"
      using live by (auto simp: node_live_def split: option.splits)
    obtain r fs' where r: "PutChunk_handler c [put_req (chunk_name n) d] (hosts w h) = (Inr r, fs')"
        "fs_healthy (hosts w h) \<Longrightarrow> status_ok (fst r)"
      using put_handler [OF assms(1,2) s(1), of d] by metis
    have "res = (fst r, (tick w)\<lparr>hosts := (hosts w)(h := fs')\<rparr>)"
      using del s r(1) by (cases r) (simp add: res_def client_Put call_PutChunk_def dispatch_def)
    then show ?thesis using r(2) s by simp
  qed
qed

subsection \<open>GetChunk through the wrapper\<close>

abbreviation get_req :: "string \<Rightarrow> GetChunkRequest" where
  "get_req c \<equiv> \<lparr>gcr_chunk_id = c, gcr_replica_index = 0\<rparr>"

lemma client_Get:
  "GetChunk (CreateClient network_stub a p) c d w =
    (let ((rs, st), w') = call_GetChunk (node_target a p) (get_req c) w
     in (if status_ok st \<and> rs \<noteq> [] then (status_OK, concat (map gcs_data rs)) else (st, d), w'))"
  by (simp add: CreateClient_def DataNodeStubWrapper_def wrapper_GetChunk_eq network_stub_def Let_def)

lemma snd_call_GetChunk:
  "snd (call_GetChunk t req w) =
    (case fates w (calls w) t of
       Delivered \<Rightarrow> snd (dispatch t (\<lambda>c. GetChunk_handler c req (\<lambda>_. True)) (tick w))
     | Unreachable st \<Rightarrow> tick w
     | Reply_Lost k st \<Rightarrow> snd (dispatch t (\<lambda>c. GetChunk_handler c req (\<lambda>i. i < k)) (tick w)))"
  by (auto simp: call_GetChunk_def split: call_fate.split sum.split prod.split)

lemma get_handler:
  assumes "cluster_tidy w" "n < 2 ^ 31" "map_of (servers w) t = Some (h, config)"
  obtains r fs' where "GetChunk_handler config (get_req (chunk_name n)) (\<lambda>_. True) (hosts w h) = (Inr r, fs')"
    "status_ok (fst r) \<Longrightarrow>
       file_content (hosts w h) (chunk_file config n) = Some (concat (map gcs_data (snd r)))"
    "fs_healthy (hosts w h) \<Longrightarrow> file_content (hosts w h) (chunk_file config n) \<noteq> None \<Longrightarrow> status_ok (fst r)"
  using GetChunk_handler_effect [of "get_req (chunk_name n)", OF _ assms(2)
      cluster_tidy_config [OF assms(1,3)] cluster_tidy_host [OF assms(1)], of h] by force

lemma get_host_effect:
  assumes "cluster_tidy w" "n < 2 ^ 31"
  shows "host_effect (\<lambda>c fs fs'. fs_stable fs fs' \<and> fs_kept fs fs') (node_target a p) w
    (snd (GetChunk (CreateClient network_stub a p) (chunk_name n) d w))"
proof -
  have kept: "fs_stable (hosts w h) (snd (GetChunk_handler c (get_req (chunk_name n)) wr (hosts w h))) \<and>
      fs_kept (hosts w h) (snd (GetChunk_handler c (get_req (chunk_name n)) wr (hosts w h)))"
    if "map_of (servers w) (node_target a p) = Some (h, c)" for h c wr
    using GetChunk_handler_kept [of "get_req (chunk_name n)", OF _ assms(2)
        cluster_tidy_config [OF assms(1) that], of wr "hosts w h"] by auto
  have "host_effect (\<lambda>c fs fs'. fs_stable fs fs' \<and> fs_kept fs fs') (node_target a p) w
      (snd (dispatch (node_target a p) (\<lambda>c. GetChunk_handler c (get_req (chunk_name n)) wr) (tick w)))" for wr
    by (rule dispatch_effect) (rule kept)
  then have "host_effect (\<lambda>c fs fs'. fs_stable fs fs' \<and> fs_kept fs fs') (node_target a p) w
      (snd (call_GetChunk (node_target a p) (get_req (chunk_name n)) w))"
    by (simp add: snd_call_GetChunk split: call_fate.split)
  then show ?thesis by (simp add: client_Get Let_def split_beta)
qed

lemma get_delivered:
  assumes "cluster_tidy w" "n < 2 ^ 31"
    and res_def: "res = fst (GetChunk (CreateClient network_stub a p) (chunk_name n) [] w)"
  shows "status_ok (fst res) \<Longrightarrow> stored_chunk w (a, p) (chunk_name n) = Some (snd res)"
    and "node_live w (a, p) \<Longrightarrow> stored_chunk w (a, p) (chunk_name n) \<noteq> None \<Longrightarrow> status_ok (fst res)"
proof -
  have eval: "res = (if status_ok (fst r) \<and> snd r \<noteq> []
                     then (status_OK, concat (map gcs_data (snd r))) else (fst r, []))"
    if "fates w (calls w) (node_target a p) = Delivered"
      "map_of (servers w) (node_target a p) = Some (h, c)"
      "GetChunk_handler c (get_req (chunk_name n)) (\<lambda>_. True) (hosts w h) = (Inr r, fs')" for h c r fs'
    using that by (cases r) (simp add: res_def client_Get call_GetChunk_def dispatch_def)
  show "status_ok (fst res) \<Longrightarrow> stored_chunk w (a, p) (chunk_name n) = Some (snd res)"
  proof -
    assume ok: "status_ok (fst res)"
    have "fates w (calls w) (node_target a p) = Delivered"
    proof (rule ccontr)
      assume "\<not> ?thesis"
      moreover have "honest (fates w (calls w) (node_target a p))"
        using assms(1) by (simp add: cluster_tidy_def)
      ultimately show False
        using ok by (auto simp: res_def client_Get call_GetChunk_def honest_def Let_def
            split: call_fate.splits sum.splits prod.splits if_splits)
    qed
    moreover have "map_of (servers w) (node_target a p) \<noteq> None"
    proof
      assume "map_of (servers w) (node_target a p) = None"
      then show False
        using calculation ok assms(1)
        by (simp add: res_def client_Get call_GetChunk_def dispatch_def cluster_tidy_def)
    qed
    ultimately obtain h c where s: "map_of (servers w) (node_target a p) = Some (h, c)"
      and del: "fates w (calls w) (node_target a p) = Delivered" by auto
    obtain r fs' where r: "GetChunk_handler c (get_req (chunk_name n)) (\<lambda>_. True) (hosts w h) = (Inr r, fs')"
      "status_ok (fst r) \<Longrightarrow>
         file_content (hosts w h) (chunk_file c n) = Some (concat (map gcs_data (snd r)))"
      using get_handler [OF assms(1,2) s] by metis
    show ?thesis
      using eval [OF del s r(1)] r(2) ok s by (auto simp: stored_chunk_name [OF assms(2)] split: if_splits)
  qed
  show "status_ok (fst res)"
    if live: "node_live w (a, p)" and st: "stored_chunk w (a, p) (chunk_name n) \<noteq> None"
  proof -
    obtain h c where s: "map_of (servers w) (node_target a p) = Some (h, c)" "fs_healthy (hosts w h)"
      and del: "fates w (calls w) (node_target a p) = Delivered"
      using live by (auto simp: node_live_def split: option.splits)
    have "file_content (hosts w h) (chunk_file c n) \<noteq> None"
      using st s by (simp add: stored_chunk_name [OF assms(2)])
    moreover obtain r fs' where
      r: "GetChunk_handler c (get_req (chunk_name n)) (\<lambda>_. True) (hosts w h) = (Inr r, fs')"
      "fs_healthy (hosts w h) \<Longrightarrow> file_content (hosts w h) (chunk_file c n) \<noteq> None \<Longrightarrow> status_ok (fst r)"
      using get_handler [OF assms(1,2) s(1)] by metis
    ultimately show ?thesis using eval [OF del s(1) r(1)] s(2) by auto
  qed
qed

subsection \<open>DeleteChunk through the wrapper\<close>

lemma client_Delete:
  "DeleteChunk (CreateClient network_stub a p) c w =
    (let ((st, r), w') = call_DeleteChunk (node_target a p) \<lparr>dcr_chunk_id = c\<rparr> w in (st, w'))"
  by (simp add: CreateClient_def DataNodeStubWrapper_def wrapper_DeleteChunk_def network_stub_def Let_def)

lemma delete_handler:
  assumes "cluster_tidy w" "n < 2 ^ 31" "map_of (servers w) t = Some (h, config)"
  obtains r fs' where
    "DeleteChunk_handler se config \<lparr>dcr_chunk_id = chunk_name n\<rparr> (hosts w h) = (Inr (status_OK, r), fs')"
    "chunk_may_become n (\<lambda>_ _. None) config (hosts w h) fs'"
    "fs_healthy (hosts w h) \<Longrightarrow> file_content fs' (chunk_file config n) = None"
proof -
  obtain r fs' where
    D: "DeleteChunk_handler se config \<lparr>dcr_chunk_id = chunk_name n\<rparr> (hosts w h) = (Inr (status_OK, r), fs')"
    "fs_stable (hosts w h) fs'"
    "case fs_fault (hosts w h) (chunk_file config n) of
       None \<Rightarrow> file_content fs' = (file_content (hosts w h))(chunk_file config n := None) \<and> dcs_success r
     | Some e \<Rightarrow> fs_kept (hosts w h) fs' \<and>
         (dcs_success r \<longleftrightarrow> e = ENOENT) \<and> (e \<noteq> ENOENT \<longrightarrow> dcs_error_message r = se e)"
    using DeleteChunk_handler_effect [of "\<lparr>dcr_chunk_id = chunk_name n\<rparr>", OF _ assms(2)
        cluster_tidy_config [OF assms(1,3)] cluster_tidy_host [OF assms(1)], of se h] by auto
  show thesis
    by (rule that [OF D(1)]) (use D(2,3) in \<open>auto simp: chunk_may_become_def fs_healthy_def split: option.splits\<close>)
qed

lemma delete_host_effect:
  assumes "cluster_tidy w" "n < 2 ^ 31"
  shows "host_effect (chunk_may_become n (\<lambda>_ _. None)) (node_target a p) w
    (snd (DeleteChunk (CreateClient network_stub a p) (chunk_name n) w))"
proof -
  have "chunk_may_become n (\<lambda>_ _. None) c (hosts w h)
      (snd (DeleteChunk_handler (c_strerror w) c \<lparr>dcr_chunk_id = chunk_name n\<rparr> (hosts w h)))"
    if "map_of (servers w) (node_target a p) = Some (h, c)" for h c
    using delete_handler [OF assms that, of "c_strerror w"] by (metis snd_conv)
  from dispatch_effect [of w "node_target a p" "chunk_may_become n (\<lambda>_ _. None)",
      where handler = "\<lambda>c. DeleteChunk_handler (c_strerror w) c \<lparr>dcr_chunk_id = chunk_name n\<rparr>", OF this]
  show ?thesis
    by (auto simp: client_Delete call_DeleteChunk_def Let_def split: call_fate.splits sum.splits prod.splits)
qed

lemma delete_delivered:
  assumes "cluster_tidy w" "n < 2 ^ 31" "node_live w (a, p)"
  shows "stored_chunk (snd (DeleteChunk (CreateClient network_stub a p) (chunk_name n) w)) (a, p) (chunk_name n)
    = None"
proof -
  obtain h c where s: "map_of (servers w) (node_target a p) = Some (h, c)" "fs_healthy (hosts w h)"
    and del: "fates w (calls w) (node_target a p) = Delivered"
    using assms(3) by (auto simp: node_live_def split: option.splits)
  obtain r fs' where r:
    "DeleteChunk_handler (c_strerror w) c \<lparr>dcr_chunk_id = chunk_name n\<rparr> (hosts w h) = (Inr (status_OK, r), fs')"
    "fs_healthy (hosts w h) \<Longrightarrow> file_content fs' (chunk_file c n) = None"
    using delete_handler [OF assms(1,2) s(1), of "c_strerror w"] by metis
  have "snd (DeleteChunk (CreateClient network_stub a p) (chunk_name n) w)
      = (tick w)\<lparr>hosts := (hosts w)(h := fs')\<rparr>"
    using del s(1) r(1) by (simp add: client_Delete call_DeleteChunk_def dispatch_def)
  then show ?thesis using r(2) s by (simp add: stored_chunk_name [OF assms(2)])
qed

section \<open>The wrapper over the transport meets the contract\<close>

lemma chunk_may_become_stable: "chunk_may_become n x c fs fs' \<Longrightarrow> fs_stable fs fs'"
  by (simp add: chunk_may_become_def)

lemma kept_may_become: "fs_stable fs fs' \<and> fs_kept fs fs' \<Longrightarrow> chunk_may_become n x c fs fs'"
  by (simp add: chunk_may_become_def)

lemma get_keeps_stored:
  assumes "cluster_tidy w" "n < 2 ^ 31" "m < 2 ^ 31"
  shows "stored_chunk (snd (GetChunk (CreateClient network_stub a p) (chunk_name n) d w)) e (chunk_name m)
    = stored_chunk w e (chunk_name m)"
proof -
  have "host_effect (chunk_may_become (Suc m) (\<lambda>_ _. None)) (node_target a p) w
      (snd (GetChunk (CreateClient network_stub a p) (chunk_name n) d w))"
    by (rule host_effect_mono [OF get_host_effect [OF assms(1,2)]]) (rule kept_may_become)
  from host_effect_stored [OF this assms(3)] show ?thesis by auto
qed

text \<open>First for disks of any capacity, which keep what \<open>disk_keeps\<close> says of the cluster \<open>w0\<close>.\<close>

interpretation disk: writable_nodes "CreateClient network_stub" stored_chunk "same_disks w0" node_live valid_chunk "disk_keeps w0"
  for w0
proof unfold_locales
  fix w :: cluster and c c' d a p e
  assume w0: "same_disks w0 w" and c: "valid_chunk c"
  obtain n where n: "c = chunk_name n" "n < 2 ^ 31" using c by (auto simp: valid_chunk_def)
  have w: "cluster_tidy w" using w0 by (simp add: same_disks_def)
  note P = put_host_effect [OF w n(2), of d a p, folded n(1)]
  show "same_disks w0 (snd (PutChunk (CreateClient network_stub a p) c d w))"
    by (rule host_effect_same_disks [OF P _ w0]) (rule chunk_may_become_stable)
  show "node_live (snd (PutChunk (CreateClient network_stub a p) c d w)) e" if "node_live w e"
    by (rule host_effect_live [OF P _ that]) (rule chunk_may_become_stable)
  show "status_ok (fst (PutChunk (CreateClient network_stub a p) c d w))" if "node_live w (a, p)"
    using put_delivered(2) [OF w n(2) refl that] n(1) by simp
  show "stored_chunk (snd (PutChunk (CreateClient network_stub a p) c d w)) (a, p) c = Some (disk_keeps w0 (a, p) c d)"
    if "status_ok (fst (PutChunk (CreateClient network_stub a p) c d w))"
    using put_delivered(1) [OF w n(2) refl] that disk_keeps_same [OF w0 n(2)] n(1) by simp
  assume c': "valid_chunk c'"
  obtain m where m: "c' = chunk_name m" "m < 2 ^ 31" using c' by (auto simp: valid_chunk_def)
  show "stored_chunk (snd (PutChunk (CreateClient network_stub a p) c d w)) e c' = stored_chunk w e c' \<or>
      (c' = c \<and> stored_chunk (snd (PutChunk (CreateClient network_stub a p) c d w)) e c' = Some (disk_keeps w0 e c d))"
    using host_effect_stored [OF P m(2), of e] m(1) n disk_keeps_same [OF w0 n(2), of e d]
    by (auto simp: disk_keeps_name)
qed

text \<open>Then for disks with room.\<close>

interpretation net: chunk_nodes "CreateClient network_stub" stored_chunk cluster_sound node_live valid_chunk
proof unfold_locales
  fix w :: cluster and c c' d a p e
  assume sound: "cluster_sound w" and c: "valid_chunk c"
  obtain n where n: "c = chunk_name n" "n < 2 ^ 31" using c by (auto simp: valid_chunk_def)
  have w: "cluster_tidy w" and room: "disks_have_room w" using sound by (simp_all add: cluster_sound_def)
  note same = same_disks_refl [OF w]
  note G = get_host_effect [OF w n(2), of a p d, folded n(1)]
    and D = delete_host_effect [OF w n(2), of a p, folded n(1)]
  show "cluster_sound (snd (PutChunk (CreateClient network_stub a p) c d w))"
    by (rule same_disks_room [OF disk.put_sound [OF same c] sound])
  show "node_live (snd (PutChunk (CreateClient network_stub a p) c d w)) e" if "node_live w e"
    by (rule disk.put_live [OF same c that])
  show "status_ok (fst (PutChunk (CreateClient network_stub a p) c d w))" if "node_live w (a, p)"
    by (rule disk.put_ok [OF same c that])
  show "stored_chunk (snd (PutChunk (CreateClient network_stub a p) c d w)) (a, p) c = Some d"
    if "status_ok (fst (PutChunk (CreateClient network_stub a p) c d w))"
    using disk.put_keeps [OF same c that] by (simp add: disk_keeps_room [OF room])
  show "cluster_sound (snd (GetChunk (CreateClient network_stub a p) c d w))"
    by (rule same_disks_room [OF host_effect_same_disks [OF G _ same] sound]) simp
  show "cluster_sound (snd (DeleteChunk (CreateClient network_stub a p) c w))"
    by (rule same_disks_room [OF host_effect_same_disks [OF D _ same] sound]) (rule chunk_may_become_stable)
  show "node_live (snd (GetChunk (CreateClient network_stub a p) c d w)) e" if "node_live w e"
    by (rule host_effect_live [OF G _ that]) simp
  show "node_live (snd (DeleteChunk (CreateClient network_stub a p) c w)) e" if "node_live w e"
    by (rule host_effect_live [OF D _ that]) (rule chunk_may_become_stable)
  show "status_ok (fst (fst (GetChunk (CreateClient network_stub a p) c [] w))) \<Longrightarrow>
      stored_chunk w (a, p) c = Some (snd (fst (GetChunk (CreateClient network_stub a p) c [] w)))"
    using get_delivered(1) [OF w n(2) refl] n(1) by simp
  show "node_live w (a, p) \<Longrightarrow> stored_chunk w (a, p) c \<noteq> None \<Longrightarrow>
      status_ok (fst (fst (GetChunk (CreateClient network_stub a p) c d w)))"
    using get_delivered(2) [OF w n(2) refl, of a p] n(1)
    by (auto simp: client_Get Let_def split: prod.splits if_splits)
  show "stored_chunk (snd (DeleteChunk (CreateClient network_stub a p) c w)) (a, p) c = None"
    if "node_live w (a, p)"
    using delete_delivered [OF w n(2) that] n(1) by simp
  assume c': "valid_chunk c'"
  obtain m where m: "c' = chunk_name m" "m < 2 ^ 31" using c' by (auto simp: valid_chunk_def)
  show "stored_chunk (snd (PutChunk (CreateClient network_stub a p) c d w)) e c' = stored_chunk w e c' \<or>
      (c' = c \<and> stored_chunk (snd (PutChunk (CreateClient network_stub a p) c d w)) e c' = Some d)"
    using disk.put_writes [OF same c c', of a p d e] by (simp add: disk_keeps_room [OF room])
  show "stored_chunk (snd (DeleteChunk (CreateClient network_stub a p) c w)) e c' = stored_chunk w e c' \<or>
      (c' = c \<and> stored_chunk (snd (DeleteChunk (CreateClient network_stub a p) c w)) e c' = None)"
    using host_effect_stored [OF D m(2), of e] m(1) n(1) by auto
  show "stored_chunk (snd (GetChunk (CreateClient network_stub a p) c d w)) e c' = stored_chunk w e c'"
    using get_keeps_stored [OF w n(2) m(2)] m(1) n(1) by simp
qed

text \<open>
  The coordinator numbers its chunks: the contract together with the identifiers
  it hands out.
\<close>

locale dfs_nodes = chunk_nodes +
  assumes valid_name: "n < 2 ^ 31 \<Longrightarrow> valid (chunk_name n)"

interpretation dfs: dfs_nodes "CreateClient network_stub" stored_chunk cluster_sound node_live valid_chunk
  by unfold_locales (auto simp: valid_chunk_def)

section \<open>A cluster for the examples\<close>

text \<open>Three nodes on three hosts, and a transport that loses nothing or what \<open>f\<close> says.\<close>

definition demo_server :: "string \<Rightarrow> string \<times> (string \<times> DataNodeConfig)" where
  "demo_server ip = (''ipv4:'' @ ip @ '':9000'', (ip, default_DataNodeConfig))"

definition demo_cluster :: "(nat \<Rightarrow> string \<Rightarrow> call_fate) \<Rightarrow> cluster" where
  "demo_cluster f =
    \<lparr>hosts = (\<lambda>_. blank_fs),
     servers = [demo_server ''10.0.0.1'', demo_server ''10.0.0.2'', demo_server ''10.0.0.3''],
     calls = 0, fates = f, unavailable = Status (OTHER_CODE 14) ''unavailable'',
     uncaught = Status (OTHER_CODE 2) ''unknown'', c_strerror = (\<lambda>_. ''error'')\<rparr>"

definition demo_endpoint :: "string \<Rightarrow> endpoint" where
  "demo_endpoint ip = (''ipv4:'' @ ip, 9000)"

lemma demo_sound: "(\<And>n t. honest (f n t)) \<Longrightarrow> cluster_sound (demo_cluster f)"
  using blank_fs_facts
  by (simp add: cluster_sound_def cluster_tidy_def disks_have_room_def demo_cluster_def demo_server_def)

lemma honest_delivered [simp]: "honest Delivered"
  by (simp add: honest_def)

lemma demo_target: "node_target (''ipv4:'' @ ip) 9000 = ''ipv4:'' @ ip @ '':9000''"
proof -
  have "digits 9000 = ''9000''" by (simp add: digits.simps digit_chars)
  then show ?thesis by (simp add: node_target_def to_string_nonneg)
qed

lemma demo_live:
  assumes "ip \<in> {''10.0.0.1'', ''10.0.0.2'', ''10.0.0.3''}"
    "\<And>n. f n (''ipv4:'' @ ip @ '':9000'') = Delivered"
  shows "node_live (demo_cluster f) (demo_endpoint ip)"
  using assms blank_fs_facts(2) demo_target [of ip]
  by (auto simp: node_live_def demo_cluster_def demo_server_def demo_endpoint_def)

end
