(* ===== verification/Replication.thy ===== *)
theory Replication
  imports Registry Cluster
begin

text \<open>
  Replication in the coordinator (\<open>coordinator/src/coordinator_service_impl.cpp\<close>):
  \<open>distributeChunkToSingleNode\<close>, the concurrent \<open>distributeChunkToNodes\<close> and
  \<open>readChunkWithFallback\<close>, over any client factory. The tasks that
  \<open>std::async\<close> starts touch the outside state only through one call each, so a
  run of them is a run in some order: the parameter \<open>sched\<close>, which may depend on
  the state and is known only to run every task once.

  The lemmas are proved from the contracts \<open>writable_nodes\<close>, for the writes, and
  \<open>chunk_nodes\<close> alone.
\<close>

section \<open>Operations\<close>

record 'w runtime =
  client_factory :: "string \<Rightarrow> int32 \<Rightarrow> 'w IDataNodeStubWrapper"
  hash_order :: "node_registry \<Rightarrow> node_registry"
  sched :: "'w \<Rightarrow> nat \<Rightarrow> nat list"

definition distributeChunkToSingleNode ::
  "'w runtime \<Rightarrow> node_registry \<Rightarrow> string \<Rightarrow> bytes \<Rightarrow> int32 \<Rightarrow> 'w \<Rightarrow> Status \<times> 'w" where
  "distributeChunkToSingleNode rt reg cid chunk_data node_id w =
    (case map_of reg node_id of
       None \<Rightarrow> (Status NOT_FOUND (''Node ID '' @ to_string (sint node_id) @ '' not found in registry''), w)
     | Some info \<Rightarrow>
         (let node_client = client_factory rt (info_address info) (info_port info);
              (client_status, w') = PutChunk node_client cid chunk_data w
          in if \<not> status_ok client_status then (client_status, w') else (status_OK, w')))"

fun run_tasks :: "(nat \<Rightarrow> 'w \<Rightarrow> Status \<times> 'w) \<Rightarrow> nat list \<Rightarrow> 'w \<Rightarrow> (nat \<times> Status) list \<times> 'w" where
  "run_tasks task [] w = ([], w)"
| "run_tasks task (i # is) w =
     (let (status, w1) = task i w; (futures, w2) = run_tasks task is w1
      in ((i, status) # futures, w2))"

fun combine_errors :: "string list \<Rightarrow> string" where
  "combine_errors [] = []"
| "combine_errors [e] = e"
| "combine_errors (e # es) = e @ ''; '' @ combine_errors es"

text \<open>What the loop over the futures makes of their results.\<close>

definition collect_statuses :: "int32 list \<Rightarrow> Status list \<Rightarrow> Status" where
  "collect_statuses ids statuses =
    (let all_successful = list_all status_ok statuses;
         errors = map (\<lambda>(node_id, status).
                         ''Node '' @ to_string (sint node_id) @ '': '' @ error_message status)
                    (filter (\<lambda>(node_id, status). \<not> status_ok status) (zip ids statuses))
     in if \<not> all_successful
        then Status INTERNAL (''Failed to distribute chunk to nodes: '' @ combine_errors errors)
        else status_OK)"

definition distributeChunkToNodes ::
  "'w runtime \<Rightarrow> node_registry \<Rightarrow> string \<Rightarrow> bytes \<Rightarrow> int32 list \<Rightarrow> 'w \<Rightarrow> Status \<times> 'w" where
  "distributeChunkToNodes rt reg cid chunk_data ids w =
    (if ids = [] then (Status INTERNAL ''No nodes specified for chunk distribution'', w)
     else
       (let (futures, w') =
              run_tasks (\<lambda>i. distributeChunkToSingleNode rt reg cid chunk_data (ids ! i))
                (sched rt w (length ids)) w
        in (collect_statuses ids (map (\<lambda>i. the (map_of futures i)) [0..<length ids]), w')))"

lemma collect_statuses_ok: "status_ok (collect_statuses ids statuses) \<longleftrightarrow> list_all status_ok statuses"
  by (simp add: collect_statuses_def Let_def)

text \<open>The loop over the replicas; \<open>None\<close> when no replica answered OK.\<close>

fun try_replicas ::
  "'w runtime \<Rightarrow> node_registry \<Rightarrow> string \<Rightarrow> int32 list \<Rightarrow> 'w \<Rightarrow> bytes option \<times> 'w" where
  "try_replicas rt reg cid [] w = (None, w)"
| "try_replicas rt reg cid (node_id # ids) w =
    (case map_of reg node_id of
       None \<Rightarrow> try_replicas rt reg cid ids w
     | Some info \<Rightarrow>
         (let node_client = client_factory rt (info_address info) (info_port info);
              ((client_status, temp_data), w') = GetChunk node_client cid [] w
          in if status_ok client_status then (Some temp_data, w')
             else try_replicas rt reg cid ids w'))"

text \<open>The output vector is passed in and comes back with the status.\<close>

definition readChunkWithFallback ::
  "'w runtime \<Rightarrow> node_registry \<Rightarrow> string \<Rightarrow> bytes \<Rightarrow> int32 list \<Rightarrow> 'w \<Rightarrow> (Status \<times> bytes) \<times> 'w" where
  "readChunkWithFallback rt reg cid chunk_data ids w =
    (if ids = [] then ((Status INTERNAL ''No nodes specified for chunk read'', chunk_data), w)
     else case try_replicas rt reg cid ids w of
            (Some temp_data, w') \<Rightarrow> ((status_OK, temp_data), w')
          | (None, w') \<Rightarrow>
              ((Status INTERNAL ''Failed to read chunk from any replica node'', chunk_data), w'))"

section \<open>Schedules\<close>

definition runs_all_tasks :: "('w \<Rightarrow> nat \<Rightarrow> nat list) \<Rightarrow> bool" where
  "runs_all_tasks sch \<longleftrightarrow> (\<forall>w n. mset (sch w n) = mset [0..<n])"

definition good_runtime :: "'w runtime \<Rightarrow> bool" where
  "good_runtime rt \<longleftrightarrow> iterates_all (hash_order rt) \<and> runs_all_tasks (sched rt)"

lemma runs_all_tasks_facts:
  assumes "runs_all_tasks sch"
  shows "set (sch w n) = {0..<n}" "distinct (sch w n)"
  using assms mset_eq_setD [of "sch w n" "[0..<n]"] mset_eq_imp_distinct_iff [of "sch w n" "[0..<n]"]
  by (auto simp: runs_all_tasks_def)

lemma keys_run_tasks: "map fst (fst (run_tasks task is w)) = is"
  by (induction "is" arbitrary: w) (auto simp: split_beta Let_def)

text \<open>
  An invariant of the state that every task keeps, and a fact that a task
  establishes and the others keep, hold at the end of the run.
\<close>

lemma run_tasks_invariant:
  assumes "P w" and step: "\<And>i w. i \<in> S \<Longrightarrow> P w \<Longrightarrow> P (snd (task i w))" and "set is \<subseteq> S"
  shows "P (snd (run_tasks task is w))"
  using assms(1,3)
proof (induction "is" arbitrary: w)
  case (Cons j js)
  have "P (snd (task j w))" by (rule step) (use Cons.prems in simp_all)
  then have "P (snd (run_tasks task js (snd (task j w))))" using Cons by simp
  then show ?case by (simp add: split_beta Let_def)
qed simp

lemma run_tasks_each:
  assumes "P w" and step: "\<And>i w. i \<in> S \<Longrightarrow> P w \<Longrightarrow> P (snd (task i w))"
    and est: "\<And>i w. i \<in> S \<Longrightarrow> P w \<Longrightarrow> Q i (fst (task i w)) (snd (task i w))"
    and keep: "\<And>i j s w. i \<in> S \<Longrightarrow> P w \<Longrightarrow> Q j s w \<Longrightarrow> Q j s (snd (task i w))"
    and "set is \<subseteq> S"
    and "(i, s) \<in> set (fst (run_tasks task is w))"
  shows "Q i s (snd (run_tasks task is w))"
  using assms(1,5,6)
proof (induction "is" arbitrary: w)
  case (Cons j js)
  define w1 where "w1 = snd (task j w)"
  have j: "j \<in> S" "set js \<subseteq> S" using Cons.prems(2) by simp_all
  have P1: "P w1" unfolding w1_def by (rule step [OF j(1) Cons.prems(1)])
  have run: "run_tasks task (j # js) w
      = ((j, fst (task j w)) # fst (run_tasks task js w1), snd (run_tasks task js w1))"
    by (simp add: split_beta Let_def w1_def)
  have Q1: "Q j (fst (task j w)) w1" unfolding w1_def by (rule est [OF j(1) Cons.prems(1)])
  have "P (snd (run_tasks task js w1)) \<and> Q j (fst (task j w)) (snd (run_tasks task js w1))"
  proof (rule run_tasks_invariant [where P = "\<lambda>x. P x \<and> Q j (fst (task j w)) x" and S = S])
    show "P w1 \<and> Q j (fst (task j w)) w1" using P1 Q1 by blast
    show "P (snd (task i v)) \<and> Q j (fst (task j w)) (snd (task i v))"
      if "i \<in> S" "P v \<and> Q j (fst (task j w)) v" for i v
      using that step [of i v] keep [of i v j "fst (task j w)"] by blast
  qed (rule j(2))
  then have later: "Q j (fst (task j w)) (snd (run_tasks task js w1))" by blast
  show ?case
  proof (cases "(i, s) \<in> set (fst (run_tasks task js w1))")
    case True
    show ?thesis unfolding run using Cons.IH [OF P1 j(2) True] by simp
  next
    case False
    then have "i = j" "s = fst (task j w)" using Cons.prems(3) unfolding run by auto
    then show ?thesis unfolding run using later by simp
  qed
qed simp

text \<open>\<open>distributeChunkToNodes\<close> in terms of the tasks' results.\<close>

lemma futures_complete:
  assumes "runs_all_tasks sch" "i < n"
  shows "(i, the (map_of (fst (run_tasks task (sch w n) v)) i)) \<in> set (fst (run_tasks task (sch w n) v))"
proof -
  have "set (map fst (fst (run_tasks task (sch w n) v))) = {0..<n}"
    unfolding keys_run_tasks by (rule runs_all_tasks_facts(1) [OF assms(1)])
  then have "map_of (fst (run_tasks task (sch w n) v)) i \<noteq> None"
    using assms(2) by (simp add: map_of_eq_None_iff)
  then obtain s where "map_of (fst (run_tasks task (sch w n) v)) i = Some s" by blast
  then show ?thesis using map_of_SomeD [of "fst (run_tasks task (sch w n) v)" i s] by simp
qed

lemma distribute_eq:
  assumes "good_runtime rt" "ids \<noteq> []"
    and futs_def: "futs = run_tasks (\<lambda>i. distributeChunkToSingleNode rt reg cid d (ids ! i)) (sched rt w (length ids)) w"
  shows "snd (distributeChunkToNodes rt reg cid d ids w) = snd futs"
    and "status_ok (fst (distributeChunkToNodes rt reg cid d ids w))
      \<longleftrightarrow> (\<forall>(i, s) \<in> set (fst futs). status_ok s)"
proof -
  have r: "runs_all_tasks (sched rt)" using assms(1) by (simp add: good_runtime_def)
  show "snd (distributeChunkToNodes rt reg cid d ids w) = snd futs"
    using assms(2) by (simp add: distributeChunkToNodes_def futs_def split_beta Let_def)
  have "status_ok (fst (distributeChunkToNodes rt reg cid d ids w))
      \<longleftrightarrow> (\<forall>i < length ids. status_ok (the (map_of (fst futs) i)))"
    using assms(2)
    by (auto simp: distributeChunkToNodes_def futs_def split_beta Let_def list_all_iff collect_statuses_ok)
  moreover have "the (map_of (fst futs) i) = s \<and> i < length ids" if "(i, s) \<in> set (fst futs)" for i s
  proof -
    have k: "map fst (fst futs) = sched rt w (length ids)"
      unfolding futs_def by (rule keys_run_tasks)
    then have "distinct (map fst (fst futs))" using runs_all_tasks_facts(2) [OF r] by simp
    moreover have "i \<in> set (sched rt w (length ids))" unfolding k [symmetric] using that by force
    ultimately show ?thesis using that runs_all_tasks_facts(1) [OF r, of w "length ids"] by simp
  qed
  moreover have "(i, the (map_of (fst futs) i)) \<in> set (fst futs)" if "i < length ids" for i
    unfolding futs_def by (rule futures_complete [OF r that])
  ultimately show "status_ok (fst (distributeChunkToNodes rt reg cid d ids w))
      \<longleftrightarrow> (\<forall>(i, s) \<in> set (fst futs). status_ok s)" by blast
qed

section \<open>Writing, on disks of any capacity\<close>

context writable_nodes
begin

text \<open>
  \<open>puts c d w w'\<close>: health is kept, and a chunk's content on a node is as before or, for \<open>c\<close>
  alone, what the node's disk keeps of \<open>d\<close>.
\<close>

definition puts :: "string \<Rightarrow> bytes \<Rightarrow> 'w \<Rightarrow> 'w \<Rightarrow> bool" where
  "puts c d w w' \<longleftrightarrow> sound w' \<and> (\<forall>e. live w e \<longrightarrow> live w' e) \<and>
     (\<forall>e c'. valid c' \<longrightarrow> stored w' e c' = stored w e c' \<or> (c' = c \<and> stored w' e c' = Some (keeps e c d)))"

lemma puts_refl [simp]: "sound w \<Longrightarrow> puts c d w w"
  by (simp add: puts_def)

lemma puts_trans: "puts c d w w' \<Longrightarrow> puts c d w' w'' \<Longrightarrow> puts c d w w''"
  unfolding puts_def by metis

lemma puts_sound: "puts c d w w' \<Longrightarrow> sound w'"
  by (simp add: puts_def)

lemma puts_live: "puts c d w w' \<Longrightarrow> live w e \<Longrightarrow> live w' e"
  unfolding puts_def by blast

lemma puts_other: "puts c d w w' \<Longrightarrow> valid c' \<Longrightarrow> c' \<noteq> c \<Longrightarrow> stored w' e c' = stored w e c'"
  unfolding puts_def by blast

lemma puts_again: "puts c d w w' \<Longrightarrow> valid c \<Longrightarrow> stored w e c = Some (keeps e c d) \<Longrightarrow>
  stored w' e c = Some (keeps e c d)"
  unfolding puts_def by metis

lemma put_puts: "sound w \<Longrightarrow> valid c \<Longrightarrow> puts c d w (snd (PutChunk (create a p) c d w))"
  unfolding puts_def using put_sound put_live put_writes by blast

lemma single_node:
  assumes "client_factory rt = create" "sound w" "valid c"
    and res: "distributeChunkToSingleNode rt reg c d i w = (status, w')"
  shows "puts c d w w'"
    and "status_ok status \<Longrightarrow>
      \<exists>info. map_of reg i = Some info \<and> stored w' (info_endpoint info) c = Some (keeps (info_endpoint info) c d)"
    and "map_of reg i = Some info \<Longrightarrow> live w (info_endpoint info) \<Longrightarrow> status_ok status"
proof -
  show "puts c d w w'"
  proof (cases "map_of reg i")
    case None
    then show ?thesis using res assms(2) by (simp add: distributeChunkToSingleNode_def)
  next
    case (Some info)
    then have "w' = snd (PutChunk (create (info_address info) (info_port info)) c d w)"
      using res assms(1) by (auto simp: distributeChunkToSingleNode_def split_beta Let_def split: if_splits)
    then show ?thesis using put_puts [OF assms(2,3)] by simp
  qed
  show "\<exists>info. map_of reg i = Some info \<and> stored w' (info_endpoint info) c = Some (keeps (info_endpoint info) c d)" if "status_ok status"
    using res that put_keeps [OF assms(2,3)] assms(1)
    by (auto simp: distributeChunkToSingleNode_def info_endpoint_def split_beta Let_def
        split: option.splits if_splits)
  show "status_ok status" if "map_of reg i = Some info" "live w (info_endpoint info)"
    using res that put_ok [OF assms(2,3)] assms(1)
    by (auto simp: distributeChunkToSingleNode_def info_endpoint_def split_beta Let_def split: if_splits)
qed

text \<open>
  \<open>distributeChunkToNodes\<close> touches only this chunk; OK means that every selected
  node holds what its disk keeps of it; and it is OK when every selected node is registered and live.
\<close>

lemma distribute_puts:
  assumes "client_factory rt = create" "sound w" "valid c"
  shows "puts c d w (snd (distributeChunkToNodes rt reg c d ids w))"
proof -
  let ?task = "\<lambda>i. distributeChunkToSingleNode rt reg c d (ids ! i)"
  have "puts c d w (snd (run_tasks ?task is w))" for "is"
  proof (rule run_tasks_invariant [where P = "puts c d w" and S = UNIV])
    show "puts c d w (snd (?task i v))" if "puts c d w v" for i v
      using puts_trans [OF that single_node(1) [OF assms(1) puts_sound [OF that] assms(3)]]
        prod.collapse by metis
  qed (use assms in simp_all)
  then show ?thesis using assms(2) by (simp add: distributeChunkToNodes_def split_beta Let_def)
qed

lemma distribute_keeps:
  assumes "client_factory rt = create" "sound w" "valid c" "good_runtime rt"
    and ok: "status_ok (fst (distributeChunkToNodes rt reg c d ids w))"
    and i: "i \<in> set ids"
  shows "\<exists>info. map_of reg i = Some info \<and>
    stored (snd (distributeChunkToNodes rt reg c d ids w)) (info_endpoint info) c = Some (keeps (info_endpoint info) c d)"
proof -
  let ?task = "\<lambda>i. distributeChunkToSingleNode rt reg c d (ids ! i)"
  let ?run = "run_tasks ?task (sched rt w (length ids)) w"
  have ne: "ids \<noteq> []" using i by auto
  note eq = distribute_eq [OF assms(4) ne refl, where reg = reg and cid = c and d = d and w = w]
  obtain j where j: "j < length ids" "ids ! j = i" using i by (metis in_set_conv_nth)
  have step: "sound (snd (?task k v))" and keep: "stored v e c = Some (keeps e c d) \<Longrightarrow> stored (snd (?task k v)) e c = Some (keeps e c d)"
    if "sound v" for k v e
  proof -
    have ch: "puts c d v (snd (?task k v))"
      using single_node(1) [OF assms(1) that assms(3)] prod.collapse by metis
    show "sound (snd (?task k v))" by (rule puts_sound [OF ch])
    show "stored v e c = Some (keeps e c d) \<Longrightarrow> stored (snd (?task k v)) e c = Some (keeps e c d)"
      by (rule puts_again [OF ch assms(3)])
  qed
  define s where "s = the (map_of (fst ?run) j)"
  have mem: "(j, s) \<in> set (fst ?run)"
    using futures_complete [of "sched rt" j "length ids" ?task w w] assms(4) j(1)
    by (simp add: good_runtime_def s_def)
  have "status_ok s" using eq(2) ok mem by auto
  have "status_ok s \<longrightarrow> (\<exists>info. map_of reg (ids ! j) = Some info \<and> stored (snd ?run) (info_endpoint info) c = Some (keeps (info_endpoint info) c d))"
  proof (rule run_tasks_each [where P = sound and S = UNIV
        and Q = "\<lambda>j s v. status_ok s \<longrightarrow> (\<exists>info. map_of reg (ids ! j) = Some info \<and> stored v (info_endpoint info) c = Some (keeps (info_endpoint info) c d))"])
    show "sound w" by (rule assms(2))
    show "sound (snd (?task k v))" if "sound v" for k v by (rule step [OF that])
    show "status_ok (fst (?task k v)) \<longrightarrow> (\<exists>info. map_of reg (ids ! k) = Some info \<and>
        stored (snd (?task k v)) (info_endpoint info) c = Some (keeps (info_endpoint info) c d))" if "sound v" for k v
      using single_node(2) [OF assms(1) that assms(3) prod.collapse [symmetric], of reg d "ids ! k"] by auto
    show "status_ok s \<longrightarrow> (\<exists>info. map_of reg (ids ! j) = Some info \<and>
        stored (snd (?task k v)) (info_endpoint info) c = Some (keeps (info_endpoint info) c d))"
      if "sound v" "status_ok s \<longrightarrow> (\<exists>info. map_of reg (ids ! j) = Some info \<and>
        stored v (info_endpoint info) c = Some (keeps (info_endpoint info) c d))" for k j s v
      using that(2) keep [OF that(1)] by blast
  qed (use mem in simp_all)
  then show ?thesis using \<open>status_ok s\<close> eq(1) j(2) by simp
qed

text \<open>A live node stores the chunk whatever becomes of the other replicas.\<close>

lemma distribute_live_keeps:
  assumes "client_factory rt = create" "sound w" "valid c" "good_runtime rt"
    and i: "i \<in> set ids" "map_of reg i = Some info" "live w (info_endpoint info)"
  shows "stored (snd (distributeChunkToNodes rt reg c d ids w)) (info_endpoint info) c = Some (keeps (info_endpoint info) c d)"
proof -
  let ?task = "\<lambda>i. distributeChunkToSingleNode rt reg c d (ids ! i)"
  let ?run = "run_tasks ?task (sched rt w (length ids)) w"
  let ?P = "puts c d w"
  have ne: "ids \<noteq> []" using i(1) by auto
  obtain j where j: "j < length ids" "ids ! j = i" using i(1) by (metis in_set_conv_nth)
  have mem: "(j, the (map_of (fst ?run) j)) \<in> set (fst ?run)"
    by (rule futures_complete) (use assms(4) j(1) in \<open>simp_all add: good_runtime_def\<close>)
  have one: "puts c d v (snd (?task k v))" if "?P v" for k v
    using single_node(1) [OF assms(1) puts_sound [OF that] assms(3)] prod.collapse by metis
  have "ids ! j = i \<longrightarrow> stored (snd ?run) (info_endpoint info) c = Some (keeps (info_endpoint info) c d)"
  proof (rule run_tasks_each [where P = ?P and S = UNIV
        and Q = "\<lambda>j s v. ids ! j = i \<longrightarrow> stored v (info_endpoint info) c = Some (keeps (info_endpoint info) c d)"])
    show "?P (snd (?task k v))" if "?P v" for k v by (rule puts_trans [OF that one [OF that]])
    show "ids ! k = i \<longrightarrow> stored (snd (?task k v)) (info_endpoint info) c = Some (keeps (info_endpoint info) c d)" if "?P v" for k v
    proof
      assume k: "ids ! k = i"
      note res = assms(1) puts_sound [OF that] assms(3) prod.collapse [symmetric]
      have "status_ok (fst (?task k v))"
        by (rule single_node(3) [OF res]) (use i(2) puts_live [OF that i(3)] k in simp_all)
      from single_node(2) [OF res this] show "stored (snd (?task k v)) (info_endpoint info) c = Some (keeps (info_endpoint info) c d)"
        using i(2) k by auto
    qed
    show "ids ! l = i \<longrightarrow> stored (snd (?task k v)) (info_endpoint info) c = Some (keeps (info_endpoint info) c d)"
      if "?P v" "ids ! l = i \<longrightarrow> stored v (info_endpoint info) c = Some (keeps (info_endpoint info) c d)" for k l s v
      using that(2) puts_again [OF one [OF that(1)] assms(3)] by blast
  qed (use assms(2) mem in simp_all)
  then show ?thesis using distribute_eq(1) [OF assms(4) ne refl] j(2) by simp
qed

lemma distribute_ok:
  assumes "client_factory rt = create" "sound w" "valid c" "good_runtime rt" "ids \<noteq> []"
    and live: "\<forall>i \<in> set ids. \<exists>info. map_of reg i = Some info \<and> live w (info_endpoint info)"
  shows "status_ok (fst (distributeChunkToNodes rt reg c d ids w))"
proof -
  let ?task = "\<lambda>i. distributeChunkToSingleNode rt reg c d (ids ! i)"
  let ?run = "run_tasks ?task (sched rt w (length ids)) w"
  note eq = distribute_eq [OF assms(4,5) refl, where reg = reg and cid = c and d = d and w = w]
  let ?P = "\<lambda>v. puts c d w v"
  have "status_ok s" if mem: "(j, s) \<in> set (fst ?run)" for j s
  proof (rule run_tasks_each [where P = ?P and S = "{0..<length ids}" and Q = "\<lambda>j s v. status_ok s"
        and task = ?task and i = j])
    show "?P (snd (?task k v))" if "?P v" for k v
      using puts_trans [OF that single_node(1) [OF assms(1) puts_sound [OF that] assms(3)]]
        prod.collapse by metis
    show "status_ok (fst (?task k v))" if k: "k \<in> {0..<length ids}" and P: "?P v" for k v
    proof -
      obtain info where "map_of reg (ids ! k) = Some info" "live w (info_endpoint info)"
        using live k by force
      then show ?thesis
        using single_node(3) [OF assms(1) puts_sound [OF P] assms(3) prod.collapse [symmetric]]
          puts_live [OF P] by blast
    qed
    show "set (sched rt w (length ids)) \<subseteq> {0..<length ids}"
      using assms(4) runs_all_tasks_facts(1) [of "sched rt"] by (simp add: good_runtime_def)
  qed (use assms(2) mem in simp_all)
  then show ?thesis using eq(2) by blast
qed

end

section \<open>Under the contract of the nodes\<close>

context chunk_nodes
begin

text \<open>
  \<open>changes X w w'\<close>: nothing is lost but health is kept, and a chunk's content on a
  node is as before or allowed by \<open>X\<close>.
\<close>

definition changes :: "(string \<Rightarrow> bytes option \<Rightarrow> bool) \<Rightarrow> 'w \<Rightarrow> 'w \<Rightarrow> bool" where
  "changes X w w' \<longleftrightarrow> sound w' \<and> (\<forall>e. live w e \<longrightarrow> live w' e) \<and>
     (\<forall>e c. valid c \<longrightarrow> stored w' e c = stored w e c \<or> X c (stored w' e c))"

definition only :: "string \<Rightarrow> bytes option \<Rightarrow> string \<Rightarrow> bytes option \<Rightarrow> bool" where
  "only c x c' v \<longleftrightarrow> c' = c \<and> v = x"

lemma changes_refl [simp]: "sound w \<Longrightarrow> changes X w w"
  by (simp add: changes_def)

lemma changes_trans: "changes X w w' \<Longrightarrow> changes X w' w'' \<Longrightarrow> changes X w w''"
  unfolding changes_def by metis

lemma changes_mono: "changes X w w' \<Longrightarrow> (\<And>c v. X c v \<Longrightarrow> Y c v) \<Longrightarrow> changes Y w w'"
  unfolding changes_def by blast

lemma changes_sound: "changes X w w' \<Longrightarrow> sound w'"
  by (simp add: changes_def)

lemma changes_live: "changes X w w' \<Longrightarrow> live w e \<Longrightarrow> live w' e"
  unfolding changes_def by blast

lemma changes_none: "changes (\<lambda>_ _. False) w w' \<Longrightarrow> valid c \<Longrightarrow> stored w' e c = stored w e c"
  unfolding changes_def by blast

lemma changes_only: "changes (only c x) w w' \<Longrightarrow> valid c' \<Longrightarrow> c' \<noteq> c \<Longrightarrow> stored w' e c' = stored w e c'"
  unfolding changes_def only_def by blast

lemma changes_only_same: "changes (only c x) w w' \<Longrightarrow> valid c \<Longrightarrow> stored w e c = x \<Longrightarrow> stored w' e c = x"
  unfolding changes_def only_def by metis

lemma put_changes:
  "sound w \<Longrightarrow> valid c \<Longrightarrow> changes (only c (Some d)) w (snd (PutChunk (create a p) c d w))"
  unfolding changes_def only_def using put_sound put_live put_effect by blast

lemma get_changes:
  "sound w \<Longrightarrow> valid c \<Longrightarrow> changes (\<lambda>_ _. False) w (snd (GetChunk (create a p) c d w))"
  unfolding changes_def using get_sound get_live get_keeps by blast

lemma del_changes:
  "sound w \<Longrightarrow> valid c \<Longrightarrow> changes (only c None) w (snd (DeleteChunk (create a p) c w))"
  unfolding changes_def only_def using del_sound del_live del_effect by blast

text \<open>What the writes do, in these terms.\<close>

lemma puts_changes: "puts c d w w' \<Longrightarrow> changes (only c (Some d)) w w'"
  unfolding puts_def changes_def only_def by blast

lemma distribute_changes:
  assumes "client_factory rt = create" "sound w" "valid c"
  shows "changes (only c (Some d)) w (snd (distributeChunkToNodes rt reg c d ids w))"
  by (rule puts_changes [OF distribute_puts [OF assms]])

lemmas distribute_stored = distribute_keeps
lemmas distribute_live_stored = distribute_live_keeps

text \<open>
  \<open>readChunkWithFallback\<close> changes no chunk, returns a stored copy, and is OK when
  one of the replicas is registered, live and holds the chunk.
\<close>

lemma try_replicas_changes:
  assumes "client_factory rt = create" "sound w" "valid c"
  shows "changes (\<lambda>_ _. False) w (snd (try_replicas rt reg c ids w))"
  using assms(2)
proof (induction ids arbitrary: w)
  case (Cons i ids)
  show ?case
  proof (cases "map_of reg i")
    case None
    then show ?thesis using Cons by simp
  next
    case (Some info)
    note ch = get_changes [OF Cons.prems assms(3), of "info_address info" "info_port info" "[]"]
    show ?thesis
      using Some ch changes_trans [OF ch Cons.IH [OF changes_sound [OF ch]]] assms(1)
      by (simp add: split_beta Let_def)
  qed
qed simp

lemma try_replicas_value:
  assumes "client_factory rt = create" "sound w" "valid c"
    and "fst (try_replicas rt reg c ids w) = Some d"
  shows "\<exists>i \<in> set ids. \<exists>info. map_of reg i = Some info \<and> stored w (info_endpoint info) c = Some d"
  using assms(2,4)
proof (induction ids arbitrary: w)
  case (Cons i ids)
  show ?case
  proof (cases "map_of reg i")
    case None
    then show ?thesis using Cons by simp
  next
    case (Some info)
    let ?r = "GetChunk (create (info_address info) (info_port info)) c [] w"
    note ch = get_changes [OF Cons.prems(1) assms(3), of "info_address info" "info_port info" "[]"]
    show ?thesis
    proof (cases "status_ok (fst (fst ?r))")
      case True
      then show ?thesis
        using Some Cons.prems assms(1) get_value [OF Cons.prems(1) assms(3) True]
        by (auto simp: split_beta Let_def info_endpoint_def)
    next
      case False
      then have "fst (try_replicas rt reg c ids (snd ?r)) = Some d"
        using Some Cons.prems assms(1) by (simp add: split_beta Let_def)
      from Cons.IH [OF changes_sound [OF ch] this] show ?thesis
        using changes_none [OF ch assms(3)] by auto
    qed
  qed
qed simp

lemma try_replicas_ok:
  assumes "client_factory rt = create" "sound w" "valid c"
    and "i \<in> set ids" "map_of reg i = Some info" "live w (info_endpoint info)"
    and "stored w (info_endpoint info) c \<noteq> None"
  shows "fst (try_replicas rt reg c ids w) \<noteq> None"
  using assms(2,4,6,7)
proof (induction ids arbitrary: w)
  case (Cons j ids)
  show ?case
  proof (cases "map_of reg j")
    case None
    then show ?thesis using Cons assms(5) by auto
  next
    case (Some info')
    let ?r = "GetChunk (create (info_address info') (info_port info')) c [] w"
    note ch = get_changes [OF Cons.prems(1) assms(3), of "info_address info'" "info_port info'" "[]"]
    show ?thesis
    proof (cases "status_ok (fst (fst ?r))")
      case True
      then show ?thesis using Some assms(1) by (simp add: split_beta Let_def)
    next
      case False
      have "i \<noteq> j"
      proof
        assume "i = j"
        then have "info' = info" using Some assms(5) by simp
        then show False
          using False get_ok [OF Cons.prems(1) assms(3)] Cons.prems(3,4) by (simp add: info_endpoint_def)
      qed
      then have "fst (try_replicas rt reg c ids (snd ?r)) \<noteq> None"
        using Cons.IH [OF changes_sound [OF ch]] Cons.prems changes_live [OF ch]
          changes_none [OF ch assms(3)] by simp
      then show ?thesis using False Some assms(1) by (simp add: split_beta Let_def)
    qed
  qed
qed simp

lemma read_result:
  assumes "client_factory rt = create" "sound w" "valid c"
    and res: "readChunkWithFallback rt reg c buf ids w = ((status, d), w')"
  shows "changes (\<lambda>_ _. False) w w'"
    and "status_ok status \<Longrightarrow>
      \<exists>i \<in> set ids. \<exists>info. map_of reg i = Some info \<and> stored w (info_endpoint info) c = Some d"
    and "i \<in> set ids \<Longrightarrow> map_of reg i = Some info \<Longrightarrow> live w (info_endpoint info) \<Longrightarrow>
      stored w (info_endpoint info) c \<noteq> None \<Longrightarrow> status_ok status"
proof -
  note ch = try_replicas_changes [OF assms(1-3), of reg ids]
  show "changes (\<lambda>_ _. False) w w'"
    using res ch assms(2) by (auto simp: readChunkWithFallback_def split: if_splits option.splits prod.splits)
  show "\<exists>i \<in> set ids. \<exists>info. map_of reg i = Some info \<and> stored w (info_endpoint info) c = Some d"
    if "status_ok status"
    using res that try_replicas_value [OF assms(1-3), of reg ids d]
    by (auto simp: readChunkWithFallback_def split: if_splits option.splits prod.splits)
  show "status_ok status" if "i \<in> set ids" "map_of reg i = Some info" "live w (info_endpoint info)"
      "stored w (info_endpoint info) c \<noteq> None"
    using res try_replicas_ok [OF assms(1-3) that] that(1)
    by (auto simp: readChunkWithFallback_def split: if_splits option.splits prod.splits)
qed

end

section \<open>Properties\<close>

lemma valid_name_iff [simp]: "n < 2147483648 \<Longrightarrow> valid_chunk (chunk_name n)"
  by (auto simp: valid_chunk_def)

text \<open>C4. Replication is strongly consistent: over the data nodes of any tidy cluster, under any order
  of the concurrent tasks, any disk faults and any pattern of call failures that does not report a
  lost call as OK, \<open>distributeChunkToNodes\<close> is OK only if every selected node is registered and
  its file of the chunk holds what its disk keeps of the data: all of it where the disk has room,
  and on a disk that runs full the prefix that fits, because the node does not check its write;
  it is OK whenever all of them are registered and live; and no other chunk changes anywhere.\<close>

theorem replication_strongly_consistent:
  fixes reg :: node_registry and d :: bytes and ids :: "int32 list"
  assumes "cluster_tidy w" "n < 2 ^ 31" "good_runtime rt"
    and "client_factory rt = CreateClient network_stub"
  defines "res \<equiv> distributeChunkToNodes rt reg (chunk_name n) d ids w"
  shows "(status_ok (fst res) \<longrightarrow> (\<forall>i \<in> set ids. \<exists>info. map_of reg i = Some info \<and>
           stored_chunk (snd res) (info_endpoint info) (chunk_name n)
             = Some (disk_keeps w (info_endpoint info) (chunk_name n) d)))
     \<and> (status_ok (fst res) \<longrightarrow> disks_have_room w \<longrightarrow> (\<forall>i \<in> set ids. \<exists>info. map_of reg i = Some info \<and>
           stored_chunk (snd res) (info_endpoint info) (chunk_name n) = Some d))
     \<and> (\<exists>k. disk_keeps w e (chunk_name n) d = take k d)
     \<and> (ids \<noteq> [] \<longrightarrow>
         (\<forall>i \<in> set ids. \<exists>info. map_of reg i = Some info \<and> node_live w (info_endpoint info)) \<longrightarrow>
           status_ok (fst res))
     \<and> (\<forall>m < 2 ^ 31. m \<noteq> n \<longrightarrow>
           stored_chunk (snd res) e (chunk_name m) = stored_chunk w e (chunk_name m))"
proof -
  have v: "valid_chunk (chunk_name n)" using assms(2) by simp
  note w = same_disks_refl [OF assms(1)]
  note kept = disk.distribute_keeps [where reg = reg and d = d and ids = ids, OF assms(4) w v assms(3)]
  have exact: "status_ok (fst res) \<Longrightarrow> disks_have_room w \<Longrightarrow> i \<in> set ids \<Longrightarrow> \<exists>info. map_of reg i = Some info \<and>
      stored_chunk (snd res) (info_endpoint info) (chunk_name n) = Some d" for i
    using kept [of i] by (simp add: res_def disk_keeps_room)
  have "\<exists>k. disk_keeps w e (chunk_name n) d = take k d" by (rule disk_keeps_prefix)
  then show ?thesis
    using kept exact
      disk.distribute_ok [where reg = reg and d = d and ids = ids, OF assms(4) w v assms(3)]
      disk.puts_other [OF disk.distribute_puts [where reg = reg and d = d and ids = ids, OF assms(4) w v]]
    unfolding res_def by simp
qed

text \<open>C19. Reads fall back: \<open>readChunkWithFallback\<close> over the cluster answers OK when any one of the
  listed replicas is registered, live and holds the chunk, whatever the others do; an OK answer is
  the content a listed registered replica holds, never a partial stream; no chunk changes.\<close>

theorem read_falls_back:
  fixes reg :: node_registry and buf :: bytes and ids :: "int32 list"
  assumes "cluster_sound w" "n < 2 ^ 31" "client_factory rt = CreateClient network_stub"
  defines "res \<equiv> readChunkWithFallback rt reg (chunk_name n) buf ids w"
  shows "((\<exists>i \<in> set ids. \<exists>info. map_of reg i = Some info \<and> node_live w (info_endpoint info) \<and>
             stored_chunk w (info_endpoint info) (chunk_name n) \<noteq> None) \<longrightarrow> status_ok (fst (fst res)))
     \<and> (status_ok (fst (fst res)) \<longrightarrow> (\<exists>i \<in> set ids. \<exists>info. map_of reg i = Some info \<and>
             stored_chunk w (info_endpoint info) (chunk_name n) = Some (snd (fst res))))
     \<and> (\<forall>m < 2 ^ 31. stored_chunk (snd res) e (chunk_name m) = stored_chunk w e (chunk_name m))"
proof -
  have v: "valid_chunk (chunk_name n)" using assms(2) by simp
  obtain st d w' where r: "res = ((st, d), w')" by (metis prod.exhaust)
  note R = net.read_result [where reg = reg and buf = buf and ids = ids and status = st and d = d
      and w' = w', OF assms(3,1) v] 
  show ?thesis
    using R(2,3) net.changes_none [OF R(1)] r unfolding res_def by (auto simp del: split_paired_All)
qed

text \<open>The runtime and registry of the examples, and a run through both.\<close>

definition demo_runtime :: "cluster runtime" where
  "demo_runtime =
    \<lparr>client_factory = CreateClient network_stub, hash_order = rev, sched = (\<lambda>w n. rev [0..<n])\<rparr>"

lemma demo_runtime_good:
  "good_runtime demo_runtime" "client_factory demo_runtime = CreateClient network_stub"
  by (simp_all add: good_runtime_def demo_runtime_def iterates_all_id runs_all_tasks_def)

lemma three_nodes_endpoints:
  "map_of (registered_nodes three_nodes) i = Some info \<Longrightarrow>
   \<exists>ip \<in> {''10.0.0.1'', ''10.0.0.2'', ''10.0.0.3''}. info_endpoint info = demo_endpoint ip"
  by (auto simp: three_nodes_def info_endpoint_def demo_endpoint_def split: if_splits)

text \<open>All three nodes are registered and live, whichever of them are selected.\<close>

abbreviation demo_w0 :: cluster where
  "demo_w0 \<equiv> demo_cluster (\<lambda>_ _. Delivered)"

lemma demo_w0_sound: "cluster_sound demo_w0"
  by (rule demo_sound) simp

lemma demo_w0_room: "cluster_tidy demo_w0" "disks_have_room demo_w0"
  using demo_w0_sound by (simp_all add: cluster_sound_def)

lemma demo_registered:
  assumes "i \<in> set [1, 2, 3]"
  shows "\<exists>info. map_of (registered_nodes three_nodes) i = Some info \<and> node_live demo_w0 (info_endpoint info)"
proof -
  have "map_of (registered_nodes three_nodes) i \<noteq> None" using assms by (auto simp: three_nodes_def)
  then obtain info where info: "map_of (registered_nodes three_nodes) i = Some info" by blast
  obtain ip where "ip \<in> {''10.0.0.1'', ''10.0.0.2'', ''10.0.0.3''}" "info_endpoint info = demo_endpoint ip"
    using three_nodes_endpoints [OF info] by blast
  then show ?thesis using info demo_live [of ip "\<lambda>_ _. Delivered"] by simp
qed

theorem replication_strongly_consistent_witness:
  "status_ok (fst (distributeChunkToNodes demo_runtime (registered_nodes three_nodes) (chunk_name 7)
      ''abc'' [1, 2, 3] demo_w0))
   \<and> (\<exists>info. map_of (registered_nodes three_nodes) 2 = Some info \<and>
        stored_chunk (snd (distributeChunkToNodes demo_runtime (registered_nodes three_nodes) (chunk_name 7)
          ''abc'' [1, 2, 3] demo_w0)) (info_endpoint info) (chunk_name 7) = Some ''abc'')"
proof -
  have n: "(7::nat) < 2 ^ 31" by simp
  note T = replication_strongly_consistent [where ids = "[1, 2, 3]" and reg = "registered_nodes three_nodes"
      and d = "''abc''", OF demo_w0_room(1) n demo_runtime_good]
  have "\<forall>i \<in> set [1, 2, 3]. \<exists>info. map_of (registered_nodes three_nodes) i = Some info \<and>
      node_live demo_w0 (info_endpoint info)"
    using demo_registered by blast
  then have ok: "status_ok (fst (distributeChunkToNodes demo_runtime (registered_nodes three_nodes) (chunk_name 7)
      ''abc'' [1, 2, 3] demo_w0))" using T list.simps(3) by blast
  then have "\<forall>i \<in> set [1, 2, 3]. \<exists>info. map_of (registered_nodes three_nodes) i = Some info \<and>
      stored_chunk (snd (distributeChunkToNodes demo_runtime (registered_nodes three_nodes) (chunk_name 7)
          ''abc'' [1, 2, 3] demo_w0)) (info_endpoint info) (chunk_name 7) = Some ''abc''"
    using T demo_w0_room(2) by blast
  then show ?thesis using ok by simp
qed

text \<open>A chunk that a node of the cluster holds is read from the first replica that answers.\<close>

theorem read_falls_back_witness:
  "\<exists>w. cluster_sound w \<and>
     fst (fst (readChunkWithFallback demo_runtime (registered_nodes three_nodes) (chunk_name 7) [] [9, 2] w))
       = status_OK"
proof -
  let ?reg = "registered_nodes three_nodes"
  let ?info = "\<lparr>info_node_id = 2, info_address = ''ipv4:10.0.0.2'', info_port = 9000\<rparr>"
  define w where "w = snd (PutChunk (CreateClient network_stub ''ipv4:10.0.0.2'' 9000) (chunk_name 7) ''abc'' demo_w0)"
  have n: "(7::nat) < 2 ^ 31" by simp
  have v: "valid_chunk (chunk_name 7)" by simp
  have live: "node_live demo_w0 (''ipv4:10.0.0.2'', 9000)"
    using demo_live [of "''10.0.0.2''" "\<lambda>_ _. Delivered"] by (simp add: demo_endpoint_def)
  have i: "map_of ?reg 2 = Some ?info" by (simp add: three_nodes_def)
  have w: "cluster_sound w" "node_live w (info_endpoint ?info)"
      "stored_chunk w (info_endpoint ?info) (chunk_name 7) = Some ''abc''"
    unfolding w_def info_endpoint_def DataNodeInfo.simps
    using net.put_sound [OF demo_w0_sound v] net.put_live [OF demo_w0_sound v live]
      net.put_stored [OF demo_w0_sound v net.put_ok [OF demo_w0_sound v live]] by blast+
  note R = read_falls_back [where ids = "[9, 2]" and reg = ?reg and buf = "[]", OF w(1) n demo_runtime_good(2)]
  have "\<exists>i \<in> set [9, 2]. \<exists>info. map_of ?reg i = Some info \<and> node_live w (info_endpoint info) \<and>
      stored_chunk w (info_endpoint info) (chunk_name 7) \<noteq> None"
    by (intro bexI [of _ 2] exI [of _ ?info]) (simp_all add: i w)
  from mp [OF conjunct1 [OF R] this]
  have "fst (fst (readChunkWithFallback demo_runtime ?reg (chunk_name 7) [] [9, 2] w)) = status_OK"
    by (auto simp: readChunkWithFallback_def split: option.splits prod.splits)
  then show ?thesis using w(1) by blast
qed

end
