(* ===== verification/Coordinator.thy ===== *)
theory Coordinator
  imports Replication
begin

text \<open>
  The RPC handlers of \<open>CoordinatorServiceImpl\<close>
  (\<open>coordinator/src/coordinator_service_impl.cpp\<close>): \<open>PutFile\<close>, \<open>GetFile\<close>,
  \<open>DeleteFile\<close>, the background \<open>cleanupWorker\<close> and the destructor. A streaming
  request is the list of messages \<open>Read\<close> delivers, a streaming response the list
  of messages \<open>Write\<close> accepted, and \<open>wr i\<close> the result of the \<open>i\<close>-th \<open>Write\<close>.
  \<open>None\<close> as the result of \<open>PutFile\<close> is undefined behaviour, the signed overflow of
  \<open>i * chunk_size\<close>.
\<close>

section \<open>Messages of \<open>coordinator.proto\<close>\<close>

record PutFileRequest =
  pfr_filename :: string
  pfr_data :: bytes

record PutFileResponse =
  pfs_success :: bool

record GetFileRequest =
  gfr_filename :: string

record GetFileResponse =
  gfs_data :: bytes

record DeleteFileRequest =
  dfr_path :: string

record DeleteFileResponse =
  dfs_success :: bool

section \<open>PutFile\<close>

text \<open>The loop over the request stream, until an early return or the end of the stream.\<close>

fun put_receive ::
  "bool \<Rightarrow> string \<Rightarrow> bytes \<Rightarrow> PutFileRequest list \<Rightarrow> MetadataStore
    \<Rightarrow> (Status + string \<times> bytes) \<times> MetadataStore" where
  "put_receive first filename file_data [] ms = (Inr (filename, file_data), ms)"
| "put_receive True filename file_data (req # reqs) ms =
     (case getFile (pfr_filename req) ms of
        (Some meta, ms') \<Rightarrow> (Inl (Status ALREADY_EXISTS ''File exists''), ms')
      | (None, ms') \<Rightarrow> put_receive False (pfr_filename req) (file_data @ pfr_data req) reqs ms')"
| "put_receive False filename file_data (req # reqs) ms =
     put_receive False filename (file_data @ pfr_data req) reqs ms"

definition CHUNK_SIZE :: nat where
  "CHUNK_SIZE = 1024 * 1024"

text \<open>\<open>size_t\<close> arithmetic, narrowed to \<open>int\<close>.\<close>

definition num_chunks :: "nat \<Rightarrow> int32" where
  "num_chunks len = ucast ((of_nat len + of_nat CHUNK_SIZE - 1) div of_nat CHUNK_SIZE :: size_t)"

definition chunk_slice :: "bytes \<Rightarrow> nat \<Rightarrow> bytes" where
  "chunk_slice file_data i =
    (let start = i * CHUNK_SIZE; end' = min (start + CHUNK_SIZE) (length file_data)
     in take (end' - start) (drop start file_data))"

text \<open>
  The loop over the chunks, for the indices still to do. It yields the status of an
  early return or the descriptors pushed to \<open>meta.chunks\<close>.
\<close>

fun put_chunks ::
  "'w runtime \<Rightarrow> bytes \<Rightarrow> nat list \<Rightarrow> CoordinatorServiceImpl \<Rightarrow> 'w
    \<Rightarrow> ((Status + ChunkInfo list) \<times> CoordinatorServiceImpl \<times> 'w) option" where
  "put_chunks rt file_data [] st w = Some (Inr [], st, w)"
| "put_chunks rt file_data (i # is) st w =
     (let cid = ''chunk_'' @ to_string (uint (chunk_id_counter st));
          st1 = st\<lparr>chunk_id_counter := chunk_id_counter st + 1\<rparr>;
          c = default_ChunkInfo\<lparr>chunk_id := cid\<rparr>
      in case selectNodesForReplication (hash_order rt) (replication_factor c) st1 of
           None \<Rightarrow> None
         | Some (ids, st2) \<Rightarrow>
             (let c1 = c\<lparr>node_ids := ids\<rparr>
              in if node_ids c1 = []
                 then Some (Inl (Status INTERNAL ''No nodes available for replication''), st2, w)
                 else
                   (let c2 = c1\<lparr>replication_factor := 3\<rparr>
                    in if 2 ^ 31 \<le> i * CHUNK_SIZE then None
                       else
                         (let chunk_data = chunk_slice file_data i;
                              (distribution_status, w1) =
                                distributeChunkToNodes rt (registered_nodes st2) cid chunk_data (node_ids c2) w
                          in if \<not> status_ok distribution_status then Some (Inl distribution_status, st2, w1)
                             else
                               (case put_chunks rt file_data is st2 w1 of
                                  None \<Rightarrow> None
                                | Some (Inl status, r) \<Rightarrow> Some (Inl status, r)
                                | Some (Inr cs, r) \<Rightarrow> Some (Inr (c2 # cs), r))))))"

definition PutFile ::
  "'w runtime \<Rightarrow> PutFileRequest list \<Rightarrow> CoordinatorServiceImpl \<Rightarrow> 'w
    \<Rightarrow> ((Status \<times> PutFileResponse) \<times> CoordinatorServiceImpl \<times> 'w) option" where
  "PutFile rt reqs st w =
    (case put_receive True [] [] reqs (store st) of
       (Inl status, ms) \<Rightarrow> Some ((status, \<lparr>pfs_success = False\<rparr>), st\<lparr>store := ms\<rparr>, w)
     | (Inr (filename, file_data), ms) \<Rightarrow>
         if filename = []
         then Some ((Status INVALID_ARGUMENT ''Filename not provided'', \<lparr>pfs_success = False\<rparr>),
                    st\<lparr>store := ms\<rparr>, w)
         else
           (case put_chunks rt file_data [0..<nat (sint (num_chunks (length file_data)))]
                   (st\<lparr>store := ms\<rparr>) w of
              None \<Rightarrow> None
            | Some (Inl status, st', w') \<Rightarrow> Some ((status, \<lparr>pfs_success = False\<rparr>), st', w')
            | Some (Inr cs, st', w') \<Rightarrow>
                (let meta = \<lparr>fm_size = of_nat (length file_data), chunk_size = of_nat CHUNK_SIZE,
                             chunks = cs\<rparr>
                 in Some ((status_OK, \<lparr>pfs_success = True\<rparr>),
                          st'\<lparr>store := putFile filename meta (store st')\<rparr>, w'))))"

section \<open>GetFile\<close>

text \<open>
  The loop over \<open>meta->chunks\<close>; \<open>i\<close> counts the calls of \<open>Write\<close>. The metadata is
  read once: the handler's raw pointer is taken to stay valid for the call.
\<close>

fun get_file_loop ::
  "'w runtime \<Rightarrow> node_registry \<Rightarrow> (nat \<Rightarrow> bool) \<Rightarrow> nat \<Rightarrow> ChunkInfo list \<Rightarrow> 'w
    \<Rightarrow> (Status \<times> GetFileResponse list) \<times> 'w" where
  "get_file_loop rt reg wr i [] w = ((status_OK, []), w)"
| "get_file_loop rt reg wr i (chunk # cs) w =
     (let ((read_status, chunk_data), w1) =
            readChunkWithFallback rt reg (chunk_id chunk) [] (node_ids chunk) w
      in if \<not> status_ok read_status
         then ((Status INTERNAL (''Failed to read chunk '' @ chunk_id chunk @ '': ''
                  @ error_message read_status), []), w1)
         else if \<not> wr i then ((Status INTERNAL ''Failed to write response'', []), w1)
         else (let ((status, resps), w2) = get_file_loop rt reg wr (Suc i) cs w1
               in ((status, \<lparr>gfs_data = chunk_data\<rparr> # resps), w2)))"

definition GetFile ::
  "'w runtime \<Rightarrow> GetFileRequest \<Rightarrow> (nat \<Rightarrow> bool) \<Rightarrow> CoordinatorServiceImpl \<Rightarrow> 'w
    \<Rightarrow> (Status \<times> GetFileResponse list) \<times> CoordinatorServiceImpl \<times> 'w" where
  "GetFile rt request wr st w =
    (case getFile (gfr_filename request) (store st) of
       (None, ms) \<Rightarrow> ((Status NOT_FOUND ''File not found'', []), st\<lparr>store := ms\<rparr>, w)
     | (Some meta, ms) \<Rightarrow>
         (let (res, w') = get_file_loop rt (registered_nodes st) wr 0 (chunks meta) w
          in (res, st\<lparr>store := ms\<rparr>, w')))"

section \<open>DeleteFile\<close>

text \<open>\<open>delete_time\<close> and \<open>now\<close> are the clock readings of \<open>deletePath\<close>.\<close>

definition DeleteFile ::
  "DeleteFileRequest \<Rightarrow> time_point \<Rightarrow> time_point \<Rightarrow> CoordinatorServiceImpl
    \<Rightarrow> (Status \<times> DeleteFileResponse) \<times> CoordinatorServiceImpl" where
  "DeleteFile req delete_time now st =
    (case getFile (dfr_path req) (store st) of
       (None, ms) \<Rightarrow> ((Status NOT_FOUND ''File not found'', \<lparr>dfs_success = False\<rparr>), st\<lparr>store := ms\<rparr>)
     | (Some meta, ms) \<Rightarrow>
         (let st1 = st\<lparr>store := deletePath (dfr_path req) delete_time now ms\<rparr>;
              st2 = (if \<not> running st1
                     then st1\<lparr>running := True, cleanup_thread := Some While_Test\<rparr> else st1)
          in ((status_OK, \<lparr>dfs_success = True\<rparr>), st2)))"

section \<open>The cleanup worker\<close>

text \<open>What the worker prints for one chunk on one node.\<close>

datatype cleanup_log =
    Unknown_Node int32
  | Rpc_Error string int32 string
  | Delete_Failed string int32 string
  | Deleted string int32

fun cleanup_nodes ::
  "'w runtime \<Rightarrow> node_registry \<Rightarrow> string \<Rightarrow> int32 list \<Rightarrow> 'w \<times> cleanup_log list
    \<Rightarrow> 'w \<times> cleanup_log list" where
  "cleanup_nodes rt reg cid [] (w, log) = (w, log)"
| "cleanup_nodes rt reg cid (node_id # ids) (w, log) =
     (case map_of reg node_id of
        None \<Rightarrow> cleanup_nodes rt reg cid ids (w, log @ [Unknown_Node node_id])
      | Some info \<Rightarrow>
          (let node_client = client_factory rt (info_address info) (info_port info);
               del_resp = empty_DeleteChunkResponse;
               (delete_status, w') = DeleteChunk node_client cid w;
               entry = (if \<not> status_ok delete_status
                        then Rpc_Error cid node_id (error_message delete_status)
                        else if \<not> dcs_success del_resp
                        then Delete_Failed cid node_id (dcs_error_message del_resp)
                        else Deleted cid node_id)
           in cleanup_nodes rt reg cid ids (w', log @ [entry])))"

fun cleanup_chunks ::
  "'w runtime \<Rightarrow> node_registry \<Rightarrow> ChunkInfo list \<Rightarrow> 'w \<times> cleanup_log list
    \<Rightarrow> 'w \<times> cleanup_log list" where
  "cleanup_chunks rt reg [] s = s"
| "cleanup_chunks rt reg (chunk # cs) s =
     cleanup_chunks rt reg cs (cleanup_nodes rt reg (chunk_id chunk) (node_ids chunk) s)"

definition cleanup_round ::
  "'w runtime \<Rightarrow> time_point \<Rightarrow> CoordinatorServiceImpl \<Rightarrow> 'w \<times> cleanup_log list
    \<Rightarrow> CoordinatorServiceImpl \<times> 'w \<times> cleanup_log list" where
  "cleanup_round rt now st s =
    (let (ms, s') = cleanupTombstones now
                      (Some (\<lambda>meta. cleanup_chunks rt (registered_nodes st) (chunks meta))) (store st) s
     in (st\<lparr>store := ms\<rparr>, s'))"

text \<open>
  One step of the worker thread: a test of the flag, with the second of sleep that
  follows it in the inner loop, or the cleanup.
\<close>

fun cleanupWorker_step ::
  "'w runtime \<Rightarrow> time_point \<Rightarrow> CoordinatorServiceImpl \<times> 'w \<times> cleanup_log list
    \<Rightarrow> CoordinatorServiceImpl \<times> 'w \<times> cleanup_log list" where
  "cleanupWorker_step rt now (st, s) =
     (case cleanup_thread st of
        None \<Rightarrow> (st, s)
      | Some While_Test \<Rightarrow>
          (st\<lparr>cleanup_thread := Some (if running st then Sleep_Test 0 else Exited)\<rparr>, s)
      | Some (Sleep_Test i) \<Rightarrow>
          (st\<lparr>cleanup_thread := Some (if i < 60 \<and> running st then Sleep_Test (Suc i) else Recheck)\<rparr>, s)
      | Some Recheck \<Rightarrow>
          (st\<lparr>cleanup_thread := Some (if \<not> running st then Exited else Cleaning)\<rparr>, s)
      | Some Cleaning \<Rightarrow>
          (let (st', s') = cleanup_round rt now st s in (st'\<lparr>cleanup_thread := Some While_Test\<rparr>, s'))
      | Some Exited \<Rightarrow> (st, s))"

text \<open>
  The destructor: \<open>join\<close> runs the thread to its end, here for at most \<open>fuel\<close> steps,
  and yields \<open>None\<close> when that is not enough.
\<close>

fun join_worker ::
  "nat \<Rightarrow> 'w runtime \<Rightarrow> time_point \<Rightarrow> CoordinatorServiceImpl \<times> 'w \<times> cleanup_log list
    \<Rightarrow> (CoordinatorServiceImpl \<times> 'w \<times> cleanup_log list) option" where
  "join_worker 0 rt now (st, s) =
     (if cleanup_thread st = Some Exited then Some (st\<lparr>cleanup_thread := None\<rparr>, s) else None)"
| "join_worker (Suc fuel) rt now (st, s) =
     (if cleanup_thread st = Some Exited then Some (st\<lparr>cleanup_thread := None\<rparr>, s)
      else join_worker fuel rt now (cleanupWorker_step rt now (st, s)))"

definition destroy_CoordinatorServiceImpl ::
  "nat \<Rightarrow> 'w runtime \<Rightarrow> time_point \<Rightarrow> CoordinatorServiceImpl \<times> 'w \<times> cleanup_log list
    \<Rightarrow> (CoordinatorServiceImpl \<times> 'w \<times> cleanup_log list) option" where
  "destroy_CoordinatorServiceImpl fuel rt now c =
    (case c of (st, s) \<Rightarrow>
       if running st then
         (let st1 = st\<lparr>running := False\<rparr>
          in if cleanup_thread st1 \<noteq> None then join_worker fuel rt now (st1, s) else Some (st1, s))
       else Some (st, s))"

section \<open>The stages of PutFile\<close>

lemma put_receive_later:
  "put_receive False filename d reqs ms = (Inr (filename, d @ concat (map pfr_data reqs)), ms)"
  by (induction reqs arbitrary: d) simp_all

lemma put_receive_eq:
  "put_receive True [] [] reqs ms =
    (case reqs of
       [] \<Rightarrow> (Inr ([], []), ms)
     | req # _ \<Rightarrow>
         (if active_files ms (pfr_filename req) \<noteq> None
          then Inl (Status ALREADY_EXISTS ''File exists'')
          else Inr (pfr_filename req, concat (map pfr_data reqs)),
          ms\<lparr>read_count := read_count ms + 1\<rparr>))"
  by (cases reqs) (auto simp: getFile_eq put_receive_later split: option.splits)

lemma CHUNK_SIZE_eq: "CHUNK_SIZE = 1048576"
  by (simp add: CHUNK_SIZE_def)

lemma num_chunks_value:
  assumes "len \<le> 2 ^ 50"
  shows "nat (sint (num_chunks len)) = (len + 1048575) div 1048576"
proof -
  have "(of_nat len + of_nat CHUNK_SIZE - 1 :: size_t) = of_nat (len + 1048575)"
    by (simp add: CHUNK_SIZE_eq)
  moreover have "(of_nat (len + 1048575) :: size_t) div 1048576 = of_nat ((len + 1048575) div 1048576)"
    using assms by (simp add: word_arith_nat_div unsigned_of_nat take_bit_nat_eq_self del: of_nat_add)
  moreover have "(len + 1048575) div 1048576 < 2 ^ 64" using assms by simp
  ultimately have "num_chunks len = of_nat ((len + 1048575) div 1048576)"
    by (simp add: num_chunks_def CHUNK_SIZE_eq unsigned_of_nat take_bit_nat_eq_self del: of_nat_add)
  moreover have "sint (of_nat m :: int32) = int m" if "m < 2 ^ 31" for m
    using that by (simp add: signed_of_nat signed_take_bit_int_eq_self)
  moreover have "(len + 1048575) div 1048576 < 2 ^ 31" using assms by simp
  ultimately show ?thesis by (simp del: of_nat_add)
qed

text \<open>At \<open>2^51\<close> bytes the number of chunks is narrowed to a negative one: the loop does not run.\<close>

lemma num_chunks_narrowed: "nat (sint (num_chunks (2 ^ 51))) = 0"
  by (simp add: num_chunks_def CHUNK_SIZE_def)

lemma chunk_slice_eq: "chunk_slice d i = take CHUNK_SIZE (drop (i * CHUNK_SIZE) d)"
  by (simp add: chunk_slice_def Let_def min_def)

lemma concat_slices: "concat (map (chunk_slice d) [0..<m]) = take (m * CHUNK_SIZE) d"
proof (induction m)
  case (Suc m)
  have "Suc m * CHUNK_SIZE = m * CHUNK_SIZE + CHUNK_SIZE" by simp
  then show ?case using Suc by (simp only: take_add) (simp add: chunk_slice_eq)
qed simp

lemma concat_all_slices:
  assumes "len = length d" "len \<le> 2 ^ 50"
  shows "concat (map (chunk_slice d) [0..<nat (sint (num_chunks len))]) = d"
  using assms by (simp add: concat_slices num_chunks_value CHUNK_SIZE_eq)

text \<open>
  The selection leaves everything but the counter alone. With fewer than \<open>2^31 - 2\<close> nodes it
  is defined, and the overflow of \<open>i * chunk_size\<close> is the only way not to return.
\<close>

definition few_nodes :: "CoordinatorServiceImpl \<Rightarrow> bool" where
  "few_nodes st \<longleftrightarrow> length (registered_nodes st) + 3 \<le> 2 ^ 31"

lemma few_nodes_registered: "registered_nodes st' = registered_nodes st \<Longrightarrow> few_nodes st' \<longleftrightarrow> few_nodes st"
  by (simp add: few_nodes_def)

lemma few_nodes_inv: "registry_inv k st \<Longrightarrow> k + 3 \<le> 2 ^ 31 \<Longrightarrow> few_nodes st"
  using registry_inv_length [of k st] by (simp add: few_nodes_def)

lemma select_three:
  assumes "iterates_all (hash_order rt)" "few_nodes st"
  shows "selectNodesForReplication (hash_order rt) 3 st \<noteq> None"
  by (rule select_defined [OF assms(1)]) (use assms(2) in \<open>simp add: few_nodes_def\<close>)

lemma replication_factor_default: "replication_factor (default_ChunkInfo\<lparr>chunk_id := cid\<rparr>) = 3"
  by (simp add: default_ChunkInfo_def)

lemma put_chunks_bound:
  "put_chunks rt d is st w = Some (Inr cs, st', w') \<Longrightarrow> \<forall>i \<in> set is. i * CHUNK_SIZE < 2 ^ 31"
  "put_chunks rt d is st w = None \<Longrightarrow> iterates_all (hash_order rt) \<Longrightarrow> few_nodes st
     \<Longrightarrow> \<exists>i \<in> set is. 2 ^ 31 \<le> i * CHUNK_SIZE"
proof -
  show "put_chunks rt d is st w = Some (Inr cs, st', w') \<Longrightarrow> \<forall>i \<in> set is. i * CHUNK_SIZE < 2 ^ 31"
    by (induction "is" arbitrary: st w cs)
      (auto simp: Let_def split: if_splits prod.splits option.splits sum.splits)
  show "\<exists>i \<in> set is. 2 ^ 31 \<le> i * CHUNK_SIZE"
    if n: "put_chunks rt d is st w = None" and h: "iterates_all (hash_order rt)" and f: "few_nodes st"
    using n f
  proof (induction "is" arbitrary: st w)
    case (Cons i "is")
    let ?st1 = "st\<lparr>chunk_id_counter := chunk_id_counter st + 1\<rparr>"
    have few: "few_nodes ?st1" using Cons.prems(2) by (simp add: few_nodes_def)
    obtain ids st2 where sel: "selectNodesForReplication (hash_order rt) 3 ?st1 = Some (ids, st2)"
      using select_three [OF h few] by auto
    have "few_nodes st2" using select_state [OF sel] few by (auto simp: few_nodes_def)
    then show ?case
      using Cons.prems(1) Cons.IH [of st2] sel
      by (auto simp: Let_def replication_factor_default split: if_splits prod.splits option.splits sum.splits)
  qed simp
qed

text \<open>The identifiers made between two values of the counter.\<close>

definition fresh_names :: "nat \<Rightarrow> nat \<Rightarrow> string \<Rightarrow> bytes option \<Rightarrow> bool" where
  "fresh_names n n' c v \<longleftrightarrow> (\<exists>j. n \<le> j \<and> j < n' \<and> c = chunk_name j)"

lemma fresh_names_chunk [simp]: "fresh_names n n' (chunk_name j) v \<longleftrightarrow> n \<le> j \<and> j < n'"
  by (auto simp: fresh_names_def)

lemma fresh_names_mono: "fresh_names m m' c v \<Longrightarrow> n \<le> m \<Longrightarrow> m' \<le> n' \<Longrightarrow> fresh_names n n' c v"
  by (auto simp: fresh_names_def)

lemma counter_name:
  assumes "n < 2 ^ 31"
  shows "''chunk_'' @ to_string (uint (of_nat n :: uint64)) = chunk_name n"
proof -
  have "uint (of_nat n :: uint64) = int n" using assms by (simp add: unsigned_of_nat take_bit_nat_eq_self)
  then show ?thesis by (simp add: chunk_name_def)
qed

text \<open>One round of the loop, with the pieces of state it changes.\<close>

lemma put_chunks_Cons:
  assumes "chunk_id_counter st = of_nat n" "n < 2 ^ 31" "iterates_all (hash_order rt)"
  shows "\<exists>ids x wide. set ids \<subseteq> fst ` set (registered_nodes st) \<and> (registered_nodes st \<noteq> [] \<longrightarrow> ids \<noteq> []) \<and>
    (wide \<longrightarrow> \<not> few_nodes st) \<and>
    put_chunks rt d (i # is) st w =
      (if wide then None
       else if ids = []
       then Some (Inl (Status INTERNAL ''No nodes available for replication''),
                  st\<lparr>chunk_id_counter := of_nat (n + 1), next_node_index := x\<rparr>, w)
       else if 2 ^ 31 \<le> i * CHUNK_SIZE then None
       else case distributeChunkToNodes rt (registered_nodes st) (chunk_name n) (chunk_slice d i) ids w of
              (s, w1) \<Rightarrow>
                if \<not> status_ok s
                then Some (Inl s, st\<lparr>chunk_id_counter := of_nat (n + 1), next_node_index := x\<rparr>, w1)
                else map_option (map_prod (map_sum id (Cons \<lparr>chunk_id = chunk_name n, node_ids = ids,
                         replication_factor = 3\<rparr>)) id)
                       (put_chunks rt d is (st\<lparr>chunk_id_counter := of_nat (n + 1), next_node_index := x\<rparr>) w1))"
proof -
  define st1 where "st1 = st\<lparr>chunk_id_counter := chunk_id_counter st + 1\<rparr>"
  have few: "few_nodes st1 \<longleftrightarrow> few_nodes st" by (simp add: st1_def few_nodes_def)
  show ?thesis
  proof (cases "selectNodesForReplication (hash_order rt) 3 st1")
    case None
    have "\<not> few_nodes st" using select_three [OF assms(3), of st1] None few by auto
    moreover have "put_chunks rt d (i # is) st w = None"
      using None by (simp add: Let_def replication_factor_default st1_def)
    ultimately show ?thesis
      by (intro exI [of _ "map fst (registered_nodes st)"] exI [of _ 0] exI [of _ True]) simp
  next
    case (Some r)
    obtain ids st2 where sel: "selectNodesForReplication (hash_order rt) 3 st1 = Some (ids, st2)"
      using Some by (cases r) simp
    have sub: "set ids \<subseteq> fst ` set (registered_nodes st)"
      using select_members(1) [OF assms(3) sel] by (simp add: st1_def)
    have ne: "ids \<noteq> []" if "registered_nodes st \<noteq> []"
      using select_members(2) [OF assms(3) sel] that by (auto simp: st1_def)
    have "st2 = st1 \<or> st2 = st1\<lparr>next_node_index := next_node_index st1 + 1\<rparr>"
      using select_state [OF sel] by simp
    then have "\<exists>x. st2 = st\<lparr>chunk_id_counter := of_nat (n + 1), next_node_index := x\<rparr>"
    proof
      assume "st2 = st1"
      then have "st2 = st\<lparr>chunk_id_counter := of_nat (n + 1), next_node_index := next_node_index st\<rparr>"
        using assms(1) by (simp add: st1_def add.commute)
      then show ?thesis by blast
    next
      assume "st2 = st1\<lparr>next_node_index := next_node_index st1 + 1\<rparr>"
      then have "st2 = st\<lparr>chunk_id_counter := of_nat (n + 1), next_node_index := next_node_index st1 + 1\<rparr>"
        using assms(1) by (simp add: st1_def add.commute)
      then show ?thesis by blast
    qed
    then obtain x where x: "st2 = st\<lparr>chunk_id_counter := of_nat (n + 1), next_node_index := x\<rparr>" by blast
    have name: "''chunk_'' @ to_string (uint (chunk_id_counter st)) = chunk_name n"
      using counter_name [OF assms(2)] assms(1) by simp
    have c: "replication_factor (default_ChunkInfo\<lparr>chunk_id := c\<rparr>) = 3"
      "node_ids (default_ChunkInfo\<lparr>chunk_id := c, node_ids := js\<rparr>) = js"
      "default_ChunkInfo\<lparr>chunk_id := c, node_ids := js, replication_factor := 3\<rparr>
         = \<lparr>chunk_id = c, node_ids = js, replication_factor = 3\<rparr>"
      "node_ids \<lparr>chunk_id = c, node_ids = js, replication_factor = 3\<rparr> = js" for c js
      by (simp_all add: default_ChunkInfo_def)
    have reg: "registered_nodes (st\<lparr>chunk_id_counter := y, next_node_index := z\<rparr>) = registered_nodes st" for y z
      by simp
    have result: "(case r of None \<Rightarrow> None | Some (Inl s, q) \<Rightarrow> Some (Inl s, q) | Some (Inr cs, q) \<Rightarrow> Some (Inr (c # cs), q))
        = map_option (map_prod (map_sum id (Cons c)) id) r" for r :: "((Status + ChunkInfo list) \<times> CoordinatorServiceImpl \<times> 'a) option" and c
      by (auto split: option.split sum.split)
    show ?thesis
      by (rule exI [of _ ids], rule exI [of _ x], rule exI [of _ False])
        (simp only: put_chunks.simps Let_def name c st1_def [symmetric] sel prod.case option.case x reg result sub ne
          if_False, use ne in blast)
  qed
qed

end
