(* ===== verification/Coordinator_Contract.thy ===== *)
theory Coordinator_Contract
  imports Coordinator
begin

text \<open>
  The coordinator's handlers over any data nodes that meet the contract
  \<open>dfs_nodes\<close>: what each stage of \<open>PutFile\<close>, \<open>GetFile\<close> and the cleanup does to
  the stored chunks, the invariant of the coordinator, and the refinement of a map
  from file names to contents by single requests.
\<close>

section \<open>The stages under the contract of the nodes\<close>

context dfs_nodes
begin

text \<open>Every registered holder of the chunk has the data.\<close>

definition replica_ok :: "node_registry \<Rightarrow> 'a \<Rightarrow> ChunkInfo \<Rightarrow> bytes \<Rightarrow> bool" where
  "replica_ok reg w c d \<longleftrightarrow> valid (chunk_id c) \<and>
     (\<forall>i \<in> set (node_ids c). \<forall>info. map_of reg i = Some info \<longrightarrow>
        stored w (info_endpoint info) (chunk_id c) = Some d)"

definition file_ok :: "node_registry \<Rightarrow> 'a \<Rightarrow> FileMeta \<Rightarrow> bytes \<Rightarrow> bool" where
  "file_ok reg w meta d \<longleftrightarrow> (\<exists>ds. list_all2 (replica_ok reg w) (chunks meta) ds \<and> concat ds = d)"

lemma replica_ok_changes:
  "replica_ok reg w c d \<Longrightarrow> changes X w w' \<Longrightarrow> (\<And>v. \<not> X (chunk_id c) v) \<Longrightarrow> replica_ok reg w' c d"
  unfolding replica_ok_def changes_def by metis

lemma file_ok_changes:
  assumes "file_ok reg w meta d" "changes X w w'" "\<And>c v. c \<in> set (chunks meta) \<Longrightarrow> \<not> X (chunk_id c) v"
  shows "file_ok reg w' meta d"
proof -
  obtain ds where ds: "list_all2 (replica_ok reg w) (chunks meta) ds" "concat ds = d"
    using assms(1) by (auto simp: file_ok_def)
  have "list_all2 (replica_ok reg w') (chunks meta) ds"
    by (rule list.rel_mono_strong [OF ds(1)]) (use replica_ok_changes assms(2,3) in blast)
  then show ?thesis using ds(2) by (auto simp: file_ok_def)
qed

lemma file_ok_registry:
  assumes "file_ok reg w meta d"
    and "\<And>c i. c \<in> set (chunks meta) \<Longrightarrow> i \<in> set (node_ids c) \<Longrightarrow> map_of reg' i = map_of reg i \<or> map_of reg' i = None"
  shows "file_ok reg' w meta d"
proof -
  obtain ds where ds: "list_all2 (replica_ok reg w) (chunks meta) ds" "concat ds = d"
    using assms(1) by (auto simp: file_ok_def)
  have "list_all2 (replica_ok reg' w) (chunks meta) ds"
  proof (rule list.rel_mono_strong [OF ds(1)])
    fix c x assume "c \<in> set (chunks meta)" "replica_ok reg w c x"
    then show "replica_ok reg' w c x"
      using assms(2) unfolding replica_ok_def by (metis option.distinct(1))
  qed
  then show ?thesis using ds(2) by (auto simp: file_ok_def)
qed

lemma put_chunks_effect:
  assumes "client_factory rt = create" "good_runtime rt" "sound w"
    and "chunk_id_counter st = of_nat n" "n + length is \<le> 2 ^ 31"
    and "put_chunks rt d is st w = Some (res, st', w')"
  shows "\<exists>m x. m \<le> length is \<and>
     st' = st\<lparr>chunk_id_counter := of_nat (n + m), next_node_index := x\<rparr> \<and>
     changes (fresh_names n (n + m)) w w' \<and>
     (\<forall>cs. res = Inr cs \<longrightarrow> m = length is \<and> map chunk_id cs = map chunk_name [n..<n + m] \<and>
        (\<forall>c \<in> set cs. set (node_ids c) \<subseteq> fst ` set (registered_nodes st)) \<and>
        list_all2 (replica_ok (registered_nodes st) w') cs (map (chunk_slice d) is))"
  using assms(3-6)
proof (induction "is" arbitrary: n st w res)
  case Nil
  have "st = st\<lparr>chunk_id_counter := of_nat (n + 0), next_node_index := next_node_index st\<rparr>"
    using Nil(2) by simp
  then show ?case using Nil by (intro exI [of _ 0] exI [of _ "next_node_index st"]) auto
next
  case (Cons i "is")
  have n: "n < 2 ^ 31" using Cons.prems(3) by simp
  have v: "valid (chunk_name n)" by (rule valid_name [OF n])
  have h: "iterates_all (hash_order rt)" using assms(2) by (simp add: good_runtime_def)
  obtain ids x wide where ids: "set ids \<subseteq> fst ` set (registered_nodes st)"
      "registered_nodes st \<noteq> [] \<longrightarrow> ids \<noteq> []"
    and eq: "put_chunks rt d (i # is) st w =
      (if wide then None
       else if ids = []
       then Some (Inl (Status INTERNAL ''No nodes available for replication''),
                  st\<lparr>chunk_id_counter := of_nat (n + 1), next_node_index := x\<rparr>, w)
       else if 2 ^ 31 \<le> i * CHUNK_SIZE then None
       else case distributeChunkToNodes rt (registered_nodes st) (chunk_name n) (chunk_slice d i) ids w of
              (s, w1) \<Rightarrow>
                if \<not> status_ok s
                then Some (Inl s, st\<lparr>chunk_id_counter := of_nat (n + 1), next_node_index := x\<rparr>, w1)
                else map_option (map_prod (map_sum id (Cons \<lparr>chunk_id = chunk_name n, node_ids = ids,
                         replication_factor = 3\<rparr>)) id)
                       (put_chunks rt d is (st\<lparr>chunk_id_counter := of_nat (n + 1), next_node_index := x\<rparr>) w1))"
    using put_chunks_Cons [OF Cons.prems(2) n h, of d i "is" w] by (elim exE conjE) (rule that)
  define st2 where "st2 = st\<lparr>chunk_id_counter := of_nat (n + 1), next_node_index := x\<rparr>"
  obtain s w1 where dist: "distributeChunkToNodes rt (registered_nodes st) (chunk_name n) (chunk_slice d i) ids w = (s, w1)"
    by (metis prod.exhaust)
  have ch1: "changes (only (chunk_name n) (Some (chunk_slice d i))) w w1"
    using distribute_changes [OF assms(1) Cons.prems(1) v, where reg = "registered_nodes st" and d = "chunk_slice d i" and ids = ids] dist by simp
  have fr1: "changes (fresh_names n (n + k)) w w1" if "0 < k" for k
    by (rule changes_mono [OF ch1]) (use that in \<open>auto simp: only_def\<close>)
  define c where "c = \<lparr>chunk_id = chunk_name n, node_ids = ids, replication_factor = 3\<rparr>"
  have "\<not> wide" using Cons.prems(4) eq by auto
  note eq' = eq [unfolded if_not_P [OF this]]
  note run = Cons.prems(4) [unfolded eq' dist prod.case, folded st2_def c_def]
  consider (none) "ids = []" "res = Inl (Status INTERNAL ''No nodes available for replication'')" "st' = st2" "w' = w"
    | (fail) "res = Inl s" "st' = st2" "w' = w1"
    | (rest) r where "status_ok s" "put_chunks rt d is st2 w1 = Some (r, st', w')" "res = map_sum id (Cons c) r"
    using run by (auto split: if_splits)
  then show ?case
  proof cases
    case none
    show ?thesis
      by (rule exI [of _ 1], rule exI [of _ x]) (use none Cons.prems(1) in \<open>simp add: st2_def\<close>)
  next
    case fail
    show ?thesis
      by (rule exI [of _ 1], rule exI [of _ x]) (use fail fr1 [of 1] in \<open>simp add: st2_def\<close>)
  next
    case rest
    have c2: "chunk_id_counter st2 = of_nat (n + 1)" and b: "n + 1 + length is \<le> 2 ^ 31"
      and reg: "registered_nodes st2 = registered_nodes st"
      using Cons.prems(3) by (simp_all add: st2_def)
    obtain m y where m: "m \<le> length is" "st' = st2\<lparr>chunk_id_counter := of_nat (n + 1 + m), next_node_index := y\<rparr>"
      "changes (fresh_names (n + 1) (n + 1 + m)) w1 w'"
      and okay: "\<And>cs. r = Inr cs \<Longrightarrow> m = length is \<and> map chunk_id cs = map chunk_name [n + 1..<n + 1 + m] \<and>
        (\<forall>c \<in> set cs. set (node_ids c) \<subseteq> fst ` set (registered_nodes st)) \<and>
        list_all2 (replica_ok (registered_nodes st) w') cs (map (chunk_slice d) is)"
      using Cons.IH [OF changes_sound [OF ch1] c2 b rest(2)] unfolding reg by blast
    have "changes (fresh_names (n + 1) (n + 1 + m)) w1 w' \<Longrightarrow> changes (fresh_names n (n + (1 + m))) w1 w'"
      by (erule changes_mono) (erule fresh_names_mono, simp_all)
    from changes_trans [OF fr1 this [OF m(3)]] have ch: "changes (fresh_names n (n + (1 + m))) w w'" by simp
    have st': "st' = st\<lparr>chunk_id_counter := of_nat (n + (1 + m)), next_node_index := y\<rparr>"
      using m(2) by (simp add: st2_def add.assoc)
    have "1 + m = length (i # is) \<and> map chunk_id cs = map chunk_name [n..<n + (1 + m)] \<and>
        (\<forall>c \<in> set cs. set (node_ids c) \<subseteq> fst ` set (registered_nodes st)) \<and>
        list_all2 (replica_ok (registered_nodes st) w') cs (map (chunk_slice d) (i # is))"
      if cs: "res = Inr cs" for cs
    proof -
      obtain cs' where r: "r = Inr cs'" "cs = c # cs'" using cs rest(3) by (cases r) auto
      have "stored w1 (info_endpoint info) (chunk_name n) = Some (chunk_slice d i)"
        if "j \<in> set ids" "map_of (registered_nodes st) j = Some info" for j info
        using distribute_stored [OF assms(1) Cons.prems(1) v assms(2) _ that(1),
            where reg = "registered_nodes st" and d = "chunk_slice d i"] dist rest(1) that(2) by auto
      then have "replica_ok (registered_nodes st) w1 c (chunk_slice d i)"
        using v by (simp add: replica_ok_def c_def)
      from replica_ok_changes [OF this m(3)]
      have "replica_ok (registered_nodes st) w' c (chunk_slice d i)" by (simp add: c_def)
      moreover have "[n..<n + (1 + m)] = n # [n + 1..<n + 1 + m]" by (simp add: upt_rec)
      ultimately show ?thesis using okay [OF r(1)] ids(1) by (simp add: r(2)) (simp add: c_def)
    qed
    then show ?thesis
      by (intro exI [of _ "1 + m"] exI [of _ y] conjI) (use m(1) ch st' in \<open>simp_all\<close>)
  qed
qed

text \<open>With all registered nodes live the loop ends without an early return.\<close>

lemma put_chunks_ok:
  assumes "client_factory rt = create" "good_runtime rt" "sound w"
    and "chunk_id_counter st = of_nat n" "n + length is \<le> 2 ^ 31"
    and "registered_nodes st \<noteq> []" "distinct (map fst (registered_nodes st))"
    and "\<forall>(j, info) \<in> set (registered_nodes st). live w (info_endpoint info)"
    and "\<forall>i \<in> set is. i * CHUNK_SIZE < 2 ^ 31" "few_nodes st"
  shows "\<exists>cs st' w'. put_chunks rt d is st w = Some (Inr cs, st', w') \<and> (\<forall>e. live w e \<longrightarrow> live w' e)"
  using assms(3-10)
proof (induction "is" arbitrary: n st w)
  case (Cons i "is")
  have n: "n < 2 ^ 31" using Cons.prems(3) by simp
  have v: "valid (chunk_name n)" by (rule valid_name [OF n])
  have h: "iterates_all (hash_order rt)" using assms(2) by (simp add: good_runtime_def)
  obtain ids x wide where ids: "set ids \<subseteq> fst ` set (registered_nodes st)" "registered_nodes st \<noteq> [] \<longrightarrow> ids \<noteq> []"
      "wide \<longrightarrow> \<not> few_nodes st"
    and eq: "put_chunks rt d (i # is) st w =
      (if wide then None
       else if ids = []
       then Some (Inl (Status INTERNAL ''No nodes available for replication''),
                  st\<lparr>chunk_id_counter := of_nat (n + 1), next_node_index := x\<rparr>, w)
       else if 2 ^ 31 \<le> i * CHUNK_SIZE then None
       else case distributeChunkToNodes rt (registered_nodes st) (chunk_name n) (chunk_slice d i) ids w of
              (s, w1) \<Rightarrow>
                if \<not> status_ok s
                then Some (Inl s, st\<lparr>chunk_id_counter := of_nat (n + 1), next_node_index := x\<rparr>, w1)
                else map_option (map_prod (map_sum id (Cons \<lparr>chunk_id = chunk_name n, node_ids = ids,
                         replication_factor = 3\<rparr>)) id)
                       (put_chunks rt d is (st\<lparr>chunk_id_counter := of_nat (n + 1), next_node_index := x\<rparr>) w1))"
    using put_chunks_Cons [OF Cons.prems(2) n h, of d i "is" w] by (elim exE conjE) (rule that)
  define st2 where "st2 = st\<lparr>chunk_id_counter := of_nat (n + 1), next_node_index := x\<rparr>"
  obtain s w1 where dist: "distributeChunkToNodes rt (registered_nodes st) (chunk_name n) (chunk_slice d i) ids w = (s, w1)"
    by (metis prod.exhaust)
  have ch1: "changes (only (chunk_name n) (Some (chunk_slice d i))) w w1"
    using distribute_changes [OF assms(1) Cons.prems(1) v, where reg = "registered_nodes st" and d = "chunk_slice d i" and ids = ids] dist by simp
  have ne: "ids \<noteq> []" using ids(2) Cons.prems(4) by blast
  have "\<exists>info. map_of (registered_nodes st) j = Some info \<and> live w (info_endpoint info)" if j: "j \<in> set ids" for j
  proof -
    obtain info where i: "(j, info) \<in> set (registered_nodes st)" using j ids(1) by auto
    then have "map_of (registered_nodes st) j = Some info" using Cons.prems(5) by simp
    then show ?thesis using Cons.prems(6) i by blast
  qed
  then have ok: "status_ok s"
    using distribute_ok [OF assms(1) Cons.prems(1) v assms(2) ne, where reg = "registered_nodes st" and d = "chunk_slice d i"]
      dist by simp
  have live1: "live w e \<Longrightarrow> live w1 e" for e by (rule changes_live [OF ch1])
  have "\<exists>cs st' w'. put_chunks rt d is st2 w1 = Some (Inr cs, st', w') \<and> (\<forall>e. live w1 e \<longrightarrow> live w' e)"
  proof (rule Cons.IH [of _ _ "n + 1"])
    show "\<forall>(j, info) \<in> set (registered_nodes st2). live w1 (info_endpoint info)"
      using Cons.prems(6) live1 by (fastforce simp: st2_def)
  qed (use Cons.prems changes_sound [OF ch1] in \<open>simp_all add: st2_def few_nodes_def\<close>)
  moreover have "\<not> wide" using ids(3) Cons.prems(8) by blast
  ultimately show ?case
    using ok ne Cons.prems(7) live1 unfolding eq dist prod.case st2_def [symmetric] by fastforce
qed simp

end

section \<open>Reading and cleaning up\<close>

context dfs_nodes
begin

lemma get_file_loop_effect:
  assumes "client_factory rt = create" "sound w" "list_all2 (replica_ok reg w) cs ds"
    and "get_file_loop rt reg wr i cs w = ((status, resps), w')"
  shows "changes (\<lambda>_ _. False) w w'"
    and "status_ok status \<Longrightarrow> map gfs_data resps = ds"
proof -
  have "changes (\<lambda>_ _. False) w w' \<and> (status_ok status \<longrightarrow> map gfs_data resps = ds)"
    using assms(2-4)
  proof (induction cs arbitrary: ds i w status resps w')
    case (Cons c cs)
    obtain d ds' where ds: "ds = d # ds'" "replica_ok reg w c d" "list_all2 (replica_ok reg w) cs ds'"
      using Cons.prems(2) by (auto simp: list_all2_Cons1)
    have v: "valid (chunk_id c)" using ds(2) by (simp add: replica_ok_def)
    obtain rs x w1 where r: "readChunkWithFallback rt reg (chunk_id c) [] (node_ids c) w = ((rs, x), w1)"
      by (metis prod.exhaust)
    note R = read_result [OF assms(1) Cons.prems(1) v r]
    show ?case
    proof (cases "status_ok rs \<and> wr i")
      case False
      then show ?thesis using R(1) r Cons.prems(3) by (auto split: if_splits)
    next
      case True
      obtain s' rs' w2 where rest: "get_file_loop rt reg wr (Suc i) cs w1 = ((s', rs'), w2)"
        by (metis prod.exhaust)
      have res: "status = s'" "resps = \<lparr>gfs_data = x\<rparr> # rs'" "w' = w2"
        using True rest r Cons.prems(3) by auto
      have "x = d" using R(2) True ds(2) by (auto simp: replica_ok_def)
      have "list_all2 (replica_ok reg w1) cs ds'"
        by (rule list.rel_mono_strong [OF ds(3)]) (use replica_ok_changes [OF _ R(1)] in blast)
      from Cons.IH [OF changes_sound [OF R(1)] this rest] show ?thesis
        using changes_trans [OF R(1)] res ds(1) \<open>x = d\<close> by auto
    qed
  qed simp
  then show "changes (\<lambda>_ _. False) w w'" "status_ok status \<Longrightarrow> map gfs_data resps = ds" by blast+
qed

text \<open>The loop is OK when each chunk has one registered live replica and the client reads on.\<close>

lemma get_file_loop_ok:
  assumes "client_factory rt = create" "sound w" "list_all2 (replica_ok reg w) cs ds" "\<forall>i. wr i"
    and "\<forall>c \<in> set cs. \<exists>i \<in> set (node_ids c). \<exists>info. map_of reg i = Some info \<and> live w (info_endpoint info)"
  shows "status_ok (fst (fst (get_file_loop rt reg wr i cs w)))"
  using assms(2,3,5)
proof (induction cs arbitrary: ds i w)
  case (Cons c cs)
  obtain d ds' where ds: "ds = d # ds'" "replica_ok reg w c d" "list_all2 (replica_ok reg w) cs ds'"
    using Cons.prems(2) by (auto simp: list_all2_Cons1)
  have v: "valid (chunk_id c)" using ds(2) by (simp add: replica_ok_def)
  obtain rs x w1 where r: "readChunkWithFallback rt reg (chunk_id c) [] (node_ids c) w = ((rs, x), w1)"
    by (metis prod.exhaust)
  note R = read_result [OF assms(1) Cons.prems(1) v r]
  have "\<exists>i \<in> set (node_ids c). \<exists>info. map_of reg i = Some info \<and> live w (info_endpoint info)"
    using Cons.prems(3) by simp
  then have ok: "status_ok rs" using R(3) ds(2) unfolding replica_ok_def by blast
  have "list_all2 (replica_ok reg w1) cs ds'"
    by (rule list.rel_mono_strong [OF ds(3)]) (use replica_ok_changes [OF _ R(1)] in blast)
  moreover have "\<forall>c \<in> set cs. \<exists>i \<in> set (node_ids c). \<exists>info. map_of reg i = Some info \<and> live w1 (info_endpoint info)"
    using Cons.prems(3) changes_live [OF R(1)] by (meson list.set_intros(2))
  ultimately have "status_ok (fst (fst (get_file_loop rt reg wr (Suc i) cs w1)))"
    using Cons.IH [OF changes_sound [OF R(1)]] by blast
  moreover have "wr i" using assms(4) by blast
  ultimately show ?case using ok r by (simp add: split_beta Let_def)
qed simp

definition removed :: "string set \<Rightarrow> string \<Rightarrow> bytes option \<Rightarrow> bool" where
  "removed C c v \<longleftrightarrow> c \<in> C \<and> v = None"

lemma cleanup_nodes_changes:
  assumes "client_factory rt = create" "sound w" "valid c"
  shows "changes (removed {c}) w (fst (cleanup_nodes rt reg c ids (w, log)))"
  using assms(2)
proof (induction ids arbitrary: w log)
  case (Cons i ids)
  show ?case
  proof (cases "map_of reg i")
    case None
    then show ?thesis using Cons by simp
  next
    case (Some info)
    have ch: "changes (removed {c}) w (snd (DeleteChunk (create (info_address info) (info_port info)) c w))"
      by (rule changes_mono [OF del_changes [OF Cons.prems assms(3)]]) (simp add: only_def removed_def)
    show ?thesis
      using Some assms(1) changes_trans [OF ch Cons.IH [OF changes_sound [OF ch]]]
      by (simp add: split_beta Let_def)
  qed
qed simp

lemma cleanup_nodes_removes:
  assumes "client_factory rt = create" "sound w" "valid c"
    and "i \<in> set ids" "map_of reg i = Some info" "live w (info_endpoint info)"
  shows "stored (fst (cleanup_nodes rt reg c ids (w, log))) (info_endpoint info) c = None"
  using assms(2,4,6)
proof (induction ids arbitrary: w log)
  case (Cons j ids)
  show ?case
  proof (cases "map_of reg j")
    case None
    then show ?thesis using Cons assms(5) by auto
  next
    case (Some info')
    let ?w1 = "snd (DeleteChunk (create (info_address info') (info_port info')) c w)"
    note ch = del_changes [OF Cons.prems(1) assms(3), of "info_address info'" "info_port info'"]
    have step: "\<exists>log'. cleanup_nodes rt reg c (j # ids) (w, log) = cleanup_nodes rt reg c ids (?w1, log')"
      using Some assms(1) by (simp add: split_beta Let_def) blast
    show ?thesis
    proof (cases "i \<in> set ids")
      case True
      then show ?thesis
        using Cons.IH [OF changes_sound [OF ch] True changes_live [OF ch Cons.prems(3)]] step by metis
    next
      case False
      then have "info' = info" using Cons.prems(2) Some assms(5) by simp
      then have gone: "stored ?w1 (info_endpoint info) c = None"
        using del_gone [OF Cons.prems(1) assms(3)] Cons.prems(3) by (simp add: info_endpoint_def)
      obtain log' where log': "cleanup_nodes rt reg c (j # ids) (w, log) = cleanup_nodes rt reg c ids (?w1, log')"
        using step by blast
      have "changes (only c None) ?w1 (fst (cleanup_nodes rt reg c ids (?w1, log')))"
        by (rule changes_mono [OF cleanup_nodes_changes [OF assms(1) changes_sound [OF ch] assms(3)]])
          (simp add: only_def removed_def)
      from changes_only_same [OF this assms(3) gone] log' show ?thesis by simp
    qed
  qed
qed simp

lemma cleanup_chunks_changes:
  assumes "client_factory rt = create" "sound w" "\<forall>c \<in> set cs. valid (chunk_id c)"
  shows "changes (removed (chunk_id ` set cs)) w (fst (cleanup_chunks rt reg cs (w, log)))"
  using assms(2,3)
proof (induction cs arbitrary: w log)
  case (Cons c cs)
  obtain w1 log1 where s: "cleanup_nodes rt reg (chunk_id c) (node_ids c) (w, log) = (w1, log1)"
    by (metis prod.exhaust)
  have ch: "changes (removed {chunk_id c}) w w1"
    using cleanup_nodes_changes [OF assms(1) Cons.prems(1), of "chunk_id c" reg "node_ids c" log] s Cons.prems(2) by simp
  have "changes (removed (chunk_id ` set cs)) w1 (fst (cleanup_chunks rt reg cs (w1, log1)))"
    using Cons.IH [OF changes_sound [OF ch]] Cons.prems(2) by simp
  then have "changes (removed (chunk_id ` set (c # cs))) w1 (fst (cleanup_chunks rt reg cs (w1, log1)))"
    by (rule changes_mono) (auto simp: removed_def)
  moreover have "changes (removed (chunk_id ` set (c # cs))) w w1"
    by (rule changes_mono [OF ch]) (auto simp: removed_def)
  ultimately show ?case using changes_trans s by simp
qed simp

lemma cleanup_chunks_removes:
  assumes "client_factory rt = create" "sound w" "\<forall>c \<in> set cs. valid (chunk_id c)"
    and "c \<in> set cs" "i \<in> set (node_ids c)" "map_of reg i = Some info" "live w (info_endpoint info)"
  shows "stored (fst (cleanup_chunks rt reg cs (w, log))) (info_endpoint info) (chunk_id c) = None"
  using assms(2-4,7)
proof (induction cs arbitrary: w log)
  case (Cons c' cs)
  obtain w1 log1 where s: "cleanup_nodes rt reg (chunk_id c') (node_ids c') (w, log) = (w1, log1)"
    by (metis prod.exhaust)
  have v: "valid (chunk_id c')" "\<forall>c \<in> set cs. valid (chunk_id c)" "valid (chunk_id c)"
    using Cons.prems(2,3) by auto
  have ch: "changes (removed {chunk_id c'}) w w1"
    using cleanup_nodes_changes [OF assms(1) Cons.prems(1) v(1), of reg "node_ids c'" log] s by simp
  show ?case
  proof (cases "c \<in> set cs")
    case True
    then show ?thesis
      using Cons.IH [OF changes_sound [OF ch] v(2) True changes_live [OF ch Cons.prems(4)]] s by simp
  next
    case False
    then have "c' = c" using Cons.prems(3) by simp
    then have gone: "stored w1 (info_endpoint info) (chunk_id c) = None"
      using cleanup_nodes_removes [OF assms(1) Cons.prems(1) v(3) assms(5,6) Cons.prems(4), of log] s by simp
    have "changes (removed (chunk_id ` set cs)) w1 (fst (cleanup_chunks rt reg cs (w1, log1)))"
      by (rule cleanup_chunks_changes [OF assms(1) changes_sound [OF ch] v(2)])
    then show ?thesis using s gone v(3) unfolding changes_def removed_def by (simp del: split_paired_All) metis
  qed
qed simp

end

end
