(* ===== verification/Coordinator_Refinement.thy ===== *)
theory Coordinator_Refinement
  imports Coordinator_Contract
begin

text \<open>
  The coordinator as a whole: its invariant, the sequences of requests and cleanup
  rounds it serves, and the proof that over any data nodes that meet the contract
  it refines a map from file names to contents. At the end the contract is
  replaced by the cluster of \<open>Cluster\<close>.
\<close>

section \<open>The invariant of the coordinator\<close>

text \<open>The chunks of all files, visible or deleted but not yet cleaned up.\<close>

definition store_metas :: "MetadataStore \<Rightarrow> FileMeta list" where
  "store_metas ms = map (file_meta \<circ> snd) (entries ms) @ map (fst \<circ> snd) (deleted_entries ms)"

definition all_chunks :: "MetadataStore \<Rightarrow> ChunkInfo list" where
  "all_chunks ms = concat (map chunks (store_metas ms))"

text \<open>
  \<open>n\<close> chunk identifiers and \<open>k\<close> node identifiers have been made; no identifier
  names two chunks.
\<close>

definition coord_inv :: "nat \<Rightarrow> nat \<Rightarrow> CoordinatorServiceImpl \<Rightarrow> bool" where
  "coord_inv n k st \<longleftrightarrow> store_inv (store st) \<and> registry_inv k st \<and> chunk_id_counter st = of_nat n \<and>
     distinct (map chunk_id (all_chunks (store st))) \<and>
     (\<forall>c \<in> set (all_chunks (store st)). (\<exists>j < n. chunk_id c = chunk_name j) \<and>
        set (node_ids c) \<subseteq> of_nat ` {1..k})"

lemma coord_inv_new: "coord_inv 0 0 new_CoordinatorServiceImpl"
proof -
  have "all_chunks empty_MetadataStore = []"
    by (simp add: all_chunks_def store_metas_def empty_MetadataStore_def)
  then show ?thesis
    using registry_inv_new store_inv_empty by (simp add: coord_inv_def new_CoordinatorServiceImpl_def)
qed

lemma active_chunks:
  assumes "active_files ms p = Some meta"
  shows "set (chunks meta) \<subseteq> set (all_chunks ms)"
proof -
  obtain e where "map_of (entries ms) p = Some e" "file_meta e = meta"
    using assms by (auto simp: active_files_def split: option.splits if_splits)
  then have "meta \<in> set (store_metas ms)"
    by (auto simp: store_metas_def dest!: map_of_SomeD intro: rev_image_eqI)
  then show ?thesis by (auto simp: all_chunks_def)
qed

lemma active_not_deleted:
  assumes "distinct (map chunk_id (all_chunks ms))" "active_files ms p = Some meta"
    "t \<in> set (deleted_entries ms)" "c \<in> set (chunks meta)" "c' \<in> set (chunks (fst (snd t)))"
  shows "chunk_id c \<noteq> chunk_id c'"
proof -
  obtain e where e: "(p, e) \<in> set (entries ms)" "file_meta e = meta"
    using assms(2) by (auto simp: active_files_def dest!: map_of_SomeD split: option.splits if_splits)
  define A where "A = map chunk_id (concat (map chunks (map (file_meta \<circ> snd) (entries ms))))"
  define B where "B = map chunk_id (concat (map chunks (map (fst \<circ> snd) (deleted_entries ms))))"
  have "chunk_id c \<in> set A" using e assms(4) by (force simp: A_def)
  moreover have "chunk_id c' \<in> set B" using assms(3,5) by (force simp: B_def)
  moreover have "distinct (A @ B)"
    using assms(1) by (simp only: A_def B_def all_chunks_def store_metas_def map_append concat_append)
  then have "set A \<inter> set B = {}" by simp
  ultimately show ?thesis by auto
qed

lemma all_chunks_read [simp]: "all_chunks (ms\<lparr>read_count := x\<rparr>) = all_chunks ms"
  by (simp add: all_chunks_def store_metas_def)

lemma all_chunks_putFile:
  assumes "active_files ms p = None" "store_inv ms"
  shows "mset (all_chunks (putFile p meta ms)) = mset (all_chunks ms) + mset (chunks meta)"
proof -
  have "p \<notin> fst ` set (entries ms)"
  proof
    assume "p \<in> fst ` set (entries ms)"
    then have "map_of (entries ms) p \<noteq> None" by (simp add: map_of_eq_None_iff)
    then obtain e where e: "map_of (entries ms) p = Some e" by blast
    then have "is_file e" using assms(2) by (auto simp: store_inv_def list_all_iff dest: map_of_SomeD)
    then show False using assms(1) e by (simp add: active_files_def)
  qed
  then show ?thesis
    by (simp add: all_chunks_def store_metas_def putFile_def length_alist_update_fresh ac_simps)
qed

lemma mset_alist_delete:
  assumes "distinct (map fst al)" "map_of al k = Some v"
  shows "mset al = add_mset (k, v) (mset (AList.delete k al))"
  using assms
proof (induction al)
  case (Cons x al)
  show ?case
  proof (cases "fst x = k")
    case True
    then have "AList.delete k al = al" using Cons.prems(1) by (auto intro: AList.delete_idem)
    then show ?thesis using True Cons.prems(2) by (cases x) auto
  next
    case False
    then show ?thesis using Cons by (cases x) auto
  qed
qed simp

lemma concat_filter_mset: "mset (concat (map g (filter P xs))) \<subseteq># mset (concat (map g xs))"
proof (induction xs)
  case (Cons x xs)
  then show ?case by (auto intro: subset_mset.add_increasing subset_mset.add_left_mono)
qed simp

lemma all_chunks_deletePath:
  assumes "store_inv ms"
  shows "mset (all_chunks (deletePath p t now ms)) \<subseteq># mset (all_chunks ms)"
proof (cases "\<exists>e. map_of (entries ms) p = Some e \<and> is_file e")
  case False
  then have "deletePath p t now ms = ms" by (auto simp: deletePath_def split: option.splits)
  then show ?thesis by simp
next
  case True
  then obtain e where e: "map_of (entries ms) p = Some e" "is_file e" by blast
  define del where "del = deleted_entries ms @ [(p, file_meta e, t)]"
  have "deleted_entries (deletePath p t now ms) = del \<or>
      deleted_entries (deletePath p t now ms) = dropWhile (expired now) del"
    using e by (simp add: deletePath_def del_def cleanupOldTombstones_eq Let_def)
  then obtain pre where pre: "del = pre @ deleted_entries (deletePath p t now ms)"
    by (metis append_Nil takeWhile_dropWhile_id)
  have ent: "entries (deletePath p t now ms) = AList.delete p (entries ms)"
    using e by (simp add: deletePath_def cleanupOldTombstones_eq Let_def)
  have "distinct (map fst (entries ms))" using assms by (simp add: store_inv_def)
  note m = mset_alist_delete [OF this e(1)]
  have "mset (all_chunks ms) =
      mset (concat (map (chunks \<circ> (file_meta \<circ> snd)) (AList.delete p (entries ms)))) +
      mset (concat (map (chunks \<circ> (fst \<circ> snd)) del))"
    using arg_cong [OF m, of "\<lambda>M. \<Sum>\<^sub># (image_mset (\<lambda>x. mset (chunks (file_meta (snd x)))) M)"]
    by (simp add: all_chunks_def store_metas_def del_def mset_concat sum_mset_sum_list [symmetric]
        multiset.map_comp comp_def ac_simps)
  then show ?thesis
    unfolding pre by (simp add: all_chunks_def store_metas_def ent ac_simps)
qed

lemma all_chunks_cleanup:
  "mset (all_chunks (fst (cleanupTombstones now del ms w))) \<subseteq># mset (all_chunks ms)"
  using concat_filter_mset [of "\<lambda>e. chunks (fst (snd e))" "\<lambda>e. \<not> expired now e" "deleted_entries ms"]
  by (simp add: all_chunks_def store_metas_def cleanupTombstones_store comp_def
      subset_mset.add_left_mono)

lemma coord_inv_smaller:
  assumes "coord_inv n k st" "mset (all_chunks ms) \<subseteq># mset (all_chunks (store st))" "store_inv ms"
  shows "coord_inv n k (st\<lparr>store := ms\<rparr>)"
proof -
  have "registry_inv k (st\<lparr>store := ms\<rparr>)" using assms(1) by (simp add: coord_inv_def registry_inv_def)
  moreover have "set (all_chunks ms) \<subseteq> set (all_chunks (store st))"
    using set_mset_mono [OF assms(2)] by simp
  moreover have "distinct (map chunk_id (all_chunks ms))"
    by (rule distinct_map_mset_subset [OF assms(2)]) (use assms(1) in \<open>simp add: coord_inv_def\<close>)
  ultimately show ?thesis using assms(1,3) by (auto simp: coord_inv_def)
qed

lemma coord_inv_counters:
  assumes "coord_inv n k st" "n \<le> n'" 
  shows "coord_inv n' k (st\<lparr>chunk_id_counter := of_nat n', next_node_index := x\<rparr>)"
proof -
  have "(\<exists>j < n. P j) \<Longrightarrow> (\<exists>j < n'. P j)" for P
    using assms(2) order_less_le_trans by blast
  then show ?thesis using assms(1) by (simp add: coord_inv_def registry_inv_def)
qed

lemma coord_inv_thread:
  "coord_inv n k st \<Longrightarrow> coord_inv n k (st\<lparr>running := b, cleanup_thread := pc\<rparr>)"
  by (simp add: coord_inv_def registry_inv_def)

lemma coord_inv_Register:
  assumes "coord_inv n k st" "iterates_all h" "k < 2 ^ 32 - 1"
  shows "\<exists>k' \<ge> k. k' \<le> k + 1 \<and> coord_inv n k' (snd (RegisterDataNode h peer port st))"
proof -
  let ?k = "if rdr_success (snd (fst (RegisterDataNode h peer port st))) then k + 1 else k"
  have r: "registry_inv k st" using assms(1) by (simp add: coord_inv_def)
  have "store (snd (RegisterDataNode h peer port st)) = store st"
      "chunk_id_counter (snd (RegisterDataNode h peer port st)) = chunk_id_counter st"
    by (auto simp: RegisterDataNode_def Let_def split: option.splits)
  moreover have "k \<le> ?k" "?k \<le> k + 1" by auto
  moreover have "(of_nat ` {1..k} :: int32 set) \<subseteq> of_nat ` {1..?k}" by auto
  moreover have "registry_inv ?k (snd (RegisterDataNode h peer port st))"
    by (rule registry_inv_Register [OF r assms(2,3)])
  ultimately have "coord_inv n ?k (snd (RegisterDataNode h peer port st))"
    using assms(1) unfolding coord_inv_def by (simp only:) blast
  then show ?thesis using \<open>k \<le> ?k\<close> \<open>?k \<le> k + 1\<close> by blast
qed

lemma coord_inv_Unregister:
  "coord_inv n k st \<Longrightarrow> coord_inv n k (snd (UnregisterDataNode i st))"
  using registry_inv_Unregister [of k st i]
  by (auto simp: coord_inv_def UnregisterDataNode_def split: option.splits)

section \<open>Requests and rounds\<close>

datatype dfs_op =
    Put_File "PutFileRequest list"
  | Get_File string "nat \<Rightarrow> bool"
  | Delete_File string time_point time_point
  | Register_Node string int32
  | Unregister_Node int32
  | Cleanup_Round time_point

datatype dfs_result =
    Put_Result Status
  | Get_Result Status bytes
  | Delete_Result Status
  | Register_Result Status RegisterDataNodeResponse
  | Unregister_Result Status UnregisterDataNodeResponse
  | Cleanup_Result

type_synonym 'w dfs_state = "CoordinatorServiceImpl \<times> 'w \<times> cleanup_log list"

fun dfs_step :: "'w runtime \<Rightarrow> dfs_op \<Rightarrow> 'w dfs_state \<Rightarrow> (dfs_result \<times> 'w dfs_state) option" where
  "dfs_step rt (Put_File reqs) (st, w, log) =
     map_option (\<lambda>((status, resp), st', w'). (Put_Result status, st', w', log)) (PutFile rt reqs st w)"
| "dfs_step rt (Get_File name wr) (st, w, log) =
     (let ((status, resps), st', w') = GetFile rt \<lparr>gfr_filename = name\<rparr> wr st w
      in Some (Get_Result status (concat (map gfs_data resps)), st', w', log))"
| "dfs_step rt (Delete_File name delete_time now) (st, w, log) =
     (let ((status, resp), st') = DeleteFile \<lparr>dfr_path = name\<rparr> delete_time now st
      in Some (Delete_Result status, st', w, log))"
| "dfs_step rt (Register_Node peer port) (st, w, log) =
     (let ((status, resp), st') = RegisterDataNode (hash_order rt) peer port st
      in Some (Register_Result status resp, st', w, log))"
| "dfs_step rt (Unregister_Node i) (st, w, log) =
     (let ((status, resp), st') = UnregisterDataNode i st
      in Some (Unregister_Result status resp, st', w, log))"
| "dfs_step rt (Cleanup_Round now) (st, w, log) =
     (let (st', w', log') = cleanup_round rt now st (w, log) in Some (Cleanup_Result, st', w', log'))"

fun dfs_run ::
  "'w runtime \<Rightarrow> dfs_op list \<Rightarrow> 'w dfs_state \<Rightarrow> (dfs_result list \<times> 'w dfs_state) option" where
  "dfs_run rt [] s = Some ([], s)"
| "dfs_run rt (x # xs) s =
     (case dfs_step rt x s of
        None \<Rightarrow> None
      | Some (r, s1) \<Rightarrow> map_option (\<lambda>(rs, s2). (r # rs, s2)) (dfs_run rt xs s1))"

section \<open>The specification\<close>

text \<open>
  The name and the content an upload asks for, what answers a map of contents
  allows, and the map after it. A request may fail for reasons of the data nodes;
  then nothing changes.
\<close>

definition upload_name :: "PutFileRequest list \<Rightarrow> string" where
  "upload_name reqs = (case reqs of [] \<Rightarrow> [] | req # _ \<Rightarrow> pfr_filename req)"

definition upload_data :: "PutFileRequest list \<Rightarrow> bytes" where
  "upload_data reqs = concat (map pfr_data reqs)"

fun spec_allows :: "(string \<rightharpoonup> bytes) \<Rightarrow> dfs_op \<Rightarrow> dfs_result \<Rightarrow> bool" where
  "spec_allows f (Put_File reqs) (Put_Result status) \<longleftrightarrow>
     (if reqs \<noteq> [] \<and> f (upload_name reqs) \<noteq> None then status = Status ALREADY_EXISTS ''File exists''
      else if upload_name reqs = [] then status = Status INVALID_ARGUMENT ''Filename not provided''
      else True)"
| "spec_allows f (Get_File name wr) (Get_Result status d) \<longleftrightarrow>
     (case f name of
        None \<Rightarrow> status = Status NOT_FOUND ''File not found'' \<and> d = []
      | Some content \<Rightarrow> status_ok status \<longrightarrow> d = content)"
| "spec_allows f (Delete_File name t now) (Delete_Result status) \<longleftrightarrow>
     status = (if f name = None then Status NOT_FOUND ''File not found'' else status_OK)"
| "spec_allows f (Register_Node peer port) (Register_Result status resp) \<longleftrightarrow> status = status_OK"
| "spec_allows f (Unregister_Node i) (Unregister_Result status resp) \<longleftrightarrow>
     (status_ok status \<longleftrightarrow> udr_success resp)"
| "spec_allows f (Cleanup_Round now) Cleanup_Result \<longleftrightarrow> True"
| "spec_allows f _ _ \<longleftrightarrow> False"

fun spec_after :: "(string \<rightharpoonup> bytes) \<Rightarrow> dfs_op \<Rightarrow> dfs_result \<Rightarrow> (string \<rightharpoonup> bytes)" where
  "spec_after f (Put_File reqs) (Put_Result status) =
     (if status_ok status then f(upload_name reqs \<mapsto> upload_data reqs) else f)"
| "spec_after f (Delete_File name t now) r = f(name := None)"
| "spec_after f _ _ = f"

fun spec_accepts :: "dfs_op list \<Rightarrow> dfs_result list \<Rightarrow> (string \<rightharpoonup> bytes) \<Rightarrow> bool" where
  "spec_accepts [] [] f \<longleftrightarrow> True"
| "spec_accepts (x # xs) (r # rs) f \<longleftrightarrow> spec_allows f x r \<and> spec_accepts xs rs (spec_after f x r)"
| "spec_accepts _ _ f \<longleftrightarrow> False"

text \<open>Uploads of at most 2 GiB, the bound below which \<open>i * chunk_size\<close> fits an \<open>int\<close>.\<close>

fun small_op :: "dfs_op \<Rightarrow> bool" where
  "small_op (Put_File reqs) \<longleftrightarrow> length (upload_data reqs) \<le> 2 ^ 31"
| "small_op _ \<longleftrightarrow> True"

lemma small_slices:
  assumes "length d \<le> 2 ^ 31"
  shows "nat (sint (num_chunks (length d))) \<le> 2048"
    and "\<forall>i \<in> set [0..<nat (sint (num_chunks (length d)))]. i * CHUNK_SIZE < 2 ^ 31"
    and "concat (map (chunk_slice d) [0..<nat (sint (num_chunks (length d)))]) = d"
  using assms num_chunks_value [of "length d"] concat_all_slices [of "length d" d]
  by (auto simp: CHUNK_SIZE_eq)

lemma distribute_error:
  "distributeChunkToNodes rt reg c d ids w = (s, w') \<Longrightarrow> \<not> status_ok s \<Longrightarrow> error_code s = INTERNAL"
  by (auto simp: distributeChunkToNodes_def collect_statuses_def Let_def split: if_splits prod.splits)

lemma put_chunks_error:
  "put_chunks rt d is st w = Some (Inl status, st', w') \<Longrightarrow> \<not> status_ok status"
  by (induction "is" arbitrary: st w)
    (auto simp: Let_def split: if_splits prod.splits option.splits sum.splits)

section \<open>The simulation\<close>

context dfs_nodes
begin

definition represents :: "nat \<Rightarrow> nat \<Rightarrow> CoordinatorServiceImpl \<Rightarrow> 'a \<Rightarrow> (string \<rightharpoonup> bytes) \<Rightarrow> bool" where
  "represents n k st w f \<longleftrightarrow> coord_inv n k st \<and> sound w \<and>
     (\<forall>p. rel_option (file_ok (registered_nodes st) w) (active_files (store st) p) (f p))"

lemma represents_world:
  assumes "represents n k st w f" "changes X w w'"
    and "\<And>p meta c v. active_files (store st) p = Some meta \<Longrightarrow> c \<in> set (chunks meta) \<Longrightarrow> \<not> X (chunk_id c) v"
  shows "represents n k st w' f"
proof -
  have "rel_option (file_ok (registered_nodes st) w') (active_files (store st) p) (f p)" for p
  proof (cases "active_files (store st) p")
    case None
    then show ?thesis using assms(1) unfolding represents_def by (metis rel_option_None1)
  next
    case (Some meta)
    then obtain d where d: "f p = Some d" "file_ok (registered_nodes st) w meta d"
      using assms(1) unfolding represents_def by (metis option_rel_Some1)
    have "file_ok (registered_nodes st) w' meta d"
      by (rule file_ok_changes [OF d(2) assms(2)]) (rule assms(3) [OF Some])
    then show ?thesis using Some d(1) by simp
  qed
  then show ?thesis using assms(1) changes_sound [OF assms(2)] by (simp add: represents_def)
qed

lemma represents_fresh:
  assumes "represents n k st w f" "changes (fresh_names n n') w w'" "n' \<le> 2 ^ 31"
  shows "represents n k st w' f"
proof (rule represents_world [OF assms(1,2)])
  fix p meta c v assume "active_files (store st) p = Some meta" "c \<in> set (chunks meta)"
  then obtain j where "j < n" "chunk_id c = chunk_name j"
    using assms(1) active_chunks unfolding represents_def coord_inv_def by blast
  then show "\<not> fresh_names n n' (chunk_id c) v" by simp
qed

lemma represents_none: "represents n k st w f \<Longrightarrow> active_files (store st) p = None \<longleftrightarrow> f p = None"
  unfolding represents_def by (metis option.rel_sel option.collapse option.distinct(1))

lemma represents_some:
  "represents n k st w f \<Longrightarrow> active_files (store st) p = Some meta \<Longrightarrow>
   \<exists>d. f p = Some d \<and> file_ok (registered_nodes st) w meta d"
  unfolding represents_def by (metis option_rel_Some1)

lemma represents_store:
  assumes "represents n k st w f" "coord_inv n' k' st'"
    and "registered_nodes st' = registered_nodes st"
    and "active_files (store st') = active_files (store st)"
  shows "represents n' k' st' w f"
  using assms by (simp add: represents_def)

lemma represents_read:
  assumes "represents n k st w f"
  shows "represents n k (st\<lparr>store := (store st)\<lparr>read_count := x\<rparr>\<rparr>) w f"
proof (rule represents_store [OF assms])
  have "coord_inv n k st" using assms by (simp add: represents_def)
  then show "coord_inv n k (st\<lparr>store := (store st)\<lparr>read_count := x\<rparr>\<rparr>)"
    by (intro coord_inv_smaller) (simp_all add: coord_inv_def store_inv_def)
qed simp_all

lemma represents_put:
  assumes "represents n k st w f" "active_files (store st) name = None"
    and "changes (fresh_names n (n + m)) w w'" "n + m \<le> 2 ^ 31"
    and "map chunk_id cs = map chunk_name [n..<n + m]"
    and "\<forall>c \<in> set cs. set (node_ids c) \<subseteq> fst ` set (registered_nodes st)"
    and "file_ok (registered_nodes st) w' meta d" "chunks meta = cs"
  shows "represents (n + m) k (st\<lparr>chunk_id_counter := of_nat (n + m), next_node_index := x,
      store := putFile name meta (store st)\<rparr>) w' (f(name \<mapsto> d))"
proof -
  let ?ms = "putFile name meta (store st)"
  have inv: "coord_inv n k st" using assms(1) by (simp add: represents_def)
  have R: "represents n k st w' f" by (rule represents_fresh [OF assms(1,3,4)])
  have si: "store_inv (store st)" using inv by (simp add: coord_inv_def)
  note m = all_chunks_putFile [OF assms(2) si, of meta, unfolded assms(8)]
  have set: "set (all_chunks ?ms) = set (all_chunks (store st)) \<union> set cs"
  proof -
    have "set_mset (mset (all_chunks ?ms)) = set_mset (mset (all_chunks (store st)) + mset cs)"
      by (rule arg_cong [OF m])
    then show ?thesis unfolding set_mset_union set_mset_mset .
  qed
  have ids: "chunk_id ` set cs = chunk_name ` {n..<n + m}"
    using arg_cong [OF assms(5), of set] by simp
  have old: "\<forall>c \<in> set (all_chunks (store st)). \<exists>j < n. chunk_id c = chunk_name j"
    using inv by (auto simp: coord_inv_def)
  have "distinct (map chunk_id (all_chunks (store st) @ cs))"
  proof -
    have "distinct (map chunk_id cs)" unfolding assms(5) by (simp add: distinct_map inj_on_def)
    moreover have "chunk_id c \<notin> chunk_name ` {n..<n + m}" if "c \<in> set (all_chunks (store st))" for c
      using bspec [OF old that] by auto
    then have "chunk_id ` set (all_chunks (store st)) \<inter> chunk_id ` set cs = {}"
      unfolding ids by blast
    ultimately show ?thesis using inv by (simp add: coord_inv_def)
  qed
  then have dist: "distinct (map chunk_id (all_chunks ?ms))"
    by (rule distinct_map_mset_subset [rotated]) (simp add: m)
  have reg: "registry_inv k st" using inv by (simp add: coord_inv_def)
  then have keys: "fst ` set (registered_nodes st) \<subseteq> of_nat ` {1..k}"
    by (auto simp: registry_inv_def list_all_iff)
  have names: "\<exists>j < n + m. chunk_id c = chunk_name j" if "c \<in> set (all_chunks ?ms)" for c
  proof (cases "c \<in> set cs")
    case True
    then have "chunk_id c \<in> chunk_name ` {n..<n + m}" using ids by blast
    then show ?thesis by auto
  next
    case False
    then have "c \<in> set (all_chunks (store st))" using that unfolding set by blast
    from bspec [OF old this] obtain j where "j < n" "chunk_id c = chunk_name j" by blast
    then show ?thesis by (intro exI [of _ j]) simp
  qed
  have nodes: "set (node_ids c) \<subseteq> of_nat ` {1..k}" if "c \<in> set (all_chunks ?ms)" for c
  proof (cases "c \<in> set cs")
    case True
    then show ?thesis using assms(6) keys by blast
  next
    case False
    then have "c \<in> set (all_chunks (store st))" using that unfolding set by blast
    then show ?thesis using inv unfolding coord_inv_def by blast
  qed
  have "registry_inv k (st\<lparr>chunk_id_counter := of_nat (n + m), next_node_index := x, store := ?ms\<rparr>)"
    using reg by (simp add: registry_inv_def)
  then have "coord_inv (n + m) k (st\<lparr>chunk_id_counter := of_nat (n + m), next_node_index := x, store := ?ms\<rparr>)"
    unfolding coord_inv_def using store_inv_putFile [OF si] dist names nodes by simp
  moreover have "rel_option (file_ok (registered_nodes st) w') (active_files ?ms p) ((f(name \<mapsto> d)) p)" for p
    using R assms(7) by (simp add: represents_def active_files_putFile)
  ultimately show ?thesis using changes_sound [OF assms(3)] by (simp add: represents_def)
qed

lemma PutFile_refines:
  assumes "client_factory rt = create" "good_runtime rt" "represents n k st w f" "n + 2048 \<le> 2 ^ 31"
    and "length (upload_data reqs) \<le> 2 ^ 31" "k + 3 \<le> 2 ^ 31"
  shows "\<exists>status resp st' w' n'. PutFile rt reqs st w = Some ((status, resp), st', w') \<and>
     n \<le> n' \<and> n' \<le> n + 2048 \<and>
     represents n' k st' w' (spec_after f (Put_File reqs) (Put_Result status)) \<and>
     spec_allows f (Put_File reqs) (Put_Result status) \<and>
     pfs_success resp = status_ok status"
proof -
  define st1 where "st1 = st\<lparr>store := (store st)\<lparr>read_count := read_count (store st) + 1\<rparr>\<rparr>"
  have R1: "represents n k st1 w f" unfolding st1_def by (rule represents_read [OF assms(3)])
  show ?thesis
  proof (cases reqs)
    case Nil
    then show ?thesis
      using assms(3) by (intro exI [of _ "Status INVALID_ARGUMENT ''Filename not provided''"] exI conjI)
        (auto simp: PutFile_def upload_name_def)
  next
    case (Cons req rest)
    define name where "name = pfr_filename req"
    have name: "upload_name reqs = name" by (simp add: Cons name_def upload_name_def)
    show ?thesis
    proof (cases "active_files (store st) name")
      case (Some meta)
      then have "PutFile rt reqs st w
          = Some ((Status ALREADY_EXISTS ''File exists'', \<lparr>pfs_success = False\<rparr>), st1, w)"
        by (simp add: PutFile_def put_receive_eq Cons name_def st1_def del: put_receive.simps)
      moreover have "f name \<noteq> None" using represents_none [OF assms(3), of name] Some by simp
      ultimately show ?thesis
        using R1 name Cons by (intro exI conjI) auto
    next
      case None
      then have f: "f name = None" using represents_none [OF assms(3), of name] by simp
      have recv: "put_receive True [] [] reqs (store st) = (Inr (name, upload_data reqs), store st1)"
        using None by (simp add: put_receive_eq Cons name_def upload_data_def st1_def del: put_receive.simps)
      show ?thesis
      proof (cases "name = []")
        case True
        then have "PutFile rt reqs st w = Some ((Status INVALID_ARGUMENT ''Filename not provided'',
            \<lparr>pfs_success = False\<rparr>), st1, w)"
          by (simp add: PutFile_def recv) (simp add: st1_def)
        then show ?thesis using R1 name f True by (intro exI conjI) auto
      next
        case False
        define d where "d = upload_data reqs"
        define js where "js = [0..<nat (sint (num_chunks (length d)))]"
        have d: "length js \<le> 2048" "\<forall>i \<in> set js. i * CHUNK_SIZE < 2 ^ 31" "concat (map (chunk_slice d) js) = d"
          using small_slices [of d] assms(5) unfolding d_def js_def by simp_all
        have h: "iterates_all (hash_order rt)" using assms(2) by (simp add: good_runtime_def)
        have few: "few_nodes st1"
          by (rule few_nodes_inv [OF _ assms(6)]) (use R1 in \<open>simp add: represents_def coord_inv_def\<close>)
        have "put_chunks rt d js st1 w \<noteq> None"
        proof
          assume "put_chunks rt d js st1 w = None"
          from put_chunks_bound(2) [OF this h few] d(2) show False by fastforce
        qed
        then obtain res st' w' where run: "put_chunks rt d js st1 w = Some (res, st', w')" by auto
        have ctr: "chunk_id_counter st1 = of_nat n" "sound w" "registered_nodes st1 = registered_nodes st"
          using R1 by (simp_all add: represents_def coord_inv_def st1_def)
        have "n + length js \<le> 2 ^ 31" using assms(4) d(1) by simp
        from put_chunks_effect [OF assms(1,2) ctr(2,1) this run]
        obtain m x where m: "m \<le> length js" and st': "st' = st1\<lparr>chunk_id_counter := of_nat (n + m), next_node_index := x\<rparr>"
          and ch: "changes (fresh_names n (n + m)) w w'"
          and okay: "\<And>cs. res = Inr cs \<Longrightarrow> map chunk_id cs = map chunk_name [n..<n + m] \<and>
            (\<forall>c \<in> set cs. set (node_ids c) \<subseteq> fst ` set (registered_nodes st1)) \<and>
            list_all2 (replica_ok (registered_nodes st1) w') cs (map (chunk_slice d) js)" by blast
        have nm: "n + m \<le> 2 ^ 31" "n + m \<le> n + 2048" using m d(1) assms(4) by simp_all
        have P: "PutFile rt reqs st w = (case res of
            Inl status \<Rightarrow> Some ((status, \<lparr>pfs_success = False\<rparr>), st', w')
          | Inr cs \<Rightarrow> Some ((status_OK, \<lparr>pfs_success = True\<rparr>),
              st'\<lparr>store := putFile name \<lparr>fm_size = of_nat (length d), chunk_size = of_nat CHUNK_SIZE, chunks = cs\<rparr>
                (store st')\<rparr>, w'))"
        proof -
          have "st\<lparr>store := store st1\<rparr> = st1" by (simp add: st1_def)
          then show ?thesis
            using False run by (simp add: PutFile_def recv Let_def flip: d_def js_def split: sum.split)
        qed
        show ?thesis
        proof (cases res)
          case (Inl status)
          have "coord_inv (n + m) k st'"
            unfolding st' by (rule coord_inv_counters [where n = n]) (use R1 in \<open>simp_all add: represents_def\<close>)
          then have "represents (n + m) k st' w' f"
            by (rule represents_store [OF represents_fresh [OF R1 ch nm(1)]]) (simp_all add: st')
          moreover have "\<not> status_ok status"
            using put_chunks_error [of rt d js st1 w status st' w'] run Inl by simp
          ultimately show ?thesis
            using P Inl name f False nm(2)
            by (intro exI [of _ status] exI [of _ "\<lparr>pfs_success = False\<rparr>"] exI [of _ st'] exI [of _ w']
                exI [of _ "n + m"]) simp
        next
          case (Inr cs)
          note o = okay [OF Inr]
          let ?meta = "\<lparr>fm_size = of_nat (length d), chunk_size = of_nat CHUNK_SIZE, chunks = cs\<rparr>"
          have fok: "file_ok (registered_nodes st1) w' ?meta d" using o d(3) by (auto simp: file_ok_def)
          have act: "active_files (store st1) name = None" using None by (simp add: st1_def)
          have "represents (n + m) k (st1\<lparr>chunk_id_counter := of_nat (n + m), next_node_index := x,
              store := putFile name ?meta (store st1)\<rparr>) w' (f(name \<mapsto> d))"
            by (rule represents_put [OF R1 act ch nm(1) conjunct1 [OF o] conjunct1 [OF conjunct2 [OF o]] fok]) simp
          then show ?thesis
            using P Inr name f False nm(2)
            by (intro exI [of _ status_OK] exI [of _ "\<lparr>pfs_success = True\<rparr>"] exI exI [of _ w']
                exI [of _ "n + m"]) (simp add: st' d_def)
        qed
      qed
    qed
  qed
qed

end

fun spec_final :: "dfs_op list \<Rightarrow> dfs_result list \<Rightarrow> (string \<rightharpoonup> bytes) \<Rightarrow> (string \<rightharpoonup> bytes)" where
  "spec_final (x # xs) (r # rs) f = spec_final xs rs (spec_after f x r)"
| "spec_final _ _ f = f"

context dfs_nodes
begin

lemma represents_chunks_valid:
  assumes "represents n k st w f" "n \<le> 2 ^ 31" "c \<in> set (all_chunks (store st))"
  shows "valid (chunk_id c)"
proof -
  obtain j where "j < n" "chunk_id c = chunk_name j"
    using assms(1,3) unfolding represents_def coord_inv_def by blast
  then show ?thesis using valid_name [of j] assms(2) by simp
qed

lemma GetFile_refines:
  assumes "client_factory rt = create" "represents n k st w f"
    and "GetFile rt \<lparr>gfr_filename = name\<rparr> wr st w = ((status, resps), st', w')"
  shows "represents n k st' w' f \<and>
    spec_allows f (Get_File name wr) (Get_Result status (concat (map gfs_data resps)))"
proof -
  define st1 where "st1 = st\<lparr>store := (store st)\<lparr>read_count := read_count (store st) + 1\<rparr>\<rparr>"
  have R1: "represents n k st1 w f" unfolding st1_def by (rule represents_read [OF assms(2)])
  show ?thesis
  proof (cases "active_files (store st) name")
    case None
    then have "f name = None" using represents_none [OF assms(2), of name] by simp
    then show ?thesis using None assms(3) R1 by (auto simp: GetFile_def getFile_eq st1_def)
  next
    case (Some meta)
    obtain d where d: "f name = Some d" "file_ok (registered_nodes st) w meta d"
      using represents_some [OF assms(2) Some] by blast
    obtain ds where ds: "list_all2 (replica_ok (registered_nodes st) w) (chunks meta) ds" "concat ds = d"
      using d(2) by (auto simp: file_ok_def)
    have loop: "get_file_loop rt (registered_nodes st) wr 0 (chunks meta) w = ((status, resps), w')"
      and st': "st' = st1"
      using assms(3) Some by (auto simp: GetFile_def getFile_eq st1_def split: prod.splits)
    have "sound w" using assms(2) by (simp add: represents_def)
    note L = get_file_loop_effect [OF assms(1) this ds(1) loop]
    have "represents n k st' w' f"
      unfolding st' by (rule represents_world [OF R1 L(1)]) simp
    then show ?thesis using L(2) ds(2) d(1) by simp
  qed
qed

lemma DeleteFile_refines:
  assumes "represents n k st w f"
    and "DeleteFile \<lparr>dfr_path = name\<rparr> t now st = ((status, resp), st')"
  shows "represents n k st' w (f(name := None)) \<and>
    spec_allows f (Delete_File name t now) (Delete_Result status) \<and> dfs_success resp = status_ok status"
proof -
  define ms where "ms = (store st)\<lparr>read_count := read_count (store st) + 1\<rparr>"
  have R1: "represents n k (st\<lparr>store := ms\<rparr>) w f" unfolding ms_def by (rule represents_read [OF assms(1)])
  show ?thesis
  proof (cases "active_files (store st) name")
    case None
    then have "f name = None" using represents_none [OF assms(1), of name] by simp
    moreover from this have "f(name := None) = f" by auto
    ultimately show ?thesis using None assms(2) R1 by (auto simp: DeleteFile_def getFile_eq ms_def)
  next
    case (Some meta)
    then have f: "f name \<noteq> None" using represents_none [OF assms(1), of name] by auto
    have inv: "coord_inv n k (st\<lparr>store := ms\<rparr>)" using R1 by (simp add: represents_def)
    let ?ms = "deletePath name t now ms"
    have si: "store_inv ms" using inv by (simp add: coord_inv_def)
    have "coord_inv n k ((st\<lparr>store := ms\<rparr>)\<lparr>store := ?ms\<rparr>)"
      by (rule coord_inv_smaller [OF inv]) (simp_all add: all_chunks_deletePath si store_inv_deletePath)
    then have inv2: "coord_inv n k (st\<lparr>store := ?ms\<rparr>)" by simp
    obtain b pc where st': "st' = (st\<lparr>store := ?ms\<rparr>)\<lparr>running := b, cleanup_thread := pc\<rparr>"
      and res: "status = status_OK" "resp = \<lparr>dfs_success = True\<rparr>"
    proof -
      have "st' = (if \<not> running st then st\<lparr>store := ?ms, running := True, cleanup_thread := Some While_Test\<rparr>
          else st\<lparr>store := ?ms\<rparr>)" "status = status_OK" "resp = \<lparr>dfs_success = True\<rparr>"
        using assms(2) Some by (auto simp: DeleteFile_def getFile_eq ms_def Let_def)
      moreover have "st\<lparr>store := ?ms\<rparr> = (st\<lparr>store := ?ms\<rparr>)\<lparr>running := running st, cleanup_thread := cleanup_thread st\<rparr>"
        by simp
      ultimately show thesis using that by (metis (full_types))
    qed
    have "rel_option (file_ok (registered_nodes st) w) (active_files ?ms p) ((f(name := None)) p)" for p
      using R1 by (simp add: represents_def active_files_deletePath)
    then show ?thesis
      using coord_inv_thread [where b = b and pc = pc, OF inv2] R1 f res by (auto simp: represents_def st')
  qed
qed

lemma cleanup_round_refines:
  assumes "client_factory rt = create" "represents n k st w f" "n \<le> 2 ^ 31"
    and "cleanup_round rt now st (w, log) = (st', w', log')"
  shows "represents n k st' w' f"
    and "changes (removed {chunk_id c | c t. t \<in> set (deleted_entries (store st)) \<and> expired now t \<and>
            c \<in> set (chunks (fst (snd t)))}) w w'"
proof -
  let ?del = "\<lambda>meta. cleanup_chunks rt (registered_nodes st) (chunks meta)"
  let ?gone = "filter (expired now) (deleted_entries (store st))"
  let ?C = "{chunk_id c | c t. t \<in> set (deleted_entries (store st)) \<and> expired now t \<and>
            c \<in> set (chunks (fst (snd t)))}"
  have st': "st' = st\<lparr>store := fst (cleanupTombstones now (Some ?del) (store st) (w, log))\<rparr>"
    and w': "w' = fst (fold (\<lambda>t. ?del (fst (snd t))) ?gone (w, log))"
    using assms(4) cleanupTombstones_world [of now ?del "store st" "(w, log)"]
    by (auto simp: cleanup_round_def split: prod.splits)
  have valid: "valid (chunk_id c)" if "t \<in> set (deleted_entries (store st))" "c \<in> set (chunks (fst (snd t)))" for t c
    by (rule represents_chunks_valid [OF assms(2,3)])
      (use that in \<open>auto simp: all_chunks_def store_metas_def intro!: bexI\<close>)
  have "sound v \<Longrightarrow> set ts \<subseteq> set ?gone \<Longrightarrow> changes (removed ?C) v (fst (fold (\<lambda>t. ?del (fst (snd t))) ts (v, l)))" for ts v l
  proof (induction ts arbitrary: v l)
    case (Cons t ts)
    obtain v1 l1 where s: "?del (fst (snd t)) (v, l) = (v1, l1)" by (metis prod.exhaust)
    have "changes (removed (chunk_id ` set (chunks (fst (snd t))))) v v1"
      using cleanup_chunks_changes [OF assms(1) Cons.prems(1), of "chunks (fst (snd t))" "registered_nodes st" l]
        valid [of t] Cons.prems(2) s by auto
    then have ch: "changes (removed ?C) v v1"
    proof (rule changes_mono)
      have "t \<in> set (deleted_entries (store st))" "expired now t" using Cons.prems(2) by simp_all
      then show "removed ?C c x" if "removed (chunk_id ` set (chunks (fst (snd t)))) c x" for c x
        using that unfolding removed_def by blast
    qed
    then show ?case
      using changes_trans [OF ch Cons.IH [OF changes_sound [OF ch]]] Cons.prems(2) s by simp
  qed simp
  from this [of w ?gone log] show ch: "changes (removed ?C) w w'"
    using assms(2) by (simp add: w' represents_def)
  have R: "represents n k st w' f"
  proof (rule represents_world [OF assms(2) ch])
    fix p meta c v
    assume "active_files (store st) p = Some meta" "c \<in> set (chunks meta)"
    moreover have "distinct (map chunk_id (all_chunks (store st)))"
      using assms(2) by (simp add: represents_def coord_inv_def)
    ultimately show "\<not> removed ?C (chunk_id c) v"
      using active_not_deleted unfolding removed_def by blast
  qed
  show "represents n k st' w' f"
  proof (rule represents_store [OF R])
    have "coord_inv n k st" using assms(2) by (simp add: represents_def)
    then show "coord_inv n k st'"
      unfolding st' by (rule coord_inv_smaller)
        (use \<open>coord_inv n k st\<close> in \<open>simp_all add: all_chunks_cleanup store_inv_cleanup coord_inv_def\<close>)
  qed (simp_all add: st' active_files_cleanup)
qed

lemma Unregister_refines:
  assumes "represents n k st w f" "UnregisterDataNode i st = ((status, resp), st')"
  shows "represents n k st' w f \<and> spec_allows f (Unregister_Node i) (Unregister_Result status resp)"
proof -
  have st': "st' = st \<or> st' = st\<lparr>registered_nodes := AList.delete i (registered_nodes st)\<rparr>"
    and res: "status_ok status = udr_success resp"
    using assms(2) by (auto simp: UnregisterDataNode_def split: option.splits)
  have inv: "coord_inv n k st'"
    using coord_inv_Unregister [of n k st i] assms by (simp add: represents_def)
  have reg: "map_of (registered_nodes st') j = map_of (registered_nodes st) j \<or> map_of (registered_nodes st') j = None" for j
    using st' by (cases "j = i") auto
  have st: "store st' = store st" using st' by auto
  have "rel_option (file_ok (registered_nodes st') w) (active_files (store st) p) (f p)" for p
  proof -
    have "rel_option (file_ok (registered_nodes st) w) (active_files (store st) p) (f p)"
      using assms(1) by (simp add: represents_def)
    then show ?thesis
      by (rule option.rel_mono_strong) (rule file_ok_registry [OF _ reg])
  qed
  then show ?thesis using inv res assms(1) st by (simp add: represents_def)
qed

lemma Register_refines:
  assumes "good_runtime rt" "represents n k st w f" "k < 2 ^ 32 - 1"
    and "RegisterDataNode (hash_order rt) peer port st = ((status, resp), st')"
  shows "\<exists>k'. k \<le> k' \<and> k' \<le> k + 1 \<and> represents n k' st' w f \<and>
    spec_allows f (Register_Node peer port) (Register_Result status resp)"
proof -
  have h: "iterates_all (hash_order rt)" using assms(1) by (simp add: good_runtime_def)
  have inv0: "coord_inv n k st" using assms(2) by (simp add: represents_def)
  obtain k' where k': "k \<le> k'" "k' \<le> k + 1" "coord_inv n k' st'"
    using coord_inv_Register [OF inv0 h assms(3), of peer port] assms(4) by auto
  have status: "status = status_OK" and st: "store st' = store st"
    and reg: "\<And>j. j \<noteq> next_node_id st \<Longrightarrow> map_of (registered_nodes st') j = map_of (registered_nodes st) j"
    using assms(4) by (auto simp: RegisterDataNode_def Let_def split: option.splits)
  have nx: "next_node_id st \<notin> of_nat ` {1..k}"
    using fresh_id [OF assms(3)] inv0 by (simp add: coord_inv_def registry_inv_def)
  have "rel_option (file_ok (registered_nodes st') w) (active_files (store st) p) (f p)" for p
  proof (cases "active_files (store st) p")
    case None
    then show ?thesis using represents_none [OF assms(2), of p] by simp
  next
    case (Some meta)
    obtain d where d: "f p = Some d" "file_ok (registered_nodes st) w meta d"
      using represents_some [OF assms(2) Some] by blast
    have "file_ok (registered_nodes st') w meta d"
    proof (rule file_ok_registry [OF d(2)])
      fix c i assume "c \<in> set (chunks meta)" "i \<in> set (node_ids c)"
      then have "i \<in> of_nat ` {1..k}"
        using inv0 active_chunks [OF Some] unfolding coord_inv_def by blast
      then have "i \<noteq> next_node_id st" using nx by blast
      then show "map_of (registered_nodes st') i = map_of (registered_nodes st) i \<or> map_of (registered_nodes st') i = None"
        using reg by blast
    qed
    then show ?thesis using Some d(1) by simp
  qed
  then have "represents n k' st' w f" using k'(3) assms(2) st by (simp add: represents_def)
  then show ?thesis using k' status by auto
qed

text \<open>One request or round.\<close>

lemma dfs_step_refines:
  assumes "client_factory rt = create" "good_runtime rt" "represents n k st w f"
    and "n + 2048 \<le> 2 ^ 31" "k + 3 \<le> 2 ^ 31" "small_op x"
  shows "\<exists>r st' w' log' n' k'. dfs_step rt x (st, w, log) = Some (r, st', w', log') \<and>
     n' \<le> n + 2048 \<and> k' \<le> k + 1 \<and> represents n' k' st' w' (spec_after f x r) \<and> spec_allows f x r"
proof (cases x)
  case (Put_File reqs)
  then have "length (upload_data reqs) \<le> 2 ^ 31" using assms(6) by simp
  from PutFile_refines [OF assms(1-4) this assms(5)]
  obtain status resp st' w' n' where P: "PutFile rt reqs st w = Some ((status, resp), st', w')"
     "n' \<le> n + 2048" "represents n' k st' w' (spec_after f x (Put_Result status))"
     "spec_allows f x (Put_Result status)" unfolding Put_File by blast
  have "dfs_step rt x (st, w, log) = Some (Put_Result status, st', w', log)" by (simp add: Put_File P(1))
  moreover have "k \<le> k + 1" by simp
  ultimately show ?thesis using P(2-4) by blast
next
  case (Get_File name wr)
  obtain status resps st' w' where G: "GetFile rt \<lparr>gfr_filename = name\<rparr> wr st w = ((status, resps), st', w')"
    by (metis prod.exhaust)
  show ?thesis
    using GetFile_refines [OF assms(1,3) G]
    by (intro exI [of _ "Get_Result status (concat (map gfs_data resps))"] exI [of _ st'] exI [of _ w'] exI [of _ log]
        exI [of _ n] exI [of _ k]) (simp add: Get_File G)
next
  case (Delete_File name t now)
  obtain status resp st' where D: "DeleteFile \<lparr>dfr_path = name\<rparr> t now st = ((status, resp), st')"
    by (metis prod.exhaust)
  show ?thesis
    using DeleteFile_refines [OF assms(3) D]
    by (intro exI [of _ "Delete_Result status"] exI [of _ st'] exI [of _ w] exI [of _ log]
        exI [of _ n] exI [of _ k]) (simp add: Delete_File D)
next
  case (Register_Node peer port)
  obtain status resp st' where D: "RegisterDataNode (hash_order rt) peer port st = ((status, resp), st')"
    by (metis prod.exhaust)
  have k: "k < 2 ^ 32 - 1" using assms(5) by simp
  obtain k' where "k' \<le> k + 1" "represents n k' st' w f" "spec_allows f x (Register_Result status resp)"
    using Register_refines [OF assms(2,3) k D] unfolding Register_Node by blast
  then show ?thesis
    by (intro exI [of _ "Register_Result status resp"] exI [of _ st'] exI [of _ w] exI [of _ log]
        exI [of _ n] exI [of _ k']) (simp add: Register_Node D)
next
  case (Unregister_Node i)
  obtain status resp st' where D: "UnregisterDataNode i st = ((status, resp), st')"
    by (metis prod.exhaust)
  show ?thesis
    using Unregister_refines [OF assms(3) D]
    by (intro exI [of _ "Unregister_Result status resp"] exI [of _ st'] exI [of _ w] exI [of _ log]
        exI [of _ n] exI [of _ k]) (simp add: Unregister_Node D)
next
  case (Cleanup_Round now)
  obtain st' w' log' where D: "cleanup_round rt now st (w, log) = (st', w', log')"
    by (metis prod.exhaust)
  have "n \<le> 2 ^ 31" using assms(4) by simp
  from cleanup_round_refines(1) [OF assms(1,3) this D] show ?thesis
    by (intro exI [of _ Cleanup_Result] exI [of _ st'] exI [of _ w'] exI [of _ log']
        exI [of _ n] exI [of _ k]) (simp add: Cleanup_Round D)
qed

lemma dfs_run_refines:
  assumes "client_factory rt = create" "good_runtime rt" "represents n k st w f"
    and "n + 2048 * length xs \<le> 2 ^ 31" "k + length xs + 3 \<le> 2 ^ 31" "list_all small_op xs"
  shows "\<exists>rs st' w' log' n' k'. dfs_run rt xs (st, w, log) = Some (rs, st', w', log') \<and>
     n' \<le> n + 2048 * length xs \<and> k' \<le> k + length xs \<and> represents n' k' st' w' (spec_final xs rs f) \<and>
     spec_accepts xs rs f"
  using assms(3-6)
proof (induction xs arbitrary: n k st w f log)
  case (Cons x xs)
  have b: "n + 2048 \<le> 2 ^ 31" "k + 3 \<le> 2 ^ 31" "small_op x" using Cons.prems by simp_all
  obtain r st' w' log' n' k' where s: "dfs_step rt x (st, w, log) = Some (r, st', w', log')"
     "n' \<le> n + 2048" "k' \<le> k + 1" "represents n' k' st' w' (spec_after f x r)" "spec_allows f x r"
    using dfs_step_refines [OF assms(1,2) Cons.prems(1) b, of log] by blast
  have "n' + 2048 * length xs \<le> 2 ^ 31" "k' + length xs + 3 \<le> 2 ^ 31" "list_all small_op xs"
    using s(2,3) Cons.prems by simp_all
  from Cons.IH [OF s(4) this, of log']
  obtain rs st2 w2 log2 n2 k2 where t: "dfs_run rt xs (st', w', log') = Some (rs, st2, w2, log2)"
     "n2 \<le> n' + 2048 * length xs" "k2 \<le> k' + length xs"
     "represents n2 k2 st2 w2 (spec_final xs rs (spec_after f x r))" "spec_accepts xs rs (spec_after f x r)" by blast
  have "n2 \<le> n + 2048 * length (x # xs)" "k2 \<le> k + length (x # xs)" using s(2,3) t(2,3) by simp_all
  then show ?case
    using s(1,5) t(1,4,5) by (intro exI [of _ "r # rs"] exI conjI) auto
qed (intro exI conjI, auto)

lemma represents_new: "sound w \<Longrightarrow> represents 0 0 new_CoordinatorServiceImpl w Map.empty"
  using coord_inv_new
  by (simp add: represents_def new_CoordinatorServiceImpl_def active_files_def empty_MetadataStore_def)

text \<open>Availability of the two data paths.\<close>

lemma PutFile_available:
  assumes "client_factory rt = create" "good_runtime rt" "represents n k st w f" "n + 2048 \<le> 2 ^ 31"
    and "length (upload_data reqs) \<le> 2 ^ 31" "upload_name reqs \<noteq> []" "f (upload_name reqs) = None"
    and "registered_nodes st \<noteq> []" "\<forall>(i, info) \<in> set (registered_nodes st). live w (info_endpoint info)"
    and "k + 3 \<le> 2 ^ 31"
  shows "\<exists>st' w'. PutFile rt reqs st w = Some ((status_OK, \<lparr>pfs_success = True\<rparr>), st', w')"
proof -
  obtain req rest where reqs: "reqs = req # rest" using assms(6) by (cases reqs) (auto simp: upload_name_def)
  define st1 where "st1 = st\<lparr>store := (store st)\<lparr>read_count := read_count (store st) + 1\<rparr>\<rparr>"
  have st1: "st\<lparr>store := store st1\<rparr> = st1" by (simp add: st1_def)
  have act: "active_files (store st) (pfr_filename req) = None"
    using represents_none [OF assms(3)] assms(7) by (simp add: reqs upload_name_def)
  then have recv: "put_receive True [] [] reqs (store st) = (Inr (upload_name reqs, upload_data reqs), store st1)"
    by (simp add: put_receive_eq reqs upload_name_def upload_data_def st1_def del: put_receive.simps)
  define d where "d = upload_data reqs"
  define js where "js = [0..<nat (sint (num_chunks (length d)))]"
  have d: "length js \<le> 2048" "\<forall>i \<in> set js. i * CHUNK_SIZE < 2 ^ 31"
    using small_slices [of d] assms(5) unfolding d_def js_def by simp_all
  have inv: "sound w" "chunk_id_counter st1 = of_nat n" "distinct (map fst (registered_nodes st1))"
    "registered_nodes st1 = registered_nodes st"
    using assms(3) by (simp_all add: represents_def coord_inv_def registry_inv_def st1_def)
  have few: "few_nodes st1"
    by (rule few_nodes_inv [OF _ assms(10)]) (use assms(3) in \<open>simp add: represents_def coord_inv_def st1_def registry_inv_def\<close>)
  have "n + length js \<le> 2 ^ 31" using d(1) assms(4) by simp
  then obtain cs st' w' where "put_chunks rt d js st1 w = Some (Inr cs, st', w')"
    using put_chunks_ok [OF assms(1,2) inv(1,2), of js d] inv(3,4) assms(8,9) d(2) few by auto
  then show ?thesis
    using assms(6) by (simp add: PutFile_def recv st1 Let_def flip: d_def js_def)
qed

lemma GetFile_available:
  assumes "client_factory rt = create" "represents n k st w f" "active_files (store st) name = Some meta"
    and "\<forall>c \<in> set (chunks meta). \<exists>i \<in> set (node_ids c). \<exists>info.
           map_of (registered_nodes st) i = Some info \<and> live w (info_endpoint info)"
    and "\<forall>i. wr i"
    and "GetFile rt \<lparr>gfr_filename = name\<rparr> wr st w = ((status, resps), st', w')"
  shows "status_ok status \<and> f name = Some (concat (map gfs_data resps))"
proof -
  obtain d where d: "f name = Some d" "file_ok (registered_nodes st) w meta d"
    using represents_some [OF assms(2,3)] by blast
  obtain ds where ds: "list_all2 (replica_ok (registered_nodes st) w) (chunks meta) ds"
    using d(2) by (auto simp: file_ok_def)
  have loop: "get_file_loop rt (registered_nodes st) wr 0 (chunks meta) w = ((status, resps), w')"
    using assms(3,6) by (auto simp: GetFile_def getFile_eq split: prod.splits)
  have "sound w" using assms(2) by (simp add: represents_def)
  from get_file_loop_ok [OF assms(1) this ds assms(5,4), of 0] have ok: "status_ok status"
    using loop by simp
  then show ?thesis using GetFile_refines [OF assms(1,2,6)] d(1) by simp
qed

text \<open>A cleanup round removes the chunks of every expired tombstone from the live nodes.\<close>

lemma cleanup_round_removes:
  assumes "client_factory rt = create" "represents n k st w f" "n \<le> 2 ^ 31"
    and "cleanup_round rt now st (w, log) = (st', w', log')"
    and t: "t \<in> set (deleted_entries (store st))" "expired now t" "c \<in> set (chunks (fst (snd t)))"
    and i: "i \<in> set (node_ids c)" "map_of (registered_nodes st) i = Some info" "live w (info_endpoint info)"
  shows "stored w' (info_endpoint info) (chunk_id c) = None"
proof -
  let ?del = "\<lambda>meta. cleanup_chunks rt (registered_nodes st) (chunks meta)"
  let ?gone = "filter (expired now) (deleted_entries (store st))"
  have w': "w' = fst (fold (\<lambda>t. ?del (fst (snd t))) ?gone (w, log))"
    using assms(4) cleanupTombstones_world [of now ?del "store st" "(w, log)"]
    by (auto simp: cleanup_round_def split: prod.splits)
  have valid: "valid (chunk_id c)" if "t \<in> set ?gone" "c \<in> set (chunks (fst (snd t)))" for t c
    by (rule represents_chunks_valid [OF assms(2,3)])
      (use that in \<open>auto simp: all_chunks_def store_metas_def intro!: bexI\<close>)
  have vc: "valid (chunk_id c)" by (rule valid) (use t in simp_all)
  have "sound v \<Longrightarrow> live v (info_endpoint info) \<Longrightarrow> set ts \<subseteq> set ?gone \<Longrightarrow>
      t \<in> set ts \<or> stored v (info_endpoint info) (chunk_id c) = None \<Longrightarrow>
      stored (fst (fold (\<lambda>t. ?del (fst (snd t))) ts (v, l))) (info_endpoint info) (chunk_id c) = None" for ts v l
  proof (induction ts arbitrary: v l)
    case (Cons s ts)
    obtain v1 l1 where s: "?del (fst (snd s)) (v, l) = (v1, l1)" by (metis prod.exhaust)
    have vs: "\<forall>c \<in> set (chunks (fst (snd s))). valid (chunk_id c)" using valid [of s] Cons.prems(3) by auto
    have ch: "changes (removed (chunk_id ` set (chunks (fst (snd s))))) v v1"
      using cleanup_chunks_changes [OF assms(1) Cons.prems(1) vs, of "registered_nodes st" l] s by simp
    have "t \<in> set ts \<or> stored v1 (info_endpoint info) (chunk_id c) = None"
    proof (cases "t \<in> set ts")
      case False
      have "stored v1 (info_endpoint info) (chunk_id c) = None"
      proof (cases "s = t")
        case True
        then show ?thesis
          using cleanup_chunks_removes [OF assms(1) Cons.prems(1) vs _ i(1,2) Cons.prems(2), of l] t(3) s by simp
      next
        case sf: False
        then have "stored v (info_endpoint info) (chunk_id c) = None" using Cons.prems(4) False by auto
        then show ?thesis using ch vc unfolding changes_def removed_def by metis
      qed
      then show ?thesis ..
    qed simp
    then show ?case
      using Cons.IH [OF changes_sound [OF ch] changes_live [OF ch Cons.prems(2)]] Cons.prems(3) s by simp
  qed simp
  from this [of w ?gone log] show ?thesis
    using assms(2) t i(3) by (simp add: w' represents_def)
qed

end

section \<open>Uploads beyond 2 GiB\<close>

lemma map_sum_eqs:
  "map_sum (\<lambda>a. a) g x = Inl e \<longleftrightarrow> x = Inl e"
  "map_sum (\<lambda>a. a) g x = Inr e' \<longleftrightarrow> (\<exists>y. x = Inr y \<and> e' = g y)"
  by (cases x; auto)+

lemma put_chunks_append:
  "put_chunks rt d is st w = Some (Inr cs, st1, w1) \<Longrightarrow>
   put_chunks rt d (is @ js) st w
     = map_option (map_prod (map_sum id (append cs)) id) (put_chunks rt d js st1 w1)"
proof (induction "is" arbitrary: st w cs)
  case Nil
  then show ?case by (simp add: map_sum.id map_prod.id option.map_id0 flip: id_def)
next
  case (Cons i "is")
  have "map_option (map_prod (map_sum id (append (c # cs'))) id) r
      = (case map_option (map_prod (map_sum id (append cs')) id) r of
           None \<Rightarrow> None | Some (Inl s, q) \<Rightarrow> Some (Inl s, q) | Some (Inr cs, q) \<Rightarrow> Some (Inr (c # cs), q))"
    for r :: "((Status + ChunkInfo list) \<times> CoordinatorServiceImpl \<times> 'a) option" and c cs'
  proof (cases r)
    case (Some q)
    then show ?thesis by (cases q; cases "fst q") auto
  qed simp
  then show ?case
    using Cons by (auto simp: Let_def map_sum_eqs split: if_splits prod.splits option.splits sum.splits)
qed

lemma upt_split: "m < n \<Longrightarrow> [0..<n] = [0..<m] @ m # [Suc m..<n]"
  using upt_add_eq_append [of 0 m "n - m"] upt_conv_Cons [of m n] by simp

lemma large_indices:
  assumes "2 ^ 31 < len" "len \<le> 2 ^ 50" "k = 2048"
  shows "\<exists>js. [0..<nat (sint (num_chunks len))] = [0..<k] @ k # js"
proof -
  have "k < nat (sint (num_chunks len))" using assms num_chunks_value [of len] by simp
  from upt_split [OF this] show ?thesis by blast
qed

lemma PutFile_large_not_ok:
  assumes "2 ^ 31 < length (upload_data reqs)" "length (upload_data reqs) \<le> 2 ^ 50"
    and "PutFile rt reqs st w = Some ((status, resp), st', w')"
  shows "\<not> status_ok status"
proof
  assume ok: "status_ok status"
  define k :: nat where "k = 2048"
  obtain js where js: "[0..<nat (sint (num_chunks (length (upload_data reqs))))] = [0..<k] @ k # js"
    using large_indices [OF assms(1,2) k_def] by blast
  have recv: "put_receive True [] [] reqs (store st) = (Inr (name, d), ms) \<Longrightarrow> d = upload_data reqs" for name d ms
    by (auto simp: put_receive_eq upload_data_def simp del: put_receive.simps split: list.splits if_splits)
  obtain name ms cs st1 w1 where recv': "put_receive True [] [] reqs (store st) = (Inr (name, upload_data reqs), ms)"
    and run: "put_chunks rt (upload_data reqs) ([0..<k] @ k # js) (st\<lparr>store := ms\<rparr>) w = Some (Inr cs, st1, w1)"
  proof (cases "put_receive True [] [] reqs (store st)")
    case (Pair res ms)
    show thesis
    proof (cases res)
      case (Inl s)
      then have "\<not> status_ok s" using Pair
        by (auto simp: put_receive_eq simp del: put_receive.simps split: list.splits if_splits)
      then show thesis using assms(3) Pair Inl ok by (simp add: PutFile_def)
    next
      case (Inr nd)
      obtain name d where nd: "nd = (name, d)" by (cases nd)
      have d: "d = upload_data reqs" using recv [of name d ms] Pair Inr nd by simp
      have "put_receive True [] [] reqs (store st) = (Inr (name, upload_data reqs), ms)"
        using Pair Inr nd d by simp
      moreover from this have "\<exists>cs st1 w1. put_chunks rt (upload_data reqs) ([0..<k] @ k # js) (st\<lparr>store := ms\<rparr>) w
          = Some (Inr cs, st1, w1)"
        using assms(3) ok unfolding PutFile_def
        by (auto simp: js dest: put_chunks_error split: if_splits option.splits sum.splits)
      ultimately show thesis using that by blast
    qed
  qed
  from put_chunks_bound(1) [OF run] show False by (simp add: CHUNK_SIZE_eq k_def)
qed

context dfs_nodes
begin

lemma PutFile_overflow:
  assumes "client_factory rt = create" "good_runtime rt" "represents n k st w f" "n + 2049 \<le> 2 ^ 31"
    and "2 ^ 31 < length (upload_data reqs)" "length (upload_data reqs) \<le> 2 ^ 50"
    and "upload_name reqs \<noteq> []" "f (upload_name reqs) = None"
    and "registered_nodes st \<noteq> []" "\<forall>(i, info) \<in> set (registered_nodes st). live w (info_endpoint info)"
    and "k + 3 \<le> 2 ^ 31"
  shows "PutFile rt reqs st w = None"
proof -
  obtain req rest where reqs: "reqs = req # rest" using assms(7) by (cases reqs) (auto simp: upload_name_def)
  define st1 where "st1 = st\<lparr>store := (store st)\<lparr>read_count := read_count (store st) + 1\<rparr>\<rparr>"
  have st1: "st\<lparr>store := store st1\<rparr> = st1" by (simp add: st1_def)
  have act: "active_files (store st) (pfr_filename req) = None"
    using represents_none [OF assms(3)] assms(8) by (simp add: reqs upload_name_def)
  then have recv: "put_receive True [] [] reqs (store st) = (Inr (upload_name reqs, upload_data reqs), store st1)"
    by (simp add: put_receive_eq reqs upload_name_def upload_data_def st1_def del: put_receive.simps)
  define d where "d = upload_data reqs"
  define k0 :: nat where "k0 = 2048"
  obtain js where js: "[0..<nat (sint (num_chunks (length d)))] = [0..<k0] @ k0 # js"
    using large_indices [OF assms(5,6) k0_def] unfolding d_def by blast
  have inv: "sound w" "chunk_id_counter st1 = of_nat n" "distinct (map fst (registered_nodes st1))"
    "registered_nodes st1 = registered_nodes st"
    using assms(3) by (simp_all add: represents_def coord_inv_def registry_inv_def st1_def)
  have small: "\<forall>i \<in> set [0..<k0]. i * CHUNK_SIZE < 2 ^ 31" by (simp add: CHUNK_SIZE_eq k0_def)
  have bound: "n + length [0..<k0] \<le> 2 ^ 31" using assms(4) by (simp add: k0_def)
  have few: "few_nodes st1"
    by (rule few_nodes_inv [OF _ assms(11)]) (use assms(3) in \<open>simp add: represents_def coord_inv_def st1_def registry_inv_def\<close>)
  obtain cs st2 w2 where run: "put_chunks rt d [0..<k0] st1 w = Some (Inr cs, st2, w2)"
    using put_chunks_ok [OF assms(1,2) inv(1,2) bound _ inv(3) _ small few, of d] inv(4) assms(9,10) by auto
  obtain x where st2: "st2 = st1\<lparr>chunk_id_counter := of_nat (n + k0), next_node_index := x\<rparr>"
    using put_chunks_effect [OF assms(1,2) inv(1,2) bound run] by auto
  have "chunk_id_counter st2 = of_nat (n + k0)" "n + k0 < 2 ^ 31" "iterates_all (hash_order rt)"
    using assms(2,4) st2 by (simp_all add: good_runtime_def k0_def)
  from put_chunks_Cons [OF this, of d k0 js w2] have "put_chunks rt d (k0 # js) st2 w2 = None"
    using assms(9) inv(4) st2 by (auto simp: CHUNK_SIZE_eq k0_def)
  then have "put_chunks rt d ([0..<k0] @ k0 # js) st1 w = None"
    using put_chunks_append [OF run] by simp
  then show ?thesis
    using assms(7) by (simp add: PutFile_def recv st1 js flip: d_def)
qed

end

section \<open>The worker thread\<close>

lemma worker_sleep:
  assumes "running st" "i + m \<le> 60"
  shows "(cleanupWorker_step rt now ^^ m) (st\<lparr>cleanup_thread := Some (Sleep_Test i)\<rparr>, s)
    = (st\<lparr>cleanup_thread := Some (Sleep_Test (i + m))\<rparr>, s)"
  using assms(2)
proof (induction m)
  case (Suc m)
  then show ?case using assms(1) by simp
qed simp

definition is_deleted :: "cleanup_log \<Rightarrow> bool" where
  "is_deleted e \<longleftrightarrow> (case e of Deleted c i \<Rightarrow> True | _ \<Rightarrow> False)"

lemma cleanup_nodes_log:
  "\<exists>new. snd (cleanup_nodes rt reg c ids (w, log)) = log @ new \<and> (\<forall>e \<in> set new. \<not> is_deleted e)"
proof (induction ids arbitrary: w log)
  case (Cons i ids)
  have ext: "\<exists>new. snd (cleanup_nodes rt reg c ids (v, log @ [e])) = log @ new \<and> (\<forall>e \<in> set new. \<not> is_deleted e)"
    if "\<not> is_deleted e" for v e
  proof -
    obtain new where "snd (cleanup_nodes rt reg c ids (v, log @ [e])) = (log @ [e]) @ new" "\<forall>e \<in> set new. \<not> is_deleted e"
      using Cons.IH [of v "log @ [e]"] by blast
    then show ?thesis using that by (intro exI [of _ "e # new"]) simp
  qed
  have "\<not> is_deleted (Unknown_Node i)" "\<not> is_deleted (Rpc_Error c i m)" "\<not> is_deleted (Delete_Failed c i m)" for m
    by (simp_all add: is_deleted_def)
  then show ?case
    by (auto simp: split_beta Let_def empty_DeleteChunkResponse_def intro!: ext split: option.split)
qed simp

lemma cleanup_chunks_log:
  "\<exists>new. snd (cleanup_chunks rt reg cs (w, log)) = log @ new \<and> (\<forall>e \<in> set new. \<not> is_deleted e)"
proof (induction cs arbitrary: w log)
  case (Cons c cs)
  obtain w1 log1 where s: "cleanup_nodes rt reg (chunk_id c) (node_ids c) (w, log) = (w1, log1)"
    by (metis prod.exhaust)
  obtain new where "log1 = log @ new" "\<forall>e \<in> set new. \<not> is_deleted e"
    using cleanup_nodes_log [of rt reg "chunk_id c" "node_ids c" w log] s by auto
  moreover obtain new' where "snd (cleanup_chunks rt reg cs (w1, log1)) = log1 @ new'" "\<forall>e \<in> set new'. \<not> is_deleted e"
    using Cons.IH by blast
  ultimately show ?case using s by (intro exI [of _ "new @ new'"]) auto
qed simp

lemma put_chunks_nodes:
  assumes "iterates_all (hash_order rt)" "put_chunks rt d is st w = Some (Inr cs, st', w')"
  shows "registered_nodes st' = registered_nodes st \<and>
    (\<forall>c \<in> set cs. node_ids c \<noteq> [] \<and> set (node_ids c) \<subseteq> fst ` set (registered_nodes st))"
  using assms(2)
proof (induction "is" arbitrary: st w cs)
  case (Cons i "is")
  define st1 where "st1 = st\<lparr>chunk_id_counter := chunk_id_counter st + 1\<rparr>"
  obtain ids st2 where sel: "selectNodesForReplication (hash_order rt) 3 st1 = Some (ids, st2)"
    using Cons.prems by (auto simp: Let_def replication_factor_default simp flip: st1_def split: option.splits)
  have reg: "registered_nodes st2 = registered_nodes st"
    using select_state [OF sel] by (auto simp: st1_def)
  have sub: "set ids \<subseteq> fst ` set (registered_nodes st)"
    using select_members(1) [OF assms(1) sel] by (simp add: st1_def)
  have "\<exists>c cs' w1. cs = c # cs' \<and> node_ids c = ids \<and> ids \<noteq> [] \<and> put_chunks rt d is st2 w1 = Some (Inr cs', st', w')"
    using Cons.prems sel
    by (auto simp: Let_def default_ChunkInfo_def simp flip: st1_def
        split: if_splits prod.splits option.splits sum.splits)
  then obtain c cs' w1 where "cs = c # cs'" "node_ids c = ids" "ids \<noteq> []"
      "put_chunks rt d is st2 w1 = Some (Inr cs', st', w')" by blast
  then show ?case using Cons.IH [of st2 w1 cs'] reg sub by auto
qed simp

lemma PutFile_meta:
  assumes "iterates_all (hash_order rt)" "PutFile rt reqs st w = Some ((status, resp), st', w')" "status_ok status"
  shows "\<exists>meta. active_files (store st') (upload_name reqs) = Some meta \<and> registered_nodes st' = registered_nodes st \<and>
    (\<forall>c \<in> set (chunks meta). node_ids c \<noteq> [] \<and> set (node_ids c) \<subseteq> fst ` set (registered_nodes st))"
proof -
  obtain name d ms where recv: "put_receive True [] [] reqs (store st) = (Inr (name, d), ms)"
  proof (cases "put_receive True [] [] reqs (store st)")
    case (Pair res ms)
    show thesis
    proof (cases res)
      case (Inl s)
      then have "\<not> status_ok s" using Pair
        by (auto simp: put_receive_eq simp del: put_receive.simps split: list.splits if_splits)
      then show thesis using assms(2,3) Pair Inl by (simp add: PutFile_def)
    next
      case (Inr nd)
      then show thesis using Pair that by (cases nd) simp
    qed
  qed
  have name: "name = upload_name reqs"
    using recv by (auto simp: put_receive_eq upload_name_def simp del: put_receive.simps split: list.splits if_splits)
  define js where "js = [0..<nat (sint (num_chunks (length d)))]"
  obtain cs st2 where run: "put_chunks rt d js (st\<lparr>store := ms\<rparr>) w = Some (Inr cs, st2, w')"
    and st': "st' = st2\<lparr>store := putFile name \<lparr>fm_size = of_nat (length d), chunk_size = of_nat CHUNK_SIZE, chunks = cs\<rparr> (store st2)\<rparr>"
    using assms(2,3) unfolding PutFile_def recv
    by (auto simp: Let_def simp flip: js_def dest: put_chunks_error split: if_splits option.splits sum.splits)
  show ?thesis
    using put_chunks_nodes [OF assms(1) run] by (simp add: st' active_files_putFile name)
qed

context dfs_nodes
begin

lemma PutFile_live:
  assumes "client_factory rt = create" "good_runtime rt" "represents n k st w f" "n + 2048 \<le> 2 ^ 31"
    and "length (upload_data reqs) \<le> 2 ^ 31" "PutFile rt reqs st w = Some (r, st', w')" "live w e"
  shows "live w' e"
proof -
  obtain res ms where recv: "put_receive True [] [] reqs (store st) = (res, ms)" by (metis prod.exhaust)
  show ?thesis
  proof (cases res)
    case (Inl s)
    then show ?thesis using assms(6,7) recv by (simp add: PutFile_def)
  next
    case (Inr nd)
    obtain name d where nd: "nd = (name, d)" by (cases nd)
    have d: "d = upload_data reqs"
      using recv Inr nd by (auto simp: put_receive_eq upload_data_def simp del: put_receive.simps split: list.splits if_splits)
    define js where "js = [0..<nat (sint (num_chunks (length d)))]"
    have len: "length js \<le> 2048" using small_slices(1) [of d] assms(5) by (simp add: js_def d)
    have inv: "sound w" "chunk_id_counter (st\<lparr>store := ms\<rparr>) = of_nat n" "n + length js \<le> 2 ^ 31"
      using assms(3,4) len by (simp_all add: represents_def coord_inv_def)
    consider "w' = w" | r' st2 where "put_chunks rt d js (st\<lparr>store := ms\<rparr>) w = Some (r', st2, w')"
      using assms(6) unfolding PutFile_def recv Inr nd
      by (auto simp: Let_def simp flip: js_def split: if_splits option.splits sum.splits)
    then show ?thesis
    proof cases
      case 1
      then show ?thesis using assms(7) by simp
    next
      case 2
      obtain m where "changes (fresh_names n (n + m)) w w'"
        using put_chunks_effect [OF assms(1,2) inv 2] by blast
      then show ?thesis using changes_live assms(7) by blast
    qed
  qed
qed

text \<open>An upload, then a download by an attentive client.\<close>

lemma put_then_get_file:
  assumes "client_factory rt = create" "good_runtime rt" "represents n k st w f" "n + 2048 \<le> 2 ^ 31"
    and "length (upload_data reqs) \<le> 2 ^ 31" "upload_name reqs \<noteq> []" "f (upload_name reqs) = None"
    and "registered_nodes st \<noteq> []" "\<forall>(i, info) \<in> set (registered_nodes st). live w (info_endpoint info)"
    and "\<forall>i. wr i" "k + 3 \<le> 2 ^ 31"
  shows "\<exists>st' w' resps s''. PutFile rt reqs st w = Some ((status_OK, \<lparr>pfs_success = True\<rparr>), st', w') \<and>
    (\<exists>status. GetFile rt \<lparr>gfr_filename = upload_name reqs\<rparr> wr st' w' = ((status, resps), s'') \<and> status_ok status) \<and>
    concat (map gfs_data resps) = upload_data reqs"
proof -
  obtain st' w' where P: "PutFile rt reqs st w = Some ((status_OK, \<lparr>pfs_success = True\<rparr>), st', w')"
    using PutFile_available [OF assms(1-9,11)] by blast
  obtain n' where R: "represents n' k st' w' (f(upload_name reqs \<mapsto> upload_data reqs))"
    using PutFile_refines [OF assms(1-5,11)] P by auto
  have h: "iterates_all (hash_order rt)" using assms(2) by (simp add: good_runtime_def)
  obtain meta where meta: "active_files (store st') (upload_name reqs) = Some meta"
    "registered_nodes st' = registered_nodes st"
    "\<forall>c \<in> set (chunks meta). node_ids c \<noteq> [] \<and> set (node_ids c) \<subseteq> fst ` set (registered_nodes st)"
    using PutFile_meta [OF h P] by auto
  have dist: "distinct (map fst (registered_nodes st))"
    using assms(3) by (simp add: represents_def coord_inv_def registry_inv_def)
  have live: "\<exists>i \<in> set (node_ids c). \<exists>info. map_of (registered_nodes st') i = Some info \<and> live w' (info_endpoint info)"
    if c: "c \<in> set (chunks meta)" for c
  proof -
    have m: "hd (node_ids c) \<in> set (node_ids c)" "hd (node_ids c) \<in> fst ` set (registered_nodes st)"
      using meta(3) c by (auto dest: hd_in_set)
    then obtain info where info: "(hd (node_ids c), info) \<in> set (registered_nodes st)" by auto
    then have "live w (info_endpoint info)" using assms(9) by auto
    from PutFile_live [OF assms(1-5) P this] show ?thesis
      using m(1) info dist meta(2) by (intro bexI [of _ "hd (node_ids c)"] exI [of _ info]) simp_all
  qed
  obtain status resps st2 w2 where G: "GetFile rt \<lparr>gfr_filename = upload_name reqs\<rparr> wr st' w' = ((status, resps), st2, w2)"
    by (metis prod.exhaust)
  have "status_ok status \<and> (f(upload_name reqs \<mapsto> upload_data reqs)) (upload_name reqs) = Some (concat (map gfs_data resps))"
    by (rule GetFile_available [OF assms(1) R meta(1) _ assms(10) G]) (use live in blast)
  then show ?thesis using P G by (intro exI [of _ st'] exI [of _ w'] exI [of _ resps] exI [of _ "(st2, w2)"]) auto
qed

end

end
