(* ===== verification/Dfs_Properties.thy ===== *)
theory Dfs_Properties
  imports Coordinator_Refinement
begin

text \<open>
  The properties of the coordinator over the cluster: any sequence of requests
  against a fresh coordinator, the availability of the two data paths, the cleanup
  and the worker thread. The proofs are the facts of the interpretation \<open>dfs\<close>.
\<close>

section \<open>Runs from a fresh coordinator\<close>

text \<open>
  \<open>reached rt ops rs st w log\<close>: the coordinator state, cluster and log after a
  sequence of requests, uploads of at most 2 GiB, on a sound cluster: a tidy one whose disks
  never run full. A full disk is excluded because a node answers OK for a chunk that it has
  truncated, so no promise on contents survives it. \<open>2^20\<close> requests make
  at most \<open>2^31\<close> chunk identifiers, all that a data node's \<open>std::stoi\<close> can read.
\<close>

definition reached ::
  "cluster runtime \<Rightarrow> dfs_op list \<Rightarrow> dfs_result list \<Rightarrow> CoordinatorServiceImpl \<Rightarrow> cluster
    \<Rightarrow> cleanup_log list \<Rightarrow> bool" where
  "reached rt ops rs st w log \<longleftrightarrow>
     (\<exists>w0. cluster_sound w0 \<and> dfs_run rt ops (new_CoordinatorServiceImpl, w0, []) = Some (rs, st, w, log)) \<and>
     good_runtime rt \<and> client_factory rt = CreateClient network_stub \<and>
     list_all small_op ops \<and> length ops < 2 ^ 20"

lemma dfs_run_append:
  "dfs_run rt (xs @ ys) s =
    (case dfs_run rt xs s of
       None \<Rightarrow> None
     | Some (rs, s1) \<Rightarrow> map_option (\<lambda>(rs', s2). (rs @ rs', s2)) (dfs_run rt ys s1))"
proof (induction xs arbitrary: s)
  case Nil
  then show ?case by (cases "dfs_run rt ys s") auto
next
  case (Cons x xs)
  show ?case
    by (auto simp: Cons.IH option.map_comp comp_def split_beta split: option.split)
qed

lemma reached_append:
  assumes "reached rt ops rs st w log" "dfs_run rt ops' (st, w, log) = Some (rs', st', w', log')"
    and "list_all small_op ops'" "length (ops @ ops') < 2 ^ 20"
  shows "reached rt (ops @ ops') (rs @ rs') st' w' log'"
  using assms unfolding reached_def dfs_run_append by auto

lemma reached_represents:
  assumes "reached rt ops rs st w log"
  shows "\<exists>n k. n + 2048 \<le> 2 ^ 31 \<and> dfs.represents n k st w (spec_final ops rs Map.empty) \<and>
    spec_accepts ops rs Map.empty \<and> k + 3 \<le> 2 ^ 31"
proof -
  obtain w0 where w0: "cluster_sound w0" "dfs_run rt ops (new_CoordinatorServiceImpl, w0, []) = Some (rs, st, w, log)"
    and rt: "good_runtime rt" "client_factory rt = CreateClient network_stub"
    and ops: "list_all small_op ops" "length ops < 2 ^ 20"
    using assms by (auto simp: reached_def)
  have "0 + 2048 * length ops \<le> 2 ^ 31" "0 + length ops + 3 \<le> 2 ^ 31" using ops(2) by simp_all
  from dfs.dfs_run_refines [OF rt(2,1) dfs.represents_new [OF w0(1)] this ops(1), of "[]"]
  obtain n k where "n \<le> 2048 * length ops" "k \<le> length ops" "dfs.represents n k st w (spec_final ops rs Map.empty)"
    "spec_accepts ops rs Map.empty" using w0(2) by auto
  then show ?thesis using ops(2) by (intro exI [of _ n] exI [of _ k]) simp
qed

section \<open>Properties\<close>


text \<open>A session on the example cluster, whose second node never answers.\<close>

definition demo_ops :: "dfs_op list" where
  "demo_ops =
    [Register_Node ''ipv4:10.0.0.1:5000'' 9000, Register_Node ''ipv4:10.0.0.2:5000'' 9000,
     Put_File [\<lparr>pfr_filename = ''a'', pfr_data = ''xy''\<rparr>, \<lparr>pfr_filename = [], pfr_data = ''z''\<rparr>],
     Get_File ''a'' (\<lambda>_. True), Unregister_Node 2,
     Put_File [\<lparr>pfr_filename = ''a'', pfr_data = ''xyz''\<rparr>], Get_File ''a'' (\<lambda>_. True),
     Delete_File ''a'' 1 2, Cleanup_Round 400000000000, Get_File ''a'' (\<lambda>_. True)]"

definition demo_fates :: "nat \<Rightarrow> string \<Rightarrow> call_fate" where
  "demo_fates n target =
    (if target = ''ipv4:10.0.0.2:9000'' then Unreachable (Status (OTHER_CODE 14) ''unreachable'')
     else Delivered)"


text \<open>No identifier ever names two chunks: after any such sequence the chunk identifiers of all
  files and tombstones are pairwise different, and every descriptor's replicas are identifiers the
  registry handed out.\<close>

theorem chunk_ids_unique:
  assumes "reached rt ops rs st w log"
  shows "distinct (map chunk_id (all_chunks (store st)))
     \<and> (\<forall>c \<in> set (all_chunks (store st)). \<forall>i \<in> set (node_ids c). 0 < unat i \<and> unat i \<le> length ops)"
proof -
  obtain w0 where w0: "cluster_sound w0" "dfs_run rt ops (new_CoordinatorServiceImpl, w0, []) = Some (rs, st, w, log)"
    and rt: "good_runtime rt" "client_factory rt = CreateClient network_stub"
    and ops: "list_all small_op ops" "length ops < 2 ^ 20"
    using assms by (auto simp: reached_def)
  have "0 + 2048 * length ops \<le> 2 ^ 31" "0 + length ops + 3 \<le> 2 ^ 31" using ops(2) by simp_all
  from dfs.dfs_run_refines [OF rt(2,1) dfs.represents_new [OF w0(1)] this ops(1), of "[]"]
  obtain n k where k: "k \<le> length ops" and "dfs.represents n k st w (spec_final ops rs Map.empty)"
    using w0(2) by auto
  then have inv: "coord_inv n k st" by (simp add: dfs.represents_def)
  have "0 < unat i \<and> unat i \<le> length ops" if "c \<in> set (all_chunks (store st))" "i \<in> set (node_ids c)" for c i
  proof -
    have "i \<in> of_nat ` {1..k}" using inv that unfolding coord_inv_def by blast
    then obtain j where j: "i = of_nat j" "1 \<le> j" "j \<le> k" by auto
    have "unat i = j" using j k ops(2) by (simp add: unsigned_of_nat take_bit_nat_eq_self)
    then show ?thesis using j k by simp
  qed
  then show ?thesis using inv by (simp add: coord_inv_def)
qed

text \<open>The states of the example: after any part of the session, and after three registrations.\<close>

lemma demo_reached:
  assumes "list_all small_op ops" "length ops < 2 ^ 20"
  shows "\<exists>rs st w log. reached demo_runtime ops rs st w log"
proof -
  have w: "cluster_sound (demo_cluster demo_fates)"
    by (rule demo_sound) (simp add: demo_fates_def honest_def)
  have "0 + 2048 * length ops \<le> 2 ^ 31" "0 + length ops + 3 \<le> 2 ^ 31" using assms(2) by simp_all
  from dfs.dfs_run_refines [OF demo_runtime_good(2,1) dfs.represents_new [OF w] this assms(1), of "[]"]
  show ?thesis using w assms demo_runtime_good unfolding reached_def by blast
qed

definition demo_registrations :: "dfs_op list" where
  "demo_registrations =
    [Register_Node ''ipv4:10.0.0.1:5000'' 9000, Register_Node ''ipv4:10.0.0.2:5000'' 9000,
     Register_Node ''ipv4:10.0.0.3:5000'' 9000]"

lemma demo_registered_state:
  "\<exists>rs. reached demo_runtime demo_registrations rs three_nodes demo_w0 []"
proof -
  have "\<exists>rs. dfs_run demo_runtime demo_registrations (new_CoordinatorServiceImpl, demo_w0, [])
      = Some (rs, three_nodes, demo_w0, [])"
    by (simp add: demo_registrations_def demo_runtime_def RegisterDataNode_def new_CoordinatorServiceImpl_def
        three_nodes_def extractClientAddress_def rfind_char_def find_char_def)
  then show ?thesis
    using demo_w0_sound demo_runtime_good by (auto simp: reached_def demo_registrations_def)
qed

lemma demo_all_live:
  "\<forall>(i, info) \<in> set (registered_nodes three_nodes). node_live demo_w0 (info_endpoint info)"
proof safe
    fix i info assume m: "(i, info) \<in> set (registered_nodes three_nodes)"
    then have "i \<in> set [1, 2, 3]" by (auto simp: three_nodes_def)
    then obtain info' where i': "map_of (registered_nodes three_nodes) i = Some info'" "node_live demo_w0 (info_endpoint info')"
      using demo_registered by blast
    moreover have "distinct (map fst (registered_nodes three_nodes))"
      using three_nodes_inv by (simp add: registry_inv_def)
    ultimately show "node_live demo_w0 (info_endpoint info)" using m by simp
qed

theorem chunk_ids_unique_witness:
  "\<exists>rs st w log. reached demo_runtime demo_ops rs st w log \<and> distinct (map chunk_id (all_chunks (store st)))"
proof -
  obtain rs st w log where r: "reached demo_runtime demo_ops rs st w log"
    using demo_reached [of demo_ops] by (auto simp: demo_ops_def upload_data_def)
  from chunk_ids_unique [OF r] r show ?thesis by blast
qed

lemma put_then_get_available':
  assumes "reached rt ops rs st w log"
    and "registered_nodes st \<noteq> []" "\<forall>(i, info) \<in> set (registered_nodes st). node_live w (info_endpoint info)"
    and "upload_name reqs \<noteq> []" "active_files (store st) (upload_name reqs) = None"
    and "length (upload_data reqs) \<le> 2 ^ 31"
  shows "\<exists>st' w' resps s. PutFile rt reqs st w = Some ((status_OK, \<lparr>pfs_success = True\<rparr>), st', w') \<and>
    (\<exists>status. GetFile rt \<lparr>gfr_filename = upload_name reqs\<rparr> (\<lambda>_. True) st' w' = ((status, resps), s) \<and> status_ok status) \<and>
    concat (map gfs_data resps) = upload_data reqs"
proof -
  obtain n k where n: "n + 2048 \<le> 2 ^ 31" and k: "k + 3 \<le> 2 ^ 31"
    and R: "dfs.represents n k st w (spec_final ops rs Map.empty)"
    using reached_represents [OF assms(1)] by blast
  have rt: "client_factory rt = CreateClient network_stub" "good_runtime rt"
    using assms(1) by (simp_all add: reached_def)
  have "spec_final ops rs Map.empty (upload_name reqs) = None"
    using dfs.represents_none [OF R] assms(5) by simp
  from dfs.put_then_get_file [OF rt R n assms(6,4) this assms(2,3) _ k, of "\<lambda>_. True"] show ?thesis by simp
qed

text \<open>C2. Uploads are available and durable: after any such sequence of requests, on disks that never
  run full, when at least one node is registered and every registered node is live, an upload of
  at most \<open>2^31\<close> bytes under a new and non-empty name is OK, and the download that follows, by a
  client that accepts every message, is OK and returns it byte for byte.\<close>

theorem put_then_get_available:
  assumes "reached rt ops rs st w log"
    and "registered_nodes st \<noteq> []" "\<forall>(i, info) \<in> set (registered_nodes st). node_live w (info_endpoint info)"
    and "upload_name reqs \<noteq> []" "active_files (store st) (upload_name reqs) = None"
    and "length (upload_data reqs) \<le> 2 ^ 31" "\<forall>i. wr i"
  shows "\<exists>st' w' resps s. PutFile rt reqs st w = Some ((status_OK, \<lparr>pfs_success = True\<rparr>), st', w') \<and>
    (\<exists>status. GetFile rt \<lparr>gfr_filename = upload_name reqs\<rparr> wr st' w' = ((status, resps), s) \<and> status_ok status) \<and>
    concat (map gfs_data resps) = upload_data reqs"
proof -
  obtain n k where n: "n + 2048 \<le> 2 ^ 31" and k: "k + 3 \<le> 2 ^ 31"
    and R: "dfs.represents n k st w (spec_final ops rs Map.empty)"
    using reached_represents [OF assms(1)] by blast
  have rt: "client_factory rt = CreateClient network_stub" "good_runtime rt"
    using assms(1) by (simp_all add: reached_def)
  have "spec_final ops rs Map.empty (upload_name reqs) = None"
    using dfs.represents_none [OF R] assms(5) by simp
  from dfs.put_then_get_file [OF rt R n assms(6,4) this assms(2,3,7) k] show ?thesis .
qed

theorem put_then_get_available_witness:
  "\<exists>st' w' resps s.
     PutFile demo_runtime [\<lparr>pfr_filename = ''a'', pfr_data = ''xyz''\<rparr>] three_nodes demo_w0
       = Some ((status_OK, \<lparr>pfs_success = True\<rparr>), st', w') \<and>
     (\<exists>status. GetFile demo_runtime \<lparr>gfr_filename = ''a''\<rparr> (\<lambda>_. True) st' w' = ((status, resps), s) \<and> status_ok status) \<and>
     concat (map gfs_data resps) = ''xyz''"
proof -
  obtain rs where r: "reached demo_runtime demo_registrations rs three_nodes demo_w0 []"
    using demo_registered_state by blast
  have ne: "registered_nodes three_nodes \<noteq> []" by (simp add: three_nodes_def)
  have act: "active_files (store three_nodes) (upload_name [\<lparr>pfr_filename = ''a'', pfr_data = ''xyz''\<rparr>]) = None"
    by (simp add: three_nodes_def new_CoordinatorServiceImpl_def active_files_def empty_MetadataStore_def)
  from put_then_get_available [OF r ne demo_all_live _ act, of "\<lambda>_. True"] show ?thesis
    by (simp add: upload_name_def upload_data_def)
qed


text \<open>An upload of one chunk places a replica on each of the three nodes.\<close>

lemma demo_upload:
  assumes "PutFile demo_runtime [\<lparr>pfr_filename = ''a'', pfr_data = ''xyz''\<rparr>] three_nodes demo_w0
    = Some ((status_OK, \<lparr>pfs_success = True\<rparr>), st, w)"
  shows "\<exists>c. active_files (store st) ''a'' = Some \<lparr>fm_size = 3, chunk_size = 1048576, chunks = [c]\<rparr> \<and>
    set (node_ids c) = {1, 2, 3} \<and> registered_nodes st = registered_nodes three_nodes"
proof -
  have n: "[0..<nat (sint (num_chunks (Suc (Suc (Suc 0)))))] = [0]" by (simp add: num_chunks_value)
  let ?st = "three_nodes\<lparr>store := empty_MetadataStore\<lparr>read_count := 1\<rparr>\<rparr>"
  have upt: "[0..<3] = [0, 1, 2::nat]" by code_simp
  have sel: "selectNodesForReplication rev 3 (?st\<lparr>chunk_id_counter := x\<rparr>)
      = Some ([3, 2, 1], ?st\<lparr>chunk_id_counter := x, next_node_index := 1\<rparr>)" for x
  proof -
    have "iterates_all rev" by (rule iterates_all_id)
    from select_eq [OF this, of "?st\<lparr>chunk_id_counter := x\<rparr>" 3] show ?thesis
      by (simp add: three_nodes_def new_CoordinatorServiceImpl_def ring_picks_def upt)
  qed
  have e: "store three_nodes = empty_MetadataStore" by (simp add: three_nodes_def new_CoordinatorServiceImpl_def)
  have none: "active_files empty_MetadataStore ''a'' = None" by (simp add: active_files_def empty_MetadataStore_def)
  have recv: "put_receive True [] [] [\<lparr>pfr_filename = ''a'', pfr_data = ''xyz''\<rparr>] (store three_nodes)
      = (Inr (''a'', ''xyz''), empty_MetadataStore\<lparr>read_count := 1\<rparr>)"
    using none by (simp add: put_receive_eq e del: put_receive.simps) (simp add: empty_MetadataStore_def)
  have P: "PutFile demo_runtime [\<lparr>pfr_filename = ''a'', pfr_data = ''xyz''\<rparr>] three_nodes demo_w0
      = (case put_chunks demo_runtime ''xyz'' [0] ?st demo_w0 of
           None \<Rightarrow> None
         | Some (Inl status, st', w') \<Rightarrow> Some ((status, \<lparr>pfs_success = False\<rparr>), st', w')
         | Some (Inr cs, st', w') \<Rightarrow> Some ((status_OK, \<lparr>pfs_success = True\<rparr>),
             st'\<lparr>store := putFile ''a'' \<lparr>fm_size = 3, chunk_size = 1048576, chunks = cs\<rparr> (store st')\<rparr>, w'))"
    by (simp add: PutFile_def recv n CHUNK_SIZE_eq Let_def del: put_receive.simps put_chunks.simps
        cong: option.case_cong sum.case_cong prod.case_cong)
  obtain cs st' w' where run: "put_chunks demo_runtime ''xyz'' [0] ?st demo_w0 = Some (Inr cs, st', w')"
    and st: "st = st'\<lparr>store := putFile ''a'' \<lparr>fm_size = 3, chunk_size = 1048576, chunks = cs\<rparr> (store st')\<rparr>"
    using assms unfolding P
    by (auto simp del: put_chunks.simps split: option.splits sum.splits)
  have h: "hash_order demo_runtime = rev" by (simp add: demo_runtime_def)
  have "\<exists>c. cs = [c] \<and> node_ids c = [3, 2, 1] \<and> registered_nodes st' = registered_nodes three_nodes"
    using run by (auto simp: h sel default_ChunkInfo_def Let_def put_chunks.simps split: if_splits prod.splits)
  then show ?thesis by (auto simp: st active_files_putFile)
qed


text \<open>C20. The cleanup reclaims exactly the deleted files' chunks: after any such sequence, a round at
  any clock reading removes every chunk of an expired tombstone from each of its live registered
  nodes, drops the expired tombstones, and changes no chunk of a visible file on any node.\<close>

theorem cleanup_reclaims_deleted_only:
  fixes rt :: "cluster runtime"
  assumes "reached rt ops rs st w log" and "cleanup_round rt now st (w, log) = (st', w', log')"
  shows "(\<forall>t \<in> set (deleted_entries (store st)). expired now t \<longrightarrow>
       (\<forall>c \<in> set (chunks (fst (snd t))). \<forall>i \<in> set (node_ids c). \<forall>info.
          map_of (registered_nodes st) i = Some info \<longrightarrow> node_live w (info_endpoint info) \<longrightarrow>
          stored_chunk w' (info_endpoint info) (chunk_id c) = None))
     \<and> deleted_entries (store st') = filter (\<lambda>t. \<not> expired now t) (deleted_entries (store st))
     \<and> (\<forall>p meta e. active_files (store st) p = Some meta \<longrightarrow> (\<forall>c \<in> set (chunks meta).
          stored_chunk w' e (chunk_id c) = stored_chunk w e (chunk_id c)))"
proof -
  obtain n k where "n + 2048 \<le> 2 ^ 31" and R: "dfs.represents n k st w (spec_final ops rs Map.empty)"
    using reached_represents [OF assms(1)] by blast
  then have n: "n \<le> 2 ^ 31" by linarith
  have rt: "client_factory rt = CreateClient network_stub" using assms(1) by (simp add: reached_def)
  have inv: "coord_inv n k st" using R by (simp add: dfs.represents_def)
  note ch = dfs.cleanup_round_refines(2) [OF rt R n assms(2)]
  have "stored_chunk w' e (chunk_id c) = stored_chunk w e (chunk_id c)"
    if "active_files (store st) p = Some meta" "c \<in> set (chunks meta)" for p meta e c
  proof -
    have "valid_chunk (chunk_id c)"
      by (rule dfs.represents_chunks_valid [OF R n]) (use active_chunks that in blast)
    moreover have "chunk_id c \<noteq> chunk_id c'" if "t \<in> set (deleted_entries (store st))" "c' \<in> set (chunks (fst (snd t)))" for t c'
      using active_not_deleted inv \<open>active_files (store st) p = Some meta\<close> \<open>c \<in> set (chunks meta)\<close> that
      unfolding coord_inv_def by blast
    ultimately show ?thesis using ch unfolding net.changes_def dfs.removed_def by blast
  qed
  moreover have "deleted_entries (store st') = filter (\<lambda>t. \<not> expired now t) (deleted_entries (store st))"
    using assms(2) cleanupTombstones_store [of now "Some (\<lambda>meta. cleanup_chunks rt (registered_nodes st) (chunks meta))" "store st" "(w, log)"]
    by (auto simp: cleanup_round_def split: prod.splits)
  ultimately show ?thesis
    using dfs.cleanup_round_removes [OF rt R n assms(2)] by blast
qed

theorem cleanup_reclaims_deleted_only_witness:
  "\<exists>rs st w log st' w' log'. reached demo_runtime (take 8 demo_ops) rs st w log \<and>
     cleanup_round demo_runtime 400000000000 st (w, log) = (st', w', log') \<and>
     deleted_entries (store st') = filter (\<lambda>t. \<not> expired 400000000000 t) (deleted_entries (store st))"
proof -
  obtain rs st w log where r: "reached demo_runtime (take 8 demo_ops) rs st w log"
    using demo_reached [of "take 8 demo_ops"] by (auto simp: demo_ops_def upload_data_def)
  obtain st' w' log' where c: "cleanup_round demo_runtime 400000000000 st (w, log) = (st', w', log')"
    by (metis prod.exhaust)
  from cleanup_reclaims_deleted_only [OF r c] r c show ?thesis by blast
qed

text \<open>C38. The cleanup never reports a success: whatever the nodes answer, no line \<open>Successfully
  deleted\<close> is ever added to the log, because the worker tests a response object that nothing
  fills.\<close>

theorem cleanup_never_logs_success:
  fixes rt :: "cluster runtime"
  shows "filter is_deleted (snd (snd (cleanup_round rt now st (w, log)))) = filter is_deleted log"
proof -
  let ?f = "\<lambda>meta. cleanup_chunks rt (registered_nodes st) (chunks meta)"
  have "filter is_deleted (snd (fold (\<lambda>t. ?f (fst (snd t))) ts s)) = filter is_deleted (snd s)" for ts :: "tombstone list" and s
  proof (induction ts arbitrary: s)
    case (Cons t ts)
    obtain new where "snd (?f (fst (snd t)) s) = snd s @ new" "\<forall>e \<in> set new. \<not> is_deleted e"
      using cleanup_chunks_log [of rt "registered_nodes st" "chunks (fst (snd t))" "fst s" "snd s"] by auto
    then have "filter is_deleted (snd (?f (fst (snd t)) s)) = filter is_deleted (snd s)"
      by (simp add: filter_empty_conv)
    then show ?case using Cons by simp
  qed simp
  moreover have "snd (cleanup_round rt now st (w, log)) = snd (cleanupTombstones now (Some ?f) (store st) (w, log))"
    by (simp add: cleanup_round_def split: prod.split)
  ultimately show ?thesis by (simp add: cleanupTombstones_world)
qed

text \<open>The worker cleans once a minute: with the flag set, from the head of its loop it makes 62
  tests of the flag (60 of them followed by a second of sleep) and then exactly one cleanup, after
  which it is back at the head.\<close>

theorem worker_round:
  "(cleanupWorker_step rt now ^^ 63) (st\<lparr>running := True, cleanup_thread := Some While_Test\<rparr>, s)
     = (st\<lparr>running := True, cleanup_thread := Some Cleaning\<rparr>, s)
   \<and> cleanupWorker_step rt now (st\<lparr>running := True, cleanup_thread := Some Cleaning\<rparr>, s)
     = (let (st', s') = cleanup_round rt now (st\<lparr>running := True, cleanup_thread := Some Cleaning\<rparr>) s
        in (st'\<lparr>cleanup_thread := Some While_Test\<rparr>, s'))"
proof -
  let ?st = "st\<lparr>running := True\<rparr>"
  let ?step = "cleanupWorker_step rt now"
  have "(?step ^^ 63) x = ?step (?step ((?step ^^ 60) (?step x)))" for x
  proof -
    have "(?step ^^ Suc (Suc (Suc 60))) x = ?step (?step ((?step ^^ Suc 60) x))"
      by (simp only: funpow.simps comp_apply)
    also have "(?step ^^ Suc 60) x = (?step ^^ 60) (?step x)"
      by (simp only: funpow_Suc_right comp_apply)
    finally show ?thesis by simp
  qed
  moreover have "?step (?st\<lparr>cleanup_thread := Some While_Test\<rparr>, s) = (?st\<lparr>cleanup_thread := Some (Sleep_Test 0)\<rparr>, s)"
    by simp
  moreover have "(?step ^^ 60) (?st\<lparr>cleanup_thread := Some (Sleep_Test 0)\<rparr>, s) = (?st\<lparr>cleanup_thread := Some (Sleep_Test 60)\<rparr>, s)"
    using worker_sleep [of ?st 0 60] by simp
  ultimately show ?thesis by simp
qed

text \<open>C37. The destructor returns: wherever the worker is, clearing the flag ends it within three of
  its steps, so \<open>join\<close> waits for one sleep at most, and no cleanup starts after the flag is
  cleared; one already past its last test is completed.\<close>

theorem destructor_joins:
  "destroy_CoordinatorServiceImpl 3 rt now (st\<lparr>running := True, cleanup_thread := Some pc\<rparr>, s)
     = Some (if pc = Cleaning
             then (let (st', s') = cleanup_round rt now (st\<lparr>running := False, cleanup_thread := Some pc\<rparr>) s
                   in (st'\<lparr>cleanup_thread := None\<rparr>, s'))
             else (st\<lparr>running := False, cleanup_thread := None\<rparr>, s))"
proof (cases pc)
  case Cleaning
  have "running (fst (cleanup_round rt now st' s)) = running st'" for st'
    by (simp add: cleanup_round_def split: prod.split)
  note keep = this [of "st\<lparr>running := False, cleanup_thread := Some Cleaning\<rparr>"]
  have order: "st\<lparr>cleanup_thread := Some Cleaning, running := False\<rparr>
      = st\<lparr>running := False, cleanup_thread := Some Cleaning\<rparr>" by simp
  show ?thesis
    using keep by (cases s) (auto simp: Cleaning order destroy_CoordinatorServiceImpl_def numeral_3_eq_3 split: prod.split)
qed (simp_all add: destroy_CoordinatorServiceImpl_def numeral_3_eq_3)

text \<open>C29. Uploads of more than \<open>2^31\<close> and at most \<open>2^50\<close> bytes never succeed: from the file's
  2049th chunk on \<open>i * chunk_size\<close> overflows \<open>int\<close>, so such an upload is never OK; after any run
  of requests that leaves nodes registered and all of them live, an upload of that size under a
  new and non-empty name reaches the overflow, which is undefined behaviour. (The bound \<open>2^50\<close>
  keeps the number of chunks within \<open>int\<close>; \<open>2^51\<close> bytes would make it negative.)\<close>

theorem upload_over_2GiB_overflows:
  assumes "2 ^ 31 < length (upload_data reqs)" "length (upload_data reqs) \<le> 2 ^ 50"
  shows "(\<forall>status resp s. PutFile rt' reqs st' w' = Some ((status, resp), s) \<longrightarrow> \<not> status_ok status)
     \<and> (reached rt ops rs st w log \<and> length ops + 1 < 2 ^ 20 \<and>
        upload_name reqs \<noteq> [] \<and> active_files (store st) (upload_name reqs) = None \<and> registered_nodes st \<noteq> [] \<and>
        (\<forall>(i, info) \<in> set (registered_nodes st). node_live w (info_endpoint info))
        \<longrightarrow> PutFile rt reqs st w = None)"
proof (intro conjI impI allI)
  fix status resp s assume "PutFile rt' reqs st' w' = Some ((status, resp), s)"
  then show "\<not> status_ok status"
    by (intro PutFile_large_not_ok [OF assms, of rt' st' w' status resp "fst s" "snd s"]) simp
next
  assume a: "reached rt ops rs st w log \<and> length ops + 1 < 2 ^ 20 \<and>
        upload_name reqs \<noteq> [] \<and> active_files (store st) (upload_name reqs) = None \<and> registered_nodes st \<noteq> [] \<and>
        (\<forall>(i, info) \<in> set (registered_nodes st). node_live w (info_endpoint info))"
  then obtain w0 where w0: "cluster_sound w0" "dfs_run rt ops (new_CoordinatorServiceImpl, w0, []) = Some (rs, st, w, log)"
    and rt: "good_runtime rt" "client_factory rt = CreateClient network_stub"
    and ops: "list_all small_op ops" "length ops + 1 < 2 ^ 20"
    unfolding reached_def by blast
  have "0 + 2048 * length ops \<le> 2 ^ 31" "0 + length ops + 3 \<le> 2 ^ 31" using ops(2) by simp_all
  from dfs.dfs_run_refines [OF rt(2,1) dfs.represents_new [OF w0(1)] this ops(1), of "[]"]
  obtain n k where n: "n \<le> 2048 * length ops" "k \<le> length ops" and R: "dfs.represents n k st w (spec_final ops rs Map.empty)"
    using w0(2) by auto
  have "n + 2049 \<le> 2 ^ 31" "k + 3 \<le> 2 ^ 31" using n ops(2) by simp_all
  moreover have "spec_final ops rs Map.empty (upload_name reqs) = None"
    using dfs.represents_none [OF R] a by simp
  ultimately show "PutFile rt reqs st w = None"
    using dfs.PutFile_overflow [OF rt(2,1) R _ assms] a by blast
qed

theorem upload_over_2GiB_overflows_witness:
  "\<exists>reqs. 2 ^ 31 < length (upload_data reqs) \<and> PutFile demo_runtime reqs three_nodes demo_w0 = None"
proof -
  have "\<exists>d :: bytes. length d = 2 ^ 31 + 1"
    by (rule exI [of _ "replicate (2 ^ 31 + 1) CHR ''a''"]) (rule length_replicate)
  then obtain d :: bytes where d: "length d = 2 ^ 31 + 1" by blast
  define reqs where "reqs = [\<lparr>pfr_filename = ''a'', pfr_data = d\<rparr>]"
  have len: "length (upload_data reqs) = 2 ^ 31 + 1" and name: "upload_name reqs = ''a''"
    by (simp_all only: upload_data_def upload_name_def reqs_def) (simp_all add: d)
  obtain rs where r: "reached demo_runtime demo_registrations rs three_nodes demo_w0 []"
    using demo_registered_state by blast
  have ne: "registered_nodes three_nodes \<noteq> []" by (simp add: three_nodes_def)
  have act: "active_files (store three_nodes) (upload_name reqs) = None"
    by (simp add: name three_nodes_def new_CoordinatorServiceImpl_def active_files_def empty_MetadataStore_def)
  have big: "2 ^ 31 < length (upload_data reqs)" "length (upload_data reqs) \<le> 2 ^ 50" by (simp_all add: len)
  have "length demo_registrations + 1 < 2 ^ 20" "upload_name reqs \<noteq> []"
    by (simp_all add: demo_registrations_def name)
  with r ne act demo_all_live upload_over_2GiB_overflows [OF big, of demo_runtime three_nodes demo_w0
      demo_runtime demo_registrations rs three_nodes demo_w0 "[]"]
  have "PutFile demo_runtime reqs three_nodes demo_w0 = None" by blast
  then show ?thesis using big(1) by blast
qed

end
