(* ===== verification/Dfs_Client.thy ===== *)
theory Dfs_Client
  imports Dfs_Properties
begin

text \<open>
  The client library, \<open>client/src/dfs_client.cpp\<close>: \<open>putFileSync\<close>, \<open>getFileSync\<close>,
  \<open>deleteFileSync\<close> and the asynchronous wrappers around them. The stub that gRPC
  generates from \<open>coordinator.proto\<close> is the parameter \<open>CoordinatorStub\<close>; local
  files are a map from names to contents; an exception is \<open>Inl\<close>. A future is the
  value or exception its promise is given.
\<close>

section \<open>The generated stub\<close>

text \<open>
  \<open>rpc_PutFile\<close> is given the messages the client is going to write, and yields how
  many \<open>Write\<close> calls succeed before one fails, the status of \<open>Finish\<close> and the
  response. \<open>rpc_GetFile\<close> yields what \<open>Read\<close> delivers and the status of \<open>Finish\<close>.
\<close>

record 'w CoordinatorStub =
  rpc_PutFile :: "PutFileRequest list \<Rightarrow> 'w \<Rightarrow> (nat \<times> Status \<times> PutFileResponse) \<times> 'w"
  rpc_GetFile :: "GetFileRequest \<Rightarrow> 'w \<Rightarrow> (GetFileResponse list \<times> Status) \<times> 'w"
  rpc_DeleteFile :: "DeleteFileRequest \<Rightarrow> 'w \<Rightarrow> (Status \<times> DeleteFileResponse) \<times> 'w"

section \<open>The operations\<close>

text \<open>
  The messages of an upload: the file name alone, then a message per full buffer
  and one for the rest; \<open>req\<close> is reused, so each carries the name.
\<close>

definition upload_messages :: "string \<Rightarrow> bytes \<Rightarrow> PutFileRequest list" where
  "upload_messages filename content =
    (let (blocks, rest) = read_blocks content
     in \<lparr>pfr_filename = filename, pfr_data = []\<rparr>
        # map (\<lambda>b. \<lparr>pfr_filename = filename, pfr_data = b\<rparr>) blocks
        @ (if rest \<noteq> [] then [\<lparr>pfr_filename = filename, pfr_data = rest\<rparr>] else []))"

definition putFileSync ::
  "'w CoordinatorStub \<Rightarrow> (string \<Rightarrow> bytes option) \<Rightarrow> string \<Rightarrow> 'w \<Rightarrow> (cpp_exception + unit) \<times> 'w" where
  "putFileSync stub files filename w =
    (case files filename of
       None \<Rightarrow> (Inl (Runtime_error (''Failed to open file: '' @ filename)), w)
     | Some content \<Rightarrow>
         (let msgs = upload_messages filename content;
              n_blocks = length (fst (read_blocks content));
              ((accepted, status, resp), w') = rpc_PutFile stub msgs w
          in (if accepted < length msgs
              then Inl (Runtime_error
                     (if accepted = 0 then ''Failed to send filename''
                      else if accepted \<le> n_blocks then ''Failed to send data chunk''
                      else ''Failed to send final data chunk''))
              else if status_ok status \<and> pfs_success resp then Inr ()
              else if error_code status = ALREADY_EXISTS then Inl (System_error EEXIST ''File exists'')
              else Inl (Runtime_error (error_message status)), w')))"

definition getFileSync :: "'w CoordinatorStub \<Rightarrow> string \<Rightarrow> 'w \<Rightarrow> (cpp_exception + bytes) \<times> 'w" where
  "getFileSync stub filename w =
    (let ((resps, status), w') = rpc_GetFile stub \<lparr>gfr_filename = filename\<rparr> w;
         content = foldl (\<lambda>content resp. content @ gfs_data resp) [] resps
     in (if status_ok status then Inr content
         else if error_code status = NOT_FOUND
         then Inl (System_error ENOENT ''No such file or directory'')
         else Inl (Runtime_error (error_message status)), w'))"

text \<open>\<open>code_num\<close> is the numeric value of a gRPC status code.\<close>

definition deleteFileSync ::
  "(StatusCode \<Rightarrow> int) \<Rightarrow> 'w CoordinatorStub \<Rightarrow> string \<Rightarrow> 'w \<Rightarrow> (cpp_exception + bool) \<times> 'w" where
  "deleteFileSync code_num stub filename w =
    (let ((status, resp), w') = rpc_DeleteFile stub \<lparr>dfr_path = filename\<rparr> w
     in (if status_ok status \<and> dfs_success resp then Inr True
         else if error_code status = NOT_FOUND
         then Inl (System_error ENOENT ''No such file or directory'')
         else Inl (Runtime_error (''gRPC error ['' @ to_string (code_num (error_code status)) @ '']: ''
                @ error_message status)), w'))"

text \<open>The wrappers: what \<open>future.get()\<close> returns or throws.\<close>

definition client_putFile ::
  "'w CoordinatorStub \<Rightarrow> (string \<Rightarrow> bytes option) \<Rightarrow> string \<Rightarrow> 'w \<Rightarrow> (cpp_exception + bool) \<times> 'w" where
  "client_putFile stub files filename w =
    (case putFileSync stub files filename w of
       (Inr _, w') \<Rightarrow> (Inr True, w')
     | (Inl e, w') \<Rightarrow> (Inl e, w'))"

definition client_getFile :: "'w CoordinatorStub \<Rightarrow> string \<Rightarrow> 'w \<Rightarrow> (cpp_exception + bytes) \<times> 'w" where
  "client_getFile stub filename w =
    (case getFileSync stub filename w of
       (Inr content, w') \<Rightarrow> (Inr content, w')
     | (Inl e, w') \<Rightarrow> (Inl e, w'))"

definition client_deleteFile ::
  "(StatusCode \<Rightarrow> int) \<Rightarrow> 'w CoordinatorStub \<Rightarrow> string \<Rightarrow> 'w \<Rightarrow> (cpp_exception + bool) \<times> 'w" where
  "client_deleteFile code_num stub filename w =
    (case deleteFileSync code_num stub filename w of
       (Inr success, w') \<Rightarrow> (Inr success, w')
     | (Inl e, w') \<Rightarrow> (Inl e, w'))"

section \<open>The upload stream\<close>

lemma upload_messages_name: "upload_name (upload_messages filename content) = filename"
  by (simp add: upload_name_def upload_messages_def split_beta)

lemma upload_messages_data: "upload_data (upload_messages filename content) = content"
proof -
  have "map (pfr_data \<circ> (\<lambda>b. \<lparr>pfr_filename = filename, pfr_data = b\<rparr>)) bs = bs" for bs
    by (simp add: map_idI)
  moreover obtain bs r where br: "read_blocks content = (bs, r)" by (metis prod.exhaust)
  moreover have "concat bs @ r = content" using read_blocks_concat [of content] br by simp
  ultimately show ?thesis by (cases "r = []") (simp_all add: upload_data_def upload_messages_def)
qed

lemma foldl_append: "foldl (\<lambda>content resp. content @ gfs_data resp) c resps = c @ concat (map gfs_data resps)"
  by (induction resps arbitrary: c) simp_all

section \<open>The coordinator behind the stub\<close>

text \<open>
  A reliable connection to the coordinator: the state is the coordinator's and the
  cluster's, or \<open>None\<close> once its behaviour is undefined, after which a call reports
  \<open>dead\<close>. \<open>clock\<close> gives the two readings of a deletion. When a handler returns
  before it has read the whole stream, the client's later writes may fail: \<open>early\<close>
  is how many are accepted then.
\<close>

definition coordinator_stub ::
  "cluster runtime \<Rightarrow> time_point \<times> time_point \<Rightarrow> nat \<Rightarrow> Status
    \<Rightarrow> (CoordinatorServiceImpl \<times> cluster) option CoordinatorStub" where
  "coordinator_stub rt clock early dead =
    \<lparr>rpc_PutFile = (\<lambda>msgs s.
       case s of
         None \<Rightarrow> ((0, dead, \<lparr>pfs_success = False\<rparr>), None)
       | Some (st, w) \<Rightarrow>
           (case PutFile rt msgs st w of
              None \<Rightarrow> ((length msgs, dead, \<lparr>pfs_success = False\<rparr>), None)
            | Some ((status, resp), st', w') \<Rightarrow>
                ((if error_code status = ALREADY_EXISTS then max 1 (min early (length msgs)) else length msgs,
                  status, resp), Some (st', w')))),
     rpc_GetFile = (\<lambda>req s.
       case s of
         None \<Rightarrow> (([], dead), None)
       | Some (st, w) \<Rightarrow>
           (case GetFile rt req (\<lambda>_. True) st w of
              ((status, resps), st', w') \<Rightarrow> ((resps, status), Some (st', w')))),
     rpc_DeleteFile = (\<lambda>req s.
       case s of
         None \<Rightarrow> ((dead, \<lparr>dfs_success = False\<rparr>), None)
       | Some (st, w) \<Rightarrow>
           (case DeleteFile req (fst clock) (snd clock) st of
              ((status, resp), st') \<Rightarrow> ((status, resp), Some (st', w))))\<rparr>"

lemma PutFile_existing:
  assumes "active_files (store st) (upload_name reqs) \<noteq> None" "reqs \<noteq> []"
  shows "PutFile rt reqs st w = Some ((Status ALREADY_EXISTS ''File exists'', \<lparr>pfs_success = False\<rparr>),
    st\<lparr>store := (store st)\<lparr>read_count := read_count (store st) + 1\<rparr>\<rparr>, w)"
  using assms by (cases reqs) (auto simp: PutFile_def put_receive_eq upload_name_def simp del: put_receive.simps)

section \<open>Properties\<close>

text \<open>The upload stream is the file: for every name and content the client writes the name first,
  then the content in order in messages that all carry the name, each of at most 4096 bytes and
  none but the first empty, so the coordinator receives exactly the content.\<close>

theorem upload_stream_exact:
  "upload_name (upload_messages filename content) = filename
   \<and> upload_data (upload_messages filename content) = content
   \<and> (\<forall>m \<in> set (tl (upload_messages filename content)).
        pfr_filename m = filename \<and> pfr_data m \<noteq> [] \<and> length (pfr_data m) \<le> 4096)"
proof (intro conjI ballI)
  fix m assume m: "m \<in> set (tl (upload_messages filename content))"
  have "b \<noteq> [] \<and> length b \<le> 4096" if "b \<in> set (fst (read_blocks content))" for b
    using read_blocks_full [OF that] by (auto simp: buffer_size_def)
  moreover have "length (snd (read_blocks content)) \<le> 4096"
    using read_blocks_rest [of content] by (simp add: buffer_size_def)
  ultimately show "pfr_filename m = filename" "pfr_data m \<noteq> []" "length (pfr_data m) \<le> 4096"
    using m by (auto simp: upload_messages_def split_beta split: if_splits)
qed (rule upload_messages_name, rule upload_messages_data)

theorem upload_stream_exact_witness:
  "upload_data (upload_messages ''f'' ''abc'') = ''abc''"
  using upload_stream_exact [of "''f''" "''abc''"] by blast

text \<open>C5. End to end, over a reliable connection to the coordinator: on a reached state in which some
  node is registered and every registered node is live, uploading a local file of at most 2 GiB
  under its name, if that is not empty and not visible, through the client succeeds, and
  downloading it through the client returns its content. A reached state has no full disks.\<close>

theorem client_roundtrip:
  assumes "reached rt ops rs st w log"
    and "registered_nodes st \<noteq> []" "\<forall>(i, info) \<in> set (registered_nodes st). node_live w (info_endpoint info)"
    and "filename \<noteq> []" "active_files (store st) filename = None"
    and "files filename = Some content" "length content \<le> 2 ^ 31"
  shows "\<exists>s. client_putFile (coordinator_stub rt clock early dead) files filename (Some (st, w)) = (Inr True, s) \<and>
    fst (client_getFile (coordinator_stub rt clock early dead) filename s) = Inr content"
proof -
  let ?msgs = "upload_messages filename content"
  have m: "upload_name ?msgs \<noteq> []" "active_files (store st) (upload_name ?msgs) = None"
    "length (upload_data ?msgs) \<le> 2 ^ 31"
    using assms(4,5,7) by (simp_all add: upload_messages_name upload_messages_data)
  obtain st' w' resps s status where
    P: "PutFile rt ?msgs st w = Some ((status_OK, \<lparr>pfs_success = True\<rparr>), st', w')" and
    G: "GetFile rt \<lparr>gfr_filename = filename\<rparr> (\<lambda>_. True) st' w' = ((status, resps), s)" "status_ok status"
      "concat (map gfs_data resps) = content"
    using put_then_get_available' [OF assms(1-3) m] by (auto simp: upload_messages_name upload_messages_data)
  have "client_putFile (coordinator_stub rt clock early dead) files filename (Some (st, w)) = (Inr True, Some (st', w'))"
    using P assms(6) by (simp add: client_putFile_def putFileSync_def coordinator_stub_def status_OK_def Let_def)
  moreover have "fst (client_getFile (coordinator_stub rt clock early dead) filename (Some (st', w'))) = Inr content"
    using G by (cases s) (simp add: client_getFile_def getFileSync_def coordinator_stub_def foldl_append)
  ultimately show ?thesis by blast
qed

theorem client_roundtrip_witness:
  "\<exists>s. client_putFile (coordinator_stub demo_runtime (1, 2) 0 status_OK) [''a'' \<mapsto> ''xyz''] ''a''
       (Some (three_nodes, demo_w0)) = (Inr True, s) \<and>
     fst (client_getFile (coordinator_stub demo_runtime (1, 2) 0 status_OK) ''a'' s) = Inr ''xyz''"
proof -
  obtain rs where r: "reached demo_runtime demo_registrations rs three_nodes demo_w0 []"
    using demo_registered_state by blast
  have ne: "registered_nodes three_nodes \<noteq> []" by (simp add: three_nodes_def)
  have act: "active_files (store three_nodes) ''a'' = None"
    by (simp add: three_nodes_def new_CoordinatorServiceImpl_def active_files_def empty_MetadataStore_def)
  show ?thesis by (rule client_roundtrip [OF r ne demo_all_live _ act]) simp_all
qed

text \<open>An existing name may be misreported: the coordinator refuses it with ALREADY_EXISTS after
  the first message and leaves it unchanged. The client throws the \<open>EEXIST\<close> error if all its
  writes are accepted, but a plain runtime error if one fails on the already closed stream, so a
  caller that handles \<open>EEXIST\<close> does not see it.\<close>

theorem existing_name_reported:
  assumes "active_files (store st) filename \<noteq> None" "files filename = Some content"
  shows "\<exists>st'. client_putFile (coordinator_stub rt clock early dead) files filename (Some (st, w))
    = (Inl (if length (upload_messages filename content) \<le> max 1 early
            then System_error EEXIST ''File exists''
            else if max 1 early \<le> length (fst (read_blocks content))
            then Runtime_error ''Failed to send data chunk''
            else Runtime_error ''Failed to send final data chunk''), Some (st', w)) \<and>
    active_files (store st') = active_files (store st)"
proof -
  let ?msgs = "upload_messages filename content"
  have ne: "?msgs \<noteq> []" by (simp add: upload_messages_def split_beta)
  then have len: "1 \<le> length ?msgs" by (simp add: Suc_le_eq)
  have P: "PutFile rt ?msgs st w = Some ((Status ALREADY_EXISTS ''File exists'', \<lparr>pfs_success = False\<rparr>),
      st\<lparr>store := (store st)\<lparr>read_count := read_count (store st) + 1\<rparr>\<rparr>, w)"
    by (rule PutFile_existing) (use assms(1) ne in \<open>simp_all add: upload_messages_name\<close>)
  show ?thesis
    using assms(2) len P
    by (intro exI [of _ "st\<lparr>store := (store st)\<lparr>read_count := read_count (store st) + 1\<rparr>\<rparr>"])
      (auto simp: client_putFile_def putFileSync_def coordinator_stub_def Let_def max_def min_def)
qed

theorem existing_name_reported_witness:
  "\<exists>st'. client_putFile (coordinator_stub demo_runtime (1, 2) 1 status_OK) [''f'' \<mapsto> ''abc''] ''f''
      (Some (three_nodes\<lparr>store := full_store\<rparr>, demo_w0))
    = (Inl (Runtime_error ''Failed to send final data chunk''), Some (st', demo_w0))"
proof -
  have "active_files (store (three_nodes\<lparr>store := full_store\<rparr>)) ''f'' \<noteq> None"
    by (simp add: full_store_def active_files_def)
  moreover have "read_blocks ''abc'' = ([], ''abc'')" by (rule read_blocks_short) (simp add: buffer_size_def)
  ultimately show ?thesis
    using existing_name_reported [of "three_nodes\<lparr>store := full_store\<rparr>" "''f''" "[''f'' \<mapsto> ''abc'']" "''abc''"
        demo_runtime "(1, 2)" 1 status_OK demo_w0]
    by (auto simp: upload_messages_def)
qed

text \<open>The client translates every answer: a download yields the concatenation of all messages
  exactly when the final status is OK, a NOT_FOUND becomes the \<open>ENOENT\<close> error, anything else a
  runtime error with the server's message, and nothing received before a failure is returned;
  a deletion is true exactly when the server says success, never false.\<close>

theorem client_error_mapping:
  "fst (client_getFile stub name w) =
     (let ((resps, status), w') = rpc_GetFile stub \<lparr>gfr_filename = name\<rparr> w
      in if error_code status = OK then Inr (concat (map gfs_data resps))
         else if error_code status = NOT_FOUND then Inl (System_error ENOENT ''No such file or directory'')
         else Inl (Runtime_error (error_message status)))
   \<and> fst (client_deleteFile code_num stub name w) =
     (let ((status, resp), w') = rpc_DeleteFile stub \<lparr>dfr_path = name\<rparr> w
      in if error_code status = OK \<and> dfs_success resp then Inr True
         else if error_code status = NOT_FOUND then Inl (System_error ENOENT ''No such file or directory'')
         else Inl (Runtime_error (''gRPC error ['' @ to_string (code_num (error_code status)) @ '']: ''
                @ error_message status)))"
  by (simp add: client_getFile_def client_deleteFile_def getFileSync_def deleteFileSync_def foldl_append
      status_ok_def split_beta Let_def split: sum.split)

text \<open>The coordinator's deletion through the client: it is true for a visible file and throws
  \<open>ENOENT\<close> for any other name, and afterwards the client's download of that name throws
  \<open>ENOENT\<close> while every other name is untouched.\<close>

theorem client_delete_then_get:
  "fst (client_deleteFile code_num (coordinator_stub rt clock early dead) name (Some (st, w))) =
     (if active_files (store st) name = None then Inl (System_error ENOENT ''No such file or directory'')
      else Inr True)
   \<and> (\<exists>st'. snd (client_deleteFile code_num (coordinator_stub rt clock early dead) name (Some (st, w))) = Some (st', w) \<and>
        active_files (store st') = (active_files (store st))(name := None) \<and>
        fst (client_getFile (coordinator_stub rt clock' early dead) name (Some (st', w)))
          = Inl (System_error ENOENT ''No such file or directory''))"
proof -
  obtain status resp st' where D: "DeleteFile \<lparr>dfr_path = name\<rparr> (fst clock) (snd clock) st = ((status, resp), st')"
    by (metis prod.exhaust)
  have st': "active_files (store st') = (active_files (store st))(name := None)"
    using D by (auto simp: DeleteFile_def getFile_eq active_files_deletePath Let_def fun_eq_iff split: option.splits if_splits)
  have res: "(status, resp) = (if active_files (store st) name = None
      then (Status NOT_FOUND ''File not found'', \<lparr>dfs_success = False\<rparr>) else (status_OK, \<lparr>dfs_success = True\<rparr>))"
    using D by (auto simp: DeleteFile_def getFile_eq Let_def split: option.splits if_splits)
  have "fst (client_getFile (coordinator_stub rt clock' early dead) name (Some (st', w)))
      = Inl (System_error ENOENT ''No such file or directory'')"
    by (simp add: client_getFile_def getFileSync_def coordinator_stub_def GetFile_def getFile_eq st')
  moreover have "client_deleteFile code_num (coordinator_stub rt clock early dead) name (Some (st, w)) =
     (if active_files (store st) name = None then Inl (System_error ENOENT ''No such file or directory'')
      else Inr True, Some (st', w))"
    using D res
    by (auto simp: client_deleteFile_def deleteFileSync_def coordinator_stub_def status_OK_def split: if_splits)
  ultimately show ?thesis using st' by simp
qed

end
