(* ===== verification/Servers.thy ===== *)
theory Servers
  imports Registry Datanode_Stub
begin

text \<open>
  The server processes: the gRPC server wrapper \<open>DFSServer\<close>
  (\<open>server/include/dfs_server.h\<close>) and the data node's server, which registers with
  the coordinator (\<open>server/src/datanode_server.cpp\<close>). gRPC's server is an
  environment: \<open>bind\<close> says whether \<open>BuildAndStart\<close> succeeds on a list of listening
  ports, and a started server is serving or shut down.
\<close>

section \<open>DFSServer\<close>

datatype grpc_server = Serving | Shut_Down

text \<open>\<open>server_ptr\<close> is the \<open>unique_ptr\<close>, \<open>None\<close> for null.\<close>

record DFSServer =
  srv_address :: string
  server_ptr :: "grpc_server option"

definition new_DFSServer :: "string \<Rightarrow> DFSServer" where
  "new_DFSServer address = \<lparr>srv_address = address, server_ptr = None\<rparr>"

definition listening_ports :: "string \<Rightarrow> string list" where
  "listening_ports address =
    address #
    (case rfind_char CHR '':'' address of
       None \<Rightarrow> []
     | Some colon_pos \<Rightarrow>
         (let host = take colon_pos address
          in if host = ''0.0.0.0'' \<or> host = ''[::]''
             then (let colon_port = drop colon_pos address
                   in [''127.0.0.1'' @ colon_port, ''[::1]'' @ colon_port])
             else []))"

definition Start :: "(string list \<Rightarrow> bool) \<Rightarrow> DFSServer \<Rightarrow> DFSServer" where
  "Start bind s = s\<lparr>server_ptr := (if bind (listening_ports (srv_address s)) then Some Serving else None)\<rparr>"

definition Stop :: "DFSServer \<Rightarrow> DFSServer" where
  "Stop s = (if server_ptr s \<noteq> None then s\<lparr>server_ptr := Some Shut_Down\<rparr> else s)"

definition ForceShutdown :: "DFSServer \<Rightarrow> DFSServer" where
  "ForceShutdown s = (if server_ptr s \<noteq> None then s\<lparr>server_ptr := None\<rparr> else s)"

text \<open>\<open>Wait\<close> returns, or blocks until another thread stops the server.\<close>

definition Wait_returns :: "DFSServer \<Rightarrow> bool" where
  "Wait_returns s \<longleftrightarrow> (case server_ptr s of None \<Rightarrow> True | Some g \<Rightarrow> g = Shut_Down)"

definition IsRunning :: "DFSServer \<Rightarrow> bool" where
  "IsRunning s \<longleftrightarrow> server_ptr s \<noteq> None"

section \<open>DataNodeServer\<close>

text \<open>The coordinator's stub for the two registration calls; a call does not throw.\<close>

record 'w RegistrationStub =
  rpc_Register :: "int32 \<Rightarrow> 'w \<Rightarrow> (Status \<times> RegisterDataNodeResponse) \<times> 'w"
  rpc_Unregister :: "int32 \<Rightarrow> 'w \<Rightarrow> (Status \<times> UnregisterDataNodeResponse) \<times> 'w"

record DataNodeServer = DFSServer +
  srv_coordinator :: string
  srv_port :: int32
  srv_node_id :: int32
  srv_config :: DataNodeConfig

text \<open>The constructor; \<open>std::stoi\<close> may throw.\<close>

definition new_DataNodeServer ::
  "string \<Rightarrow> string \<Rightarrow> DataNodeConfig \<Rightarrow> cpp_exception + DataNodeServer" where
  "new_DataNodeServer address coordinator_address config =
    (let make = (\<lambda>port. \<lparr>srv_address = address, server_ptr = None, srv_coordinator = coordinator_address,
                         srv_port = port, srv_node_id = - 1, srv_config = config\<rparr>)
     in case rfind_char CHR '':'' address of
          Some colon_pos \<Rightarrow>
            (case stoi (drop (colon_pos + 1) address) of
               Inl e \<Rightarrow> Inl e
             | Inr port \<Rightarrow> Inr (make (of_int port)))
        | None \<Rightarrow> Inr (make 50052))"

text \<open>
  The two calls to the coordinator, with what they print. Their \<open>catch\<close> branches have no
  counterpart.
\<close>

definition registerWithCoordinator ::
  "(string \<Rightarrow> 'w RegistrationStub) \<Rightarrow> DataNodeServer \<Rightarrow> console \<times> 'w
    \<Rightarrow> (bool \<times> DataNodeServer) \<times> console \<times> 'w" where
  "registerWithCoordinator NewStub s = (\<lambda>(con, w).
    (let con1 = say (''Registering DataNode with Coordinator at '' @ srv_coordinator s
                  @ '' (listening on port '' @ to_string (sint (srv_port s)) @ '')...'') con;
         ((status, reg_response), w') = rpc_Register (NewStub (srv_coordinator s)) (srv_port s) w
     in if status_ok status \<and> rdr_success reg_response
        then ((True, s\<lparr>srv_node_id := rdr_node_id reg_response\<rparr>),
              say (''Successfully registered with Coordinator. Assigned Node ID: ''
                @ to_string (sint (rdr_node_id reg_response))) con1, w')
        else ((False, s),
              complain (''Failed to register with Coordinator: ''
                @ (if status_ok status then rdr_error_message reg_response else error_message status)) con1, w')))"

definition unregisterWithCoordinator ::
  "(string \<Rightarrow> 'w RegistrationStub) \<Rightarrow> DataNodeServer \<Rightarrow> console \<times> 'w \<Rightarrow> bool \<times> console \<times> 'w" where
  "unregisterWithCoordinator NewStub s = (\<lambda>(con, w).
    (if sint (srv_node_id s) \<le> 0
     then (False, complain (''Warning: Cannot unregister - invalid node ID: '' @ to_string (sint (srv_node_id s))) con, w)
     else
       (let con1 = say (''Unregistering DataNode ID '' @ to_string (sint (srv_node_id s)) @ '' with Coordinator...'') con;
            ((status, unreg_response), w') =
              rpc_Unregister (NewStub (srv_coordinator s)) (srv_node_id s) w
        in if status_ok status \<and> udr_success unreg_response
           then (True, say (''Successfully unregistered DataNode ID '' @ to_string (sint (srv_node_id s))) con1, w')
           else (False, complain (''Failed to unregister DataNode ID '' @ to_string (sint (srv_node_id s)) @ '': ''
                  @ (if status_ok status then udr_error_message unreg_response else error_message status)) con1, w'))))"

text \<open>The calls of the base class change only its pointer.\<close>

definition DataNodeServer_Start ::
  "(string list \<Rightarrow> bool) \<Rightarrow> (string \<Rightarrow> 'w RegistrationStub) \<Rightarrow> DataNodeServer \<Rightarrow> console \<times> 'w
    \<Rightarrow> DataNodeServer \<times> console \<times> 'w" where
  "DataNodeServer_Start bind NewStub s cw =
    (let s1 = s\<lparr>server_ptr := server_ptr (Start bind (DFSServer.truncate s))\<rparr>;
         ((registered, s2), con, w') = registerWithCoordinator NewStub s1 cw
     in (s2, if \<not> registered
             then complain ''Warning: Failed to register with Coordinator, but continuing...'' con
             else con, w'))"

definition DataNodeServer_Stop ::
  "(string \<Rightarrow> 'w RegistrationStub) \<Rightarrow> DataNodeServer \<Rightarrow> console \<times> 'w \<Rightarrow> DataNodeServer \<times> console \<times> 'w" where
  "DataNodeServer_Stop NewStub s cw =
    (let cw' = (if 0 < sint (srv_node_id s)
                then (let (unregistered, con, w') = unregisterWithCoordinator NewStub s cw
                      in (if \<not> unregistered
                          then complain ''Warning: Failed to unregister with Coordinator during shutdown'' con
                          else con, w'))
                else cw)
     in (s\<lparr>server_ptr := server_ptr (Stop (DFSServer.truncate s))\<rparr>, cw'))"

section \<open>With the coordinator\<close>

text \<open>A reliable connection of a node at the peer address \<open>peer\<close> to the coordinator.\<close>

definition registration_stub ::
  "(node_registry \<Rightarrow> node_registry) \<Rightarrow> string \<Rightarrow> string \<Rightarrow> CoordinatorServiceImpl RegistrationStub" where
  "registration_stub hash_order peer target =
    \<lparr>rpc_Register = RegisterDataNode hash_order peer, rpc_Unregister = UnregisterDataNode\<rparr>"

lemma Start_fields [simp]:
  "srv_address (Start bind s) = srv_address s"
  "server_ptr (Start bind s) = (if bind (listening_ports (srv_address s)) then Some Serving else None)"
  by (simp_all add: Start_def)

lemma truncate_fields [simp]:
  "srv_address (DFSServer.truncate s) = srv_address s" "server_ptr (DFSServer.truncate s) = server_ptr s"
  by (simp_all add: DFSServer.defs)

lemma sint_small_id: "k < 2 ^ 31 - 1 \<Longrightarrow> sint (of_nat (k + 1) :: int32) = int k + 1"
proof -
  assume "k < 2 ^ 31 - 1"
  then have "sint (of_nat (k + 1) :: int32) = int (k + 1)"
    by (simp add: signed_of_nat signed_take_bit_int_eq_self del: of_nat_add of_nat_Suc)
  then show ?thesis by simp
qed

lemma RegisterDataNode_free:
  assumes "registry_inv k st" "iterates_all h"
    and "\<forall>i. registry_view st i \<noteq> Some (extractClientAddress peer, port)"
  shows "RegisterDataNode h peer port st =
      ((status_OK, empty_RegisterDataNodeResponse\<lparr>rdr_success := True, rdr_node_id := next_node_id st\<rparr>),
       st\<lparr>next_node_id := next_node_id st + 1,
          registered_nodes := AList.update (next_node_id st)
            \<lparr>info_node_id = next_node_id st, info_address = extractClientAddress peer, info_port = port\<rparr>
            (registered_nodes st)\<rparr>)"
proof -
  have d: "distinct (map fst (registered_nodes st))" using assms(1) by (simp add: registry_inv_def)
  have free: "(extractClientAddress peer, port) \<notin> (info_endpoint \<circ> snd) ` set (registered_nodes st)"
    unfolding ran_registry_view [OF d, symmetric] using assms(3) by (auto simp: ran_def)
  show ?thesis
  proof (rule RegisterDataNode_cases [OF assms(2), of st peer port])
    fix i info assume "(i, info) \<in> set (registered_nodes st)" "info_endpoint info = (extractClientAddress peer, port)"
    then show ?thesis using free by force
  qed
qed

section \<open>Properties\<close>

text \<open>C36. The lifecycle is a round trip of the registry: a node that starts under a free endpoint and
  then stops gets the next identifier in between and leaves the coordinator's registry as it was;
  only the identifier counter has moved, the server is shut down, and the four lines it prints name
  the endpoint and the identifier.\<close>

theorem server_lifecycle_roundtrip:
  assumes "registry_inv k st" "k < 2 ^ 31 - 1" "iterates_all hash_order"
    and "\<forall>i. registry_view st i \<noteq> Some (extractClientAddress peer, srv_port s)"
    and "bind (listening_ports (srv_address s))"
  shows "\<exists>s1 con1 st1 s2 con2 st2.
     DataNodeServer_Start bind (registration_stub hash_order peer) s (con, st) = (s1, con1, st1) \<and>
     registry_view st1 = (registry_view st)(srv_node_id s1 \<mapsto> (extractClientAddress peer, srv_port s)) \<and>
     srv_node_id s1 = next_node_id st \<and> server_ptr s1 = Some Serving \<and>
     DataNodeServer_Stop (registration_stub hash_order peer) s1 (con1, st1) = (s2, con2, st2) \<and>
     cout con2 = cout con @ text_lines
       [''Registering DataNode with Coordinator at '' @ srv_coordinator s @ '' (listening on port ''
          @ to_string (sint (srv_port s)) @ '')...'',
        ''Successfully registered with Coordinator. Assigned Node ID: '' @ to_string (sint (srv_node_id s1)),
        ''Unregistering DataNode ID '' @ to_string (sint (srv_node_id s1)) @ '' with Coordinator...'',
        ''Successfully unregistered DataNode ID '' @ to_string (sint (srv_node_id s1))] \<and> cerr con2 = cerr con \<and>
     registry_view st2 = registry_view st \<and> server_ptr s2 = Some Shut_Down \<and>
     st2 = st\<lparr>next_node_id := next_node_id st + 1\<rparr>"
proof -
  have nx: "next_node_id st = of_nat (k + 1)"
    using assms(1) by (simp add: registry_inv_def)
  have fresh: "next_node_id st \<notin> fst ` set (registered_nodes st)"
    by (rule registry_inv_fresh [OF assms(1)]) (use assms(2) in simp)
  note R = RegisterDataNode_free [OF assms(1,3,4)]
  let ?s1 = "s\<lparr>server_ptr := Some Serving, srv_node_id := next_node_id st\<rparr>"
  let ?st1 = "snd (RegisterDataNode hash_order peer (srv_port s) st)"
  let ?reg = "''Registering DataNode with Coordinator at '' @ srv_coordinator s @ '' (listening on port ''
      @ to_string (sint (srv_port s)) @ '')...''"
  let ?ok = "''Successfully registered with Coordinator. Assigned Node ID: '' @ to_string (sint (next_node_id st))"
  let ?unreg = "''Unregistering DataNode ID '' @ to_string (sint (next_node_id st)) @ '' with Coordinator...''"
  let ?done = "''Successfully unregistered DataNode ID '' @ to_string (sint (next_node_id st))"
  have start: "DataNodeServer_Start bind (registration_stub hash_order peer) s (con, st)
      = (?s1, say ?ok (say ?reg con), ?st1)"
    using R assms(5)
    by (simp add: DataNodeServer_Start_def registerWithCoordinator_def registration_stub_def)
  have pos: "0 < sint (next_node_id st)" using sint_small_id [OF assms(2)] nx by simp
  have del: "AList.delete (next_node_id st) (AList.update (next_node_id st) x (registered_nodes st)) = registered_nodes st" for x
    using fresh by (simp add: length_alist_update_fresh AList.delete_eq filter_id_conv) force
  have stop: "DataNodeServer_Stop (registration_stub hash_order peer) ?s1 (say ?ok (say ?reg con), ?st1)
      = (?s1\<lparr>server_ptr := Some Shut_Down\<rparr>, say ?done (say ?unreg (say ?ok (say ?reg con))), st\<lparr>next_node_id := next_node_id st + 1\<rparr>)"
    using pos R del
    by (simp add: DataNodeServer_Stop_def unregisterWithCoordinator_def registration_stub_def
        UnregisterDataNode_def Stop_def)
  have "registry_view ?st1 = (registry_view st)(next_node_id st \<mapsto> (extractClientAddress peer, srv_port s))"
    using R by (auto simp: registry_view_def info_endpoint_def fun_eq_iff)
  moreover have "registry_view (st\<lparr>next_node_id := next_node_id st + 1\<rparr>) = registry_view st"
    by (simp add: registry_view_def fun_eq_iff)
  ultimately show ?thesis using start stop
    by (intro exI [of _ ?s1] exI [of _ ?st1] exI [of _ "?s1\<lparr>server_ptr := Some Shut_Down\<rparr>"]
        exI [of _ "st\<lparr>next_node_id := next_node_id st + 1\<rparr>"] exI [of _ "say ?ok (say ?reg con)"]
        exI [of _ "say ?done (say ?unreg (say ?ok (say ?reg con)))"])
      (simp add: say_def text_lines_def)
qed

definition demo_node_server :: DataNodeServer where
  "demo_node_server =
    \<lparr>srv_address = ''0.0.0.0:9000'', server_ptr = None, srv_coordinator = ''localhost:50051'',
     srv_port = 9000, srv_node_id = - 1, srv_config = default_DataNodeConfig\<rparr>"

theorem server_lifecycle_roundtrip_witness:
  "\<exists>s1 con1 st1 s2 con2 st2.
     DataNodeServer_Start (\<lambda>_. True) (registration_stub rev ''ipv4:10.0.0.4:5000'') demo_node_server (quiet, three_nodes) = (s1, con1, st1) \<and>
     srv_node_id s1 = 4 \<and>
     DataNodeServer_Stop (registration_stub rev ''ipv4:10.0.0.4:5000'') s1 (con1, st1) = (s2, con2, st2) \<and>
     registry_view st2 = registry_view three_nodes"
proof -
  have free: "\<forall>i. registry_view three_nodes i \<noteq>
      Some (extractClientAddress ''ipv4:10.0.0.4:5000'', srv_port demo_node_server)"
    by (simp add: registry_view_def three_nodes_def info_endpoint_def extractClientAddress_def
        rfind_char_def find_char_def)
  have nx: "next_node_id three_nodes = 4" "(3::nat) < 2 ^ 31 - 1" by (simp_all add: three_nodes_def)
  show ?thesis
    using server_lifecycle_roundtrip [OF three_nodes_inv nx(2) iterates_all_id(2) free TrueI, where con = quiet]
    unfolding nx(1) by iprover
qed

text \<open>A node that cannot serve still registers: when \<open>BuildAndStart\<close> fails, \<open>Start\<close> registers the
  endpoint all the same and \<open>Wait\<close> returns at once, so the process ends while the coordinator
  keeps selecting it, as \<open>main\<close> never calls \<open>Stop\<close>, and nothing is written to \<open>std::cerr\<close>.\<close>

theorem failed_bind_still_registers:
  assumes "\<not> bind (listening_ports (srv_address s))" "registry_inv k st" "k < 2 ^ 31 - 1" "iterates_all hash_order"
    and "\<forall>i. registry_view st i \<noteq> Some (extractClientAddress peer, srv_port s)"
  shows "\<exists>s1 con1 st1. DataNodeServer_Start bind (registration_stub hash_order peer) s (con, st) = (s1, con1, st1) \<and>
     \<not> IsRunning (DFSServer.truncate s1) \<and> Wait_returns (DFSServer.truncate s1) \<and> cerr con1 = cerr con \<and>
     registry_view st1 (next_node_id st) = Some (extractClientAddress peer, srv_port s)"
proof -
  note R = RegisterDataNode_free [OF assms(2,4,5)]
  show ?thesis
    using assms(1) R
    by (simp add: DataNodeServer_Start_def registerWithCoordinator_def registration_stub_def IsRunning_def
        Wait_returns_def registry_view_def info_endpoint_def say_def)
qed

theorem failed_bind_still_registers_witness:
  "\<exists>s1 con1 st1. DataNodeServer_Start (\<lambda>_. False) (registration_stub rev ''ipv4:10.0.0.4:5000'') demo_node_server (quiet, three_nodes)
       = (s1, con1, st1) \<and>
     \<not> IsRunning (DFSServer.truncate s1) \<and> registry_view st1 4 = Some (''ipv4:10.0.0.4'', 9000)"
proof -
  have free: "\<forall>i. registry_view three_nodes i \<noteq>
      Some (extractClientAddress ''ipv4:10.0.0.4:5000'', srv_port demo_node_server)"
    by (simp add: registry_view_def three_nodes_def info_endpoint_def extractClientAddress_def
        rfind_char_def find_char_def)
  have e: "next_node_id three_nodes = 4" "(3::nat) < 2 ^ 31 - 1" "extractClientAddress ''ipv4:10.0.0.4:5000'' = ''ipv4:10.0.0.4''"
      "srv_port demo_node_server = 9000"
    by (simp_all add: three_nodes_def extractClientAddress_def rfind_char_def find_char_def demo_node_server_def)
  show ?thesis
    using failed_bind_still_registers [OF not_False_eq_True [THEN iffD2, OF TrueI] three_nodes_inv e(2) iterates_all_id(2) free, where con = quiet]
    unfolding e by iprover
qed

text \<open>\<open>IsRunning\<close> does not see a graceful stop: it is true exactly when the last \<open>Start\<close> bound its
  ports and no \<open>ForceShutdown\<close> followed; after \<open>Stop\<close> it is still true although nothing serves
  and \<open>Wait\<close> returns, and only \<open>ForceShutdown\<close> clears it.\<close>

theorem is_running_after_stop:
  "IsRunning (Start bind s) = bind (listening_ports (srv_address s))
   \<and> IsRunning (Stop (Start bind s)) = bind (listening_ports (srv_address s))
   \<and> Wait_returns (Stop (Start bind s)) \<and> \<not> IsRunning (ForceShutdown (Start bind s))
   \<and> Wait_returns (Start bind s) = (\<not> bind (listening_ports (srv_address s)))"
  by (simp add: IsRunning_def Start_def Stop_def ForceShutdown_def Wait_returns_def)

text \<open>The listening ports of a wildcard address are the wildcard and both loopback addresses on
  the same port, of any other host just that address; a data node given a numeric port advertises
  exactly that port.\<close>

theorem listening_address_parsed:
  "listening_ports (''0.0.0.0:'' @ digits n) = [''0.0.0.0:'' @ digits n, ''127.0.0.1:'' @ digits n, ''[::1]:'' @ digits n]
   \<and> (host \<noteq> ''0.0.0.0'' \<and> host \<noteq> ''[::]'' \<longrightarrow> listening_ports (host @ '':'' @ digits n) = [host @ '':'' @ digits n])
   \<and> (n < 2 ^ 31 \<longrightarrow> (\<exists>s. new_DataNodeServer (host @ '':'' @ digits n) ca config = Inr s \<and>
        srv_port s = of_nat n \<and> sint (srv_node_id s) = - 1))
   \<and> (2 ^ 31 \<le> n \<longrightarrow> new_DataNodeServer (host @ '':'' @ digits n) ca config = Inl Out_of_range)"
proof -
  have c: "CHR '':'' \<notin> set (digits n)" using digits_all_digit [of "CHR '':''"] by (auto simp: is_digit_def)
  have r: "rfind_char CHR '':'' (p @ '':'' @ digits n) = Some (length p)" for p
    using rfind_char_append [OF c, of p] by simp
  have w: "rfind_char CHR '':'' (''0.0.0.0:'' @ digits n) = Some 7"
    using r [of "''0.0.0.0''"] by simp
  show ?thesis
    using w r [of host]
    by (auto simp: listening_ports_def new_DataNodeServer_def stoi_digits Let_def)
qed

theorem listening_address_parsed_witness:
  "\<exists>s. new_DataNodeServer (''0.0.0.0:'' @ digits 9000) ''localhost:50051'' default_DataNodeConfig = Inr s \<and>
     srv_port s = 9000"
  using listening_address_parsed [of 9000 "''0.0.0.0''" "''localhost:50051''" default_DataNodeConfig] by auto

end
