(* ===== verification/Cli.thy ===== *)
theory Cli
  imports Dfs_Client Servers
begin

text \<open>
  The three programs: \<open>client/src/main.cpp\<close>, \<open>coordinator/src/main.cpp\<close> and
  \<open>datanode/src/main.cpp\<close>. \<open>getopt_long\<close> is the C library's: \<open>opts\<close> are the option
  characters it returns with their \<open>optarg\<close>, \<open>'?'\<close> for an error, and \<open>rest\<close> is
  \<open>argv\<close> from \<open>optind\<close> on. A run yields how the process ends and what it prints.
\<close>

datatype process_end =
    Exit_Code int
  | Uncaught cpp_exception
  | Blocked

record 'w run =
  ends :: process_end
  std_out :: string
  std_err :: string
  world :: 'w

section \<open>The client\<close>

definition client_usage :: "string \<Rightarrow> string" where
  "client_usage program_name = text_lines
    [''DFS Client - Distributed File System Client'', '''',
     ''Usage: '' @ program_name @ '' [options] <put|get|delete> <file_path>'', '''',
     ''Commands:'',
     ''  put <file_path>     Upload a file to DFS'',
     ''  get <file_path>     Download a file from DFS'',
     ''  delete <file_path>  Delete a file from DFS'', '''',
     ''Options:'',
     ''  -c, --coordinator-address ADDR  Coordinator address (default: localhost:50051)'',
     ''  -h, --help                      Show this help message'', '''',
     ''Examples:'',
     ''  '' @ program_name @ '' put myfile.txt                    # Upload file (default coordinator)'',
     ''  '' @ program_name @ '' get myfile.txt                    # Download file (default coordinator)'',
     ''  '' @ program_name @ '' -c localhost:50051 put myfile.txt  # Upload with custom coordinator'',
     ''  '' @ program_name @ '' --coordinator-address coordinator.example.com:50051 get myfile.txt'']"

text \<open>The option loop: an exit code with the usage printed, or the coordinator's address.\<close>

fun client_options :: "(char \<times> string) list \<Rightarrow> string \<Rightarrow> int + string" where
  "client_options [] coordinator_address = Inr coordinator_address"
| "client_options ((opt, optarg) # opts) coordinator_address =
     (if opt = CHR ''c'' then client_options opts optarg
      else if opt = CHR ''h'' then Inl 0
      else Inl 1)"

definition client_put :: "'w CoordinatorStub \<Rightarrow> (string \<Rightarrow> bytes option) \<Rightarrow> string \<Rightarrow> 'w \<Rightarrow> 'w run" where
  "client_put stub files file_path w =
    (case client_putFile stub files file_path w of
       (Inr success, w') \<Rightarrow>
         if \<not> success
         then \<lparr>ends = Exit_Code 1, std_out = [], std_err = ''Upload failed'' @ endl, world = w'\<rparr>
         else \<lparr>ends = Exit_Code 0, std_out = ''Uploaded '' @ file_path @ endl, std_err = [], world = w'\<rparr>
     | (Inl (System_error e what), w') \<Rightarrow>
         if e = EEXIST
         then \<lparr>ends = Exit_Code 1, std_out = [], std_err = file_path @ '': File exists'' @ endl, world = w'\<rparr>
         else \<lparr>ends = Uncaught (System_error e what), std_out = [], std_err = [], world = w'\<rparr>
     | (Inl ex, w') \<Rightarrow> \<lparr>ends = Uncaught ex, std_out = [], std_err = [], world = w'\<rparr>)"

definition client_get :: "'w CoordinatorStub \<Rightarrow> string \<Rightarrow> 'w \<Rightarrow> 'w run" where
  "client_get stub file_path w =
    (case client_getFile stub file_path w of
       (Inr content, w') \<Rightarrow> \<lparr>ends = Exit_Code 0, std_out = content, std_err = [], world = w'\<rparr>
     | (Inl (System_error e what), w') \<Rightarrow>
         if e = ENOENT
         then \<lparr>ends = Exit_Code 1, std_out = [],
               std_err = file_path @ '': No such file or directory'' @ endl, world = w'\<rparr>
         else \<lparr>ends = Uncaught (System_error e what), std_out = [], std_err = [], world = w'\<rparr>
     | (Inl ex, w') \<Rightarrow> \<lparr>ends = Uncaught ex, std_out = [], std_err = [], world = w'\<rparr>)"

definition client_delete ::
  "(StatusCode \<Rightarrow> int) \<Rightarrow> 'w CoordinatorStub \<Rightarrow> string \<Rightarrow> 'w \<Rightarrow> 'w run" where
  "client_delete code_num stub file_path w =
    (case client_deleteFile code_num stub file_path w of
       (Inr result, w') \<Rightarrow>
         if result
         then \<lparr>ends = Exit_Code 0, std_out = file_path @ '' deleted successfully'' @ endl, std_err = [], world = w'\<rparr>
         else \<lparr>ends = Exit_Code 1, std_out = [],
               std_err = ''Unexpected error when deleting '' @ file_path @ endl, world = w'\<rparr>
     | (Inl (System_error e what), w') \<Rightarrow>
         if e = ENOENT
         then \<lparr>ends = Exit_Code 1, std_out = [],
               std_err = file_path @ '': No such file or directory'' @ endl, world = w'\<rparr>
         else \<lparr>ends = Uncaught (System_error e what), std_out = [], std_err = [], world = w'\<rparr>
     | (Inl ex, w') \<Rightarrow> \<lparr>ends = Uncaught ex, std_out = [], std_err = [], world = w'\<rparr>)"

definition client_main ::
  "(StatusCode \<Rightarrow> int) \<Rightarrow> (string \<Rightarrow> 'w CoordinatorStub) \<Rightarrow> (string \<Rightarrow> bytes option) \<Rightarrow> string
    \<Rightarrow> (char \<times> string) list \<Rightarrow> string list \<Rightarrow> 'w \<Rightarrow> 'w run" where
  "client_main code_num NewStub files argv0 opts rest w =
    (case client_options opts ''localhost:50051'' of
       Inl code \<Rightarrow> \<lparr>ends = Exit_Code code, std_out = client_usage argv0, std_err = [], world = w\<rparr>
     | Inr coordinator_address \<Rightarrow>
         if length rest < 2
         then \<lparr>ends = Exit_Code 1,
               std_out = text_lines
                 [''Usage: '' @ argv0 @ '' [options] <put|get|delete> <file_path>'',
                  ''Use --help for more information.''],
               std_err = [], world = w\<rparr>
         else
           (let command = rest ! 0; file_path = rest ! 1; client = NewStub coordinator_address
            in if command = ''put'' then client_put client files file_path w
               else if command = ''get'' then client_get client file_path w
               else if command = ''delete'' then client_delete code_num client file_path w
               else \<lparr>ends = Exit_Code 1, std_out = ''Unknown command: '' @ command @ endl, std_err = [], world = w\<rparr>))"

section \<open>The servers\<close>

text \<open>
  \<open>parse_opts\<close> is declared to return \<open>int\<close>, and the only ways out of it but the closing brace are
  calls of \<open>exit\<close>. Reaching the brace is undefined behaviour: \<open>Falls_Off\<close>, with the addresses that
  the options have set by then. So \<open>main\<close> is defined only where the process exits in
  \<open>parse_opts\<close>; \<open>None\<close> is undefined behaviour. What the statements of \<open>main\<close> after the call do
  is modelled apart, by \<open>coordinator_serve\<close> and \<open>datanode_serve\<close>.
\<close>

datatype 'a parse_result =
    Exits int console
  | Falls_Off 'a

definition coordinator_usage :: "string \<Rightarrow> string" where
  "coordinator_usage program_name = text_lines
    [''Coordinator - Distributed File System Coordinator Server'', '''',
     ''Usage: '' @ program_name @ '' [options]'', '''',
     ''Options:'',
     ''  -l, --listen-address ADDR    Address to listen on (default: 0.0.0.0:50051)'',
     ''  -h, --help                   Show this help message'', '''',
     ''Examples:'',
     ''  '' @ program_name @ ''                           # Use default address'',
     ''  '' @ program_name @ '' -l localhost:50051         # Specify listen address'',
     ''  '' @ program_name @ '' --listen-address 0.0.0.0:50051  # Specify listen address'']"

fun coordinator_options :: "(char \<times> string) list \<Rightarrow> string \<Rightarrow> int + string" where
  "coordinator_options [] server_address = Inr server_address"
| "coordinator_options ((opt, optarg) # opts) server_address =
     (if opt = CHR ''l'' then coordinator_options opts optarg
      else if opt = CHR ''h'' then Inl 0
      else Inl 1)"

definition coordinator_parse_opts ::
  "string \<Rightarrow> (char \<times> string) list \<Rightarrow> string list \<Rightarrow> string parse_result" where
  "coordinator_parse_opts argv0 opts rest =
    (case coordinator_options opts ''0.0.0.0:50051'' of
       Inl code \<Rightarrow> Exits code (quiet\<lparr>cout := coordinator_usage argv0\<rparr>)
     | Inr server_address \<Rightarrow>
         if rest \<noteq> []
         then Exits 1 (\<lparr>cout = coordinator_usage argv0,
           cerr = text_lines
             [''Error: Positional arguments are not supported.'',
              ''Please use --listen-address or -l to specify the server address.'', '''',
              ''Example:'',
              ''  Old: '' @ argv0 @ '' localhost:50051'',
              ''  New: '' @ argv0 @ '' -l localhost:50051'', '''']\<rparr>)
         else Falls_Off server_address)"

definition coordinator_serve :: "(string list \<Rightarrow> bool) \<Rightarrow> string \<Rightarrow> process_end \<times> console" where
  "coordinator_serve bind server_address =
    (let server = Start bind (new_DFSServer server_address)
     in if \<not> IsRunning server then (Exit_Code 1, complain ''Fatal error starting server'' quiet)
        else (if Wait_returns server then Exit_Code 0 else Blocked,
              say (''Coordinator listening on '' @ server_address) quiet))"

definition coordinator_main ::
  "string \<Rightarrow> (char \<times> string) list \<Rightarrow> string list \<Rightarrow> (process_end \<times> console) option" where
  "coordinator_main argv0 opts rest =
    (case coordinator_parse_opts argv0 opts rest of
       Exits code con \<Rightarrow> Some (Exit_Code code, con)
     | Falls_Off server_address \<Rightarrow> None)"

definition datanode_usage :: "string \<Rightarrow> string" where
  "datanode_usage program_name = text_lines
    [''DataNode - Distributed File System DataNode Server'', '''',
     ''Usage: '' @ program_name @ '' [options]'', '''',
     ''Options:'',
     ''  -l, --listen-address ADDR    Address to listen on (default: 0.0.0.0:50052)'',
     ''  -c, --coordinator-address ADDR  Coordinator address to connect to (default: localhost:50051)'',
     ''  -h, --help                   Show this help message'', '''',
     ''Examples:'',
     ''  '' @ program_name @ ''                           # Use default addresses'',
     ''  '' @ program_name @ '' -l 0.0.0.0:50052           # Specify listen address only'',
     ''  '' @ program_name @ '' -c localhost:50051         # Specify coordinator address only'',
     ''  '' @ program_name @ '' -l 0.0.0.0:50052 -c localhost:50051  # Specify both addresses'']"

fun datanode_options :: "(char \<times> string) list \<Rightarrow> string \<times> string \<Rightarrow> int + string \<times> string" where
  "datanode_options [] addresses = Inr addresses"
| "datanode_options ((opt, optarg) # opts) (server_address, coordinator_address) =
     (if opt = CHR ''l'' then datanode_options opts (optarg, coordinator_address)
      else if opt = CHR ''c'' then datanode_options opts (server_address, optarg)
      else if opt = CHR ''h'' then Inl 0
      else Inl 1)"

definition datanode_parse_opts ::
  "string \<Rightarrow> (char \<times> string) list \<Rightarrow> string list \<Rightarrow> (string \<times> string) parse_result" where
  "datanode_parse_opts argv0 opts rest =
    (case datanode_options opts (''0.0.0.0:50052'', ''localhost:50051'') of
       Inl code \<Rightarrow> Exits code (quiet\<lparr>cout := datanode_usage argv0\<rparr>)
     | Inr addresses \<Rightarrow>
         if rest \<noteq> []
         then Exits 1 (\<lparr>cout = datanode_usage argv0,
           cerr = ''Error: Unexpected non-option arguments: '' @ concat (map (\<lambda>a. a @ '' '') rest) @ endl\<rparr>)
         else Falls_Off addresses)"

text \<open>The data node prints that it listens whether or not it does.\<close>

definition datanode_serve ::
  "(string list \<Rightarrow> bool) \<Rightarrow> (string \<Rightarrow> 'w RegistrationStub) \<Rightarrow> string \<Rightarrow> string \<Rightarrow> 'w \<Rightarrow> process_end \<times> console \<times> 'w" where
  "datanode_serve bind NewStub server_address coordinator_address w =
    (case new_DataNodeServer server_address coordinator_address default_DataNodeConfig of
       Inl ex \<Rightarrow> (Uncaught ex, quiet, w)
     | Inr server \<Rightarrow>
         (let (server', con, w') = DataNodeServer_Start bind NewStub server (quiet, w)
          in (if Wait_returns (DFSServer.truncate server') then Exit_Code 0 else Blocked,
              say (''DataNode connecting to coordinator at '' @ coordinator_address)
                (say (''DataNode listening on '' @ server_address) con), w')))"

definition datanode_main ::
  "string \<Rightarrow> (char \<times> string) list \<Rightarrow> string list \<Rightarrow> (process_end \<times> console) option" where
  "datanode_main argv0 opts rest =
    (case datanode_parse_opts argv0 opts rest of
       Exits code con \<Rightarrow> Some (Exit_Code code, con)
     | Falls_Off addresses \<Rightarrow> None)"

section \<open>Properties\<close>

lemma client_options_c: "client_options (map (\<lambda>a. (CHR ''c'', a)) as) d = Inr (last (d # as))"
  by (induction "as" arbitrary: d) auto

text \<open>C21. The command line round trip, over a reliable connection to the coordinator: \<open>put\<close> of a file
  of at most 2 GiB whose name is not empty and not visible, on a reached state (which has no full
  disks) in which some node is registered and every registered node is live, exits 0 and says so, a later \<open>get\<close> of it exits 0 and
  prints exactly the file's bytes, a \<open>delete\<close> exits 0, and a \<open>get\<close> after it exits 1 with
  \<open>No such file or directory\<close> and prints nothing.\<close>

theorem cli_session:
  fixes argv0 :: string and dead :: Status and early :: nat and clock :: "time_point \<times> time_point"
    and code_num :: "StatusCode \<Rightarrow> int"
  assumes "reached rt ops rs st w log"
    and "registered_nodes st \<noteq> []" "\<forall>(i, info) \<in> set (registered_nodes st). node_live w (info_endpoint info)"
    and "f \<noteq> []" "active_files (store st) f = None" "files f = Some content" "length content \<le> 2 ^ 31"
  defines "cli \<equiv> \<lambda>cmd s. client_main code_num (\<lambda>addr. coordinator_stub rt clock early dead) files argv0 [] [cmd, f] s"
  shows "\<exists>r1 r2 r3 r4. r1 = cli ''put'' (Some (st, w)) \<and> ends r1 = Exit_Code 0 \<and>
      std_out r1 = ''Uploaded '' @ f @ endl \<and>
      r2 = cli ''get'' (world r1) \<and> ends r2 = Exit_Code 0 \<and> std_out r2 = content \<and>
      r3 = cli ''delete'' (world r2) \<and> ends r3 = Exit_Code 0 \<and>
      r4 = cli ''get'' (world r3) \<and> ends r4 = Exit_Code 1 \<and> std_out r4 = [] \<and>
      std_err r4 = f @ '': No such file or directory'' @ endl"
proof -
  let ?stub = "coordinator_stub rt clock early dead"
  let ?msgs = "upload_messages f content"
  have m: "upload_name ?msgs \<noteq> []" "active_files (store st) (upload_name ?msgs) = None"
    "length (upload_data ?msgs) \<le> 2 ^ 31"
    using assms(4,5,7) by (simp_all add: upload_messages_name upload_messages_data)
  obtain st1 w1 resps s2 status where
    P: "PutFile rt ?msgs st w = Some ((status_OK, \<lparr>pfs_success = True\<rparr>), st1, w1)" and
    G: "GetFile rt \<lparr>gfr_filename = f\<rparr> (\<lambda>_. True) st1 w1 = ((status, resps), s2)" "status_ok status"
      "concat (map gfs_data resps) = content"
    using put_then_get_available' [OF assms(1-3) m] by (auto simp: upload_messages_name upload_messages_data)
  obtain st2 w2 where s2: "s2 = (st2, w2)" by (cases s2)
  have act: "active_files (store st1) f \<noteq> None"
    using G(1,2) by (auto simp: GetFile_def getFile_eq split: option.splits)
  have act2: "active_files (store st2) f \<noteq> None"
    using G(1) act s2 by (auto simp: GetFile_def getFile_eq split: option.splits prod.splits)
  have c1: "client_putFile ?stub files f (Some (st, w)) = (Inr True, Some (st1, w1))"
    using P assms(6) by (simp add: client_putFile_def putFileSync_def coordinator_stub_def status_OK_def Let_def)
  have c2: "client_getFile ?stub f (Some (st1, w1)) = (Inr content, Some (st2, w2))"
    using G s2 by (simp add: client_getFile_def getFileSync_def coordinator_stub_def foldl_append)
  obtain st3 where D: "DeleteFile \<lparr>dfr_path = f\<rparr> (fst clock) (snd clock) st2 = ((status_OK, \<lparr>dfs_success = True\<rparr>), st3)"
    and gone: "active_files (store st3) f = None"
    using act2 by (auto simp: DeleteFile_def getFile_eq active_files_deletePath Let_def)
  have c3: "client_deleteFile code_num ?stub f (Some (st2, w2)) = (Inr True, Some (st3, w2))"
    using D by (simp add: client_deleteFile_def deleteFileSync_def coordinator_stub_def)
  have c4: "\<exists>s. client_getFile ?stub f (Some (st3, w2)) = (Inl (System_error ENOENT ''No such file or directory''), s)"
    using gone by (simp add: client_getFile_def getFileSync_def coordinator_stub_def GetFile_def getFile_eq)
  have r: "cli ''put'' = client_put ?stub files f" "cli ''get'' = client_get ?stub f"
      "cli ''delete'' = client_delete code_num ?stub f"
    by (simp_all add: cli_def client_main_def fun_eq_iff)
  show ?thesis
    unfolding r using c4 by (auto simp: client_put_def client_get_def client_delete_def c1 c2 c3)
qed

theorem cli_session_witness:
  "\<exists>r. r = client_main (\<lambda>_. 0) (\<lambda>addr. coordinator_stub demo_runtime (1, 2) 0 status_OK) [''a'' \<mapsto> ''xyz'']
        ''dfs'' [] [''put'', ''a''] (Some (three_nodes, demo_w0)) \<and>
     ends r = Exit_Code 0 \<and> std_out r = ''Uploaded a'' @ endl"
proof -
  obtain rs where r: "reached demo_runtime demo_registrations rs three_nodes demo_w0 []"
    using demo_registered_state by blast
  have ne: "registered_nodes three_nodes \<noteq> []" by (simp add: three_nodes_def)
  have act: "active_files (store three_nodes) ''a'' = None"
    by (simp add: three_nodes_def new_CoordinatorServiceImpl_def active_files_def empty_MetadataStore_def)
  show ?thesis
    using cli_session [OF r ne demo_all_live _ act, of "[''a'' \<mapsto> ''xyz'']" "''xyz''" "\<lambda>_. 0" "(1, 2)" 0 status_OK "''dfs''"]
    by simp
qed

lemma client_get_missing:
  assumes "active_files (store st) f = None"
  shows "\<exists>st'. client_getFile (coordinator_stub rt clock early dead) f (Some (st, w))
      = (Inl (System_error ENOENT ''No such file or directory''), Some (st', w)) \<and>
    active_files (store st') = active_files (store st)"
  using assms by (auto simp: client_getFile_def getFileSync_def coordinator_stub_def GetFile_def getFile_eq)

lemma client_delete_missing:
  assumes "active_files (store st) f = None"
  shows "\<exists>st'. client_deleteFile code_num (coordinator_stub rt clock early dead) f (Some (st, w))
      = (Inl (System_error ENOENT ''No such file or directory''), Some (st', w)) \<and>
    active_files (store st') = active_files (store st)"
  using assms by (auto simp: client_deleteFile_def deleteFileSync_def coordinator_stub_def DeleteFile_def getFile_eq)

text \<open>C39. What the client refuses and how it says so, with the coordinator at the last address given:
  a \<open>get\<close> or \<open>delete\<close> of a name that is not visible exits 1 with \<open>No such file or directory\<close>; a
  \<open>put\<close> of a local file that cannot be opened dies of an uncaught runtime error before it calls
  the coordinator; a \<open>put\<close> of a visible name exits 1 with \<open>File exists\<close> if the stream accepts all
  its messages and otherwise, since the refused stream is already closed, dies of an uncaught
  runtime error; any other command exits 1 as unknown. In each case nothing else is printed, and the
  files and the data nodes stay as they are.\<close>

theorem cli_refusals:
  fixes f argv0 :: string and others :: "string list" and files :: "string \<Rightarrow> bytes option" and w :: cluster
    and st :: CoordinatorServiceImpl and code_num :: "StatusCode \<Rightarrow> int"
  assumes "NewStub (last (''localhost:50051'' # addresses)) = coordinator_stub rt clock early dead"
  defines "cli \<equiv> \<lambda>cmd. client_main code_num NewStub files argv0 (map (\<lambda>a. (CHR ''c'', a)) addresses) (cmd # f # others) (Some (st, w))"
  shows "(cmd \<in> {''get'', ''delete''} \<and> active_files (store st) f = None \<longrightarrow>
      ends (cli cmd) = Exit_Code 1 \<and> std_out (cli cmd) = [] \<and> std_err (cli cmd) = f @ '': No such file or directory'' @ endl \<and>
      (\<exists>st'. world (cli cmd) = Some (st', w) \<and> active_files (store st') = active_files (store st)))
   \<and> (files f = None \<longrightarrow> cli ''put'' = \<lparr>ends = Uncaught (Runtime_error (''Failed to open file: '' @ f)),
        std_out = [], std_err = [], world = Some (st, w)\<rparr>)
   \<and> (active_files (store st) f \<noteq> None \<and> files f = Some content \<longrightarrow>
      (if length (upload_messages f content) \<le> max 1 early
       then ends (cli ''put'') = Exit_Code 1 \<and> std_err (cli ''put'') = f @ '': File exists'' @ endl
       else (\<exists>what. ends (cli ''put'') = Uncaught (Runtime_error what)) \<and> std_err (cli ''put'') = []) \<and>
      std_out (cli ''put'') = [] \<and>
      (\<exists>st'. world (cli ''put'') = Some (st', w) \<and> active_files (store st') = active_files (store st)))
   \<and> (cmd \<notin> {''put'', ''get'', ''delete''} \<longrightarrow> cli cmd = \<lparr>ends = Exit_Code 1, std_out = ''Unknown command: '' @ cmd @ endl,
        std_err = [], world = Some (st, w)\<rparr>)"
proof (intro conjI impI)
  let ?stub = "coordinator_stub rt clock early dead"
  have r: "cli ''put'' = client_put ?stub files f (Some (st, w))" "cli ''get'' = client_get ?stub f (Some (st, w))"
      "cli ''delete'' = client_delete code_num ?stub f (Some (st, w))"
    using assms(1) by (simp_all add: cli_def client_main_def client_options_c)
  show "ends (cli cmd) = Exit_Code 1" "std_out (cli cmd) = []" "std_err (cli cmd) = f @ '': No such file or directory'' @ endl"
      "\<exists>st'. world (cli cmd) = Some (st', w) \<and> active_files (store st') = active_files (store st)"
    if "cmd \<in> {''get'', ''delete''} \<and> active_files (store st) f = None"
    using that client_get_missing [of st f rt clock early dead w] client_delete_missing [of st f code_num rt clock early dead w]
    by (auto simp: r client_get_def client_delete_def)
  show "cli ''put'' = \<lparr>ends = Uncaught (Runtime_error (''Failed to open file: '' @ f)),
        std_out = [], std_err = [], world = Some (st, w)\<rparr>" if "files f = None"
    using that by (simp add: r client_put_def client_putFile_def putFileSync_def)
  assume "active_files (store st) f \<noteq> None \<and> files f = Some content"
  then obtain st' where put: "client_putFile ?stub files f (Some (st, w))
    = (Inl (if length (upload_messages f content) \<le> max 1 early
            then System_error EEXIST ''File exists''
            else if max 1 early \<le> length (fst (read_blocks content))
            then Runtime_error ''Failed to send data chunk''
            else Runtime_error ''Failed to send final data chunk''), Some (st', w))"
      "active_files (store st') = active_files (store st)"
    using existing_name_reported [of st f files content] by blast
  show "if length (upload_messages f content) \<le> max 1 early
       then ends (cli ''put'') = Exit_Code 1 \<and> std_err (cli ''put'') = f @ '': File exists'' @ endl
       else (\<exists>what. ends (cli ''put'') = Uncaught (Runtime_error what)) \<and> std_err (cli ''put'') = []"
      "std_out (cli ''put'') = []"
      "\<exists>st'. world (cli ''put'') = Some (st', w) \<and> active_files (store st') = active_files (store st)"
    using put by (simp_all add: r client_put_def)
next
  show "cli cmd = \<lparr>ends = Exit_Code 1, std_out = ''Unknown command: '' @ cmd @ endl, std_err = [], world = Some (st, w)\<rparr>"
    if "cmd \<notin> {''put'', ''get'', ''delete''}"
    using that by (simp add: cli_def client_main_def client_options_c)
qed

theorem cli_refusals_witness:
  "ends (client_main (\<lambda>_. 0) (\<lambda>addr. coordinator_stub demo_runtime (1, 2) 1 status_OK) [''f'' \<mapsto> ''abc'']
      ''dfs'' [] [''get'', ''nothing''] (Some (three_nodes, demo_w0))) = Exit_Code 1
   \<and> (\<exists>what. ends (client_main (\<lambda>_. 0) (\<lambda>addr. coordinator_stub demo_runtime (1, 2) 1 status_OK) [''f'' \<mapsto> ''abc'']
      ''dfs'' [] [''put'', ''f''] (Some (three_nodes\<lparr>store := full_store\<rparr>, demo_w0))) = Uncaught (Runtime_error what))"
proof
  note ref = cli_refusals [where NewStub = "\<lambda>addr. coordinator_stub demo_runtime (1, 2) 1 status_OK"
      and addresses = "[]" and code_num = "\<lambda>_. 0" and files = "[''f'' \<mapsto> ''abc'']" and ?argv0.0 = "''dfs''"
      and others = "[]" and rt = demo_runtime and clock = "(1, 2)" and early = 1 and dead = status_OK, OF refl, unfolded list.map]
  have "active_files (store three_nodes) ''nothing'' = None"
    by (simp add: three_nodes_def new_CoordinatorServiceImpl_def active_files_def empty_MetadataStore_def)
  then show "ends (client_main (\<lambda>_. 0) (\<lambda>addr. coordinator_stub demo_runtime (1, 2) 1 status_OK) [''f'' \<mapsto> ''abc'']
      ''dfs'' [] [''get'', ''nothing''] (Some (three_nodes, demo_w0))) = Exit_Code 1"
    using ref [of "''get''" three_nodes "''nothing''"] by simp
  have there: "active_files (store (three_nodes\<lparr>store := full_store\<rparr>)) ''f'' \<noteq> None"
    by (simp add: full_store_def active_files_def)
  have "read_blocks ''abc'' = ([], ''abc'')" by (rule read_blocks_short) (simp add: buffer_size_def)
  then have "length (upload_messages ''f'' ''abc'') = 2" by (simp add: upload_messages_def)
  then show "\<exists>what. ends (client_main (\<lambda>_. 0) (\<lambda>addr. coordinator_stub demo_runtime (1, 2) 1 status_OK) [''f'' \<mapsto> ''abc'']
      ''dfs'' [] [''put'', ''f''] (Some (three_nodes\<lparr>store := full_store\<rparr>, demo_w0))) = Uncaught (Runtime_error what)"
    using ref [THEN conjunct2, THEN conjunct2, THEN conjunct1, of "three_nodes\<lparr>store := full_store\<rparr>" "''f''" "''abc''" demo_w0] there by simp
qed

lemma coordinator_options_find:
  "case find (\<lambda>(opt, arg). opt \<noteq> CHR ''l'') opts of
     Some (opt, arg) \<Rightarrow> coordinator_options opts address = Inl (if opt = CHR ''h'' then 0 else 1)
   | None \<Rightarrow> \<exists>address'. coordinator_options opts address = Inr address'"
  by (induction opts arbitrary: address) (auto split: option.splits)

lemma coordinator_options_addresses: "coordinator_options (map (Pair CHR ''l'') as) d = Inr (last (d # as))"
  by (induction "as" arbitrary: d) auto

lemma datanode_options_addresses:
  "datanode_options (map (Pair CHR ''l'') as @ map (Pair CHR ''c'') cs) (d, c) = Inr (last (d # as), last (c # cs))"
proof (induction "as" arbitrary: d)
  case Nil
  show ?case by (induction cs arbitrary: c) auto
qed auto

lemma datanode_options_find:
  "case find (\<lambda>(opt, arg). opt \<notin> {CHR ''l'', CHR ''c''}) opts of
     Some (opt, arg) \<Rightarrow> datanode_options opts addresses = Inl (if opt = CHR ''h'' then 0 else 1)
   | None \<Rightarrow> \<exists>addresses'. datanode_options opts addresses = Inr addresses'"
  by (induction opts addresses rule: datanode_options.induct) (auto split: option.splits)

text \<open>C40. The command lines of the two servers. The first option that is not an address option ends the
  process with the usage on \<open>std::cout\<close>, with code 0 for help and 1 for anything else; a positional
  argument ends it with code 1, the usage and a complaint on \<open>std::cerr\<close>. Every other command line
  is undefined behaviour, because \<open>parse_opts\<close> runs off its end, when the last of several address
  options has won. The rest of \<open>main\<close>, taken for itself, treats a failed bind differently in the two:
  the coordinator complains and exits with code 1, the data node registers its endpoint, prints
  that it listens and exits with code 0 without a word on \<open>std::cerr\<close>; after a successful bind both
  block.\<close>

theorem server_mains:
  "(\<exists>complaint. complaint \<noteq> [] \<and> coordinator_main argv0 opts rest =
      (case find (\<lambda>(opt, arg). opt \<noteq> CHR ''l'') opts of
         Some (opt, arg) \<Rightarrow> Some (Exit_Code (if opt = CHR ''h'' then 0 else 1), \<lparr>cout = coordinator_usage argv0, cerr = []\<rparr>)
       | None \<Rightarrow> if rest = [] then None else Some (Exit_Code 1, \<lparr>cout = coordinator_usage argv0, cerr = complaint\<rparr>)))
   \<and> datanode_main argv0 opts rest =
      (case find (\<lambda>(opt, arg). opt \<notin> {CHR ''l'', CHR ''c''}) opts of
         Some (opt, arg) \<Rightarrow> Some (Exit_Code (if opt = CHR ''h'' then 0 else 1), \<lparr>cout = datanode_usage argv0, cerr = []\<rparr>)
       | None \<Rightarrow> if rest = [] then None else Some (Exit_Code 1, \<lparr>cout = datanode_usage argv0,
           cerr = ''Error: Unexpected non-option arguments: '' @ concat (map (\<lambda>a. a @ '' '') rest) @ endl\<rparr>))
   \<and> coordinator_parse_opts argv0 (map (Pair CHR ''l'') as) [] = Falls_Off (last (''0.0.0.0:50051'' # as))
   \<and> datanode_parse_opts argv0 (map (Pair CHR ''l'') as @ map (Pair CHR ''c'') cs) [] =
       Falls_Off (last (''0.0.0.0:50052'' # as), last (''localhost:50051'' # cs))
   \<and> coordinator_serve bind address =
      (if bind (listening_ports address) then (Blocked, say (''Coordinator listening on '' @ address) quiet)
       else (Exit_Code 1, complain ''Fatal error starting server'' quiet))
   \<and> (n < 2 ^ 31 \<and> rpc_Register (stub ca) (of_nat n) w = ((status_OK, resp), w') \<and> rdr_success resp \<longrightarrow>
        datanode_serve bind stub (host @ '':'' @ digits n) ca w =
          (if bind (listening_ports (host @ '':'' @ digits n)) then Blocked else Exit_Code 0,
           \<lparr>cout = text_lines
             [''Registering DataNode with Coordinator at '' @ ca @ '' (listening on port '' @ digits n @ '')...'',
              ''Successfully registered with Coordinator. Assigned Node ID: '' @ to_string (sint (rdr_node_id resp)),
              ''DataNode listening on '' @ host @ '':'' @ digits n,
              ''DataNode connecting to coordinator at '' @ ca], cerr = []\<rparr>, w'))"
proof (intro conjI impI)
  show "\<exists>complaint. complaint \<noteq> [] \<and> coordinator_main argv0 opts rest =
      (case find (\<lambda>(opt, arg). opt \<noteq> CHR ''l'') opts of
         Some (opt, arg) \<Rightarrow> Some (Exit_Code (if opt = CHR ''h'' then 0 else 1), \<lparr>cout = coordinator_usage argv0, cerr = []\<rparr>)
       | None \<Rightarrow> if rest = [] then None else Some (Exit_Code 1, \<lparr>cout = coordinator_usage argv0, cerr = complaint\<rparr>))"
    by (rule exI [of _ "text_lines
             [''Error: Positional arguments are not supported.'',
              ''Please use --listen-address or -l to specify the server address.'', '''',
              ''Example:'',
              ''  Old: '' @ argv0 @ '' localhost:50051'',
              ''  New: '' @ argv0 @ '' -l localhost:50051'', '''']"])
      (use coordinator_options_find [of opts "''0.0.0.0:50051''"] in
        \<open>auto simp: coordinator_main_def coordinator_parse_opts_def quiet_def text_lines_def split: option.splits\<close>)
  show "datanode_main argv0 opts rest =
      (case find (\<lambda>(opt, arg). opt \<notin> {CHR ''l'', CHR ''c''}) opts of
         Some (opt, arg) \<Rightarrow> Some (Exit_Code (if opt = CHR ''h'' then 0 else 1), \<lparr>cout = datanode_usage argv0, cerr = []\<rparr>)
       | None \<Rightarrow> if rest = [] then None else Some (Exit_Code 1, \<lparr>cout = datanode_usage argv0,
           cerr = ''Error: Unexpected non-option arguments: '' @ concat (map (\<lambda>a. a @ '' '') rest) @ endl\<rparr>))"
    using datanode_options_find [of opts "(''0.0.0.0:50052'', ''localhost:50051'')"]
    by (auto simp: datanode_main_def datanode_parse_opts_def quiet_def split: option.splits)
  show "coordinator_parse_opts argv0 (map (Pair CHR ''l'') as) [] = Falls_Off (last (''0.0.0.0:50051'' # as))"
    by (simp add: coordinator_parse_opts_def coordinator_options_addresses)
  show "datanode_parse_opts argv0 (map (Pair CHR ''l'') as @ map (Pair CHR ''c'') cs) [] =
       Falls_Off (last (''0.0.0.0:50052'' # as), last (''localhost:50051'' # cs))"
    by (simp add: datanode_parse_opts_def datanode_options_addresses)
  show "coordinator_serve bind address =
      (if bind (listening_ports address) then (Blocked, say (''Coordinator listening on '' @ address) quiet)
       else (Exit_Code 1, complain ''Fatal error starting server'' quiet))"
    by (simp add: coordinator_serve_def IsRunning_def Wait_returns_def new_DFSServer_def)
next
  assume n: "n < 2 ^ 31 \<and> rpc_Register (stub ca) (of_nat n) w = ((status_OK, resp), w') \<and> rdr_success resp"
  have "CHR '':'' \<notin> set (digits n)" using digits_all_digit [of "CHR '':''"] by (auto simp: is_digit_def)
  then have "rfind_char CHR '':'' (host @ '':'' @ digits n) = Some (length host)"
    using rfind_char_append [of "CHR '':''" "digits n" host] by simp
  moreover have "sint (of_nat n :: int32) = int n"
    using n by (simp add: signed_of_nat signed_take_bit_int_eq_self)
  ultimately show "datanode_serve bind stub (host @ '':'' @ digits n) ca w =
          (if bind (listening_ports (host @ '':'' @ digits n)) then Blocked else Exit_Code 0,
           \<lparr>cout = text_lines
             [''Registering DataNode with Coordinator at '' @ ca @ '' (listening on port '' @ digits n @ '')...'',
              ''Successfully registered with Coordinator. Assigned Node ID: '' @ to_string (sint (rdr_node_id resp)),
              ''DataNode listening on '' @ host @ '':'' @ digits n,
              ''DataNode connecting to coordinator at '' @ ca], cerr = []\<rparr>, w')"
    using n
    by (simp add: datanode_serve_def new_DataNodeServer_def stoi_digits Let_def
        DataNodeServer_Start_def registerWithCoordinator_def Wait_returns_def say_def quiet_def text_lines_def)
qed

theorem server_mains_witness:
  "coordinator_main ''coordinator'' [(CHR ''l'', ''localhost:1'')] [] = None
   \<and> fst (datanode_serve (\<lambda>_. False) (registration_stub rev ''ipv4:10.0.0.4:5000'') (''h'' @ '':'' @ digits 9000) ''c:1'' three_nodes)
      = Exit_Code 0"
proof
  let ?stub = "\<lambda>t. registration_stub rev ''ipv4:10.0.0.4:5000'' t"
  have reg: "(9000::nat) < 2 ^ 31 \<and> rpc_Register (?stub ''c:1'') (of_nat 9000) three_nodes =
      ((status_OK, empty_RegisterDataNodeResponse\<lparr>rdr_success := True, rdr_node_id := 4\<rparr>),
       snd (RegisterDataNode rev ''ipv4:10.0.0.4:5000'' 9000 three_nodes)) \<and>
      rdr_success (empty_RegisterDataNodeResponse\<lparr>rdr_success := True, rdr_node_id := 4\<rparr>)"
    by (simp add: registration_stub_def RegisterDataNode_def three_nodes_def extractClientAddress_def
        rfind_char_def find_char_def)
  show "coordinator_main ''coordinator'' [(CHR ''l'', ''localhost:1'')] [] = None"
    using server_mains [THEN conjunct1, of "''coordinator''" "[(CHR ''l'', ''localhost:1'')]" "[]"] by simp
  from server_mains [where stub = ?stub and ca = "''c:1''" and n = 9000 and bind = "\<lambda>_. False" and ?argv0.0 = "''datanode''"
      and host = "''h''", THEN conjunct2, THEN conjunct2, THEN conjunct2, THEN conjunct2, THEN conjunct2, THEN mp, OF reg]
  show "fst (datanode_serve (\<lambda>_. False) ?stub (''h'' @ '':'' @ digits 9000) ''c:1'' three_nodes) = Exit_Code 0"
    by simp
qed

end
