(* ===== verification/Handler_Threads.thy ===== *)
theory Handler_Threads
  imports Coordinator_Refinement
begin

text \<open>
  The handlers of the coordinator as threads. gRPC runs every request in a thread of its
  own. \<open>MetadataStore\<close> has a mutex, the counters are atomic, and the registry of the
  nodes has no lock at all: every handler reads or writes \<open>registered_nodes_\<close> when it
  gets there, through iterators that another thread may invalidate. Here a handler is a
  program counter with its local variables, and a step takes it from one access of the
  shared state to the next: a method of the store, one atomic operation, one search,
  dereference, insertion or erasure in the registry, one call to a data node. The
  operations of \<open>Coordinator\<close> and \<open>Registry\<close> are what a thread does when no other one
  moves.

  The memory model is sequentially consistent and an access is one step, so of the data
  races on the registry only those that come from two accesses out of order are seen. An
  insertion into the registry is taken to leave the iterators of other threads valid, which
  a table of nodes does, although the standard promises it only when there is no rehash.
  \<open>Undefined\<close> is a thread that has used a destroyed object or overflowed an \<open>int\<close>.
\<close>

section \<open>Threads\<close>

datatype request =
    Req_Put "PutFileRequest list"
  | Req_Get string "nat \<Rightarrow> bool"
  | Req_Delete string time_point time_point
  | Req_Register string int32
  | Req_Unregister int32

text \<open>
  A task of \<open>distributeChunkToNodes\<close>, \<open>distributeChunkToSingleNode\<close> for one replica:
  before the search of the registry, with the iterator it has found, with the client it
  has made from the entry, and with the status that is its result.
\<close>

datatype task =
    Task_Find
  | Task_Client
  | Task_Call DataNodeInfo
  | Task_Done Status

text \<open>
  Where a handler stands. \<open>Put_Loop\<close> is the head of the loop over the chunks with the
  name, the data, the index and \<open>meta.chunks\<close>; \<open>Put_Place\<close> has drawn the chunk's
  identifier, \<open>Put_Pick\<close> has copied the identifiers of the nodes, \<open>Put_Send\<close> has its
  replicas, \<open>Put_Wait\<close> has started the tasks. \<open>Get_Deref\<close> holds the pointer \<open>getFile\<close>
  gave it, with what it pointed to then, and \<open>Get_Loop\<close> the iterators over
  \<open>meta->chunks\<close>; \<open>Get_Find\<close> to \<open>Get_Call\<close> are \<open>readChunkWithFallback\<close> with the
  replicas it has left to try.
\<close>

datatype handler =
    Put_Check
  | Put_Loop string bytes nat "ChunkInfo list"
  | Put_Place string bytes nat "ChunkInfo list" string
  | Put_Pick string bytes nat "ChunkInfo list" string "int32 list"
  | Put_Send string bytes nat "ChunkInfo list" ChunkInfo
  | Put_Wait string bytes nat "ChunkInfo list" ChunkInfo "task list"
  | Put_Return Status PutFileResponse
  | Get_Lookup
  | Get_Deref FileMeta
  | Get_Loop FileMeta nat "GetFileResponse list"
  | Get_Find FileMeta nat "GetFileResponse list" "int32 list"
  | Get_Client FileMeta nat "GetFileResponse list" int32 "int32 list"
  | Get_Call FileMeta nat "GetFileResponse list" DataNodeInfo "int32 list"
  | Get_Return Status "GetFileResponse list"
  | Delete_Lookup
  | Delete_Move
  | Delete_Test
  | Delete_Set
  | Delete_Return Status DeleteFileResponse
  | Register_Check
  | Register_Draw
  | Register_Insert int32
  | Register_Return Status RegisterDataNodeResponse
  | Unregister_Find
  | Unregister_Erase
  | Unregister_Return Status UnregisterDataNodeResponse
  | Undefined

fun entry_point :: "request \<Rightarrow> handler" where
  "entry_point (Req_Put reqs) = Put_Check"
| "entry_point (Req_Get name wr) = Get_Lookup"
| "entry_point (Req_Delete name delete_time now) = Delete_Lookup"
| "entry_point (Req_Register peer port) = Register_Check"
| "entry_point (Req_Unregister node_id) = Unregister_Find"

fun finished :: "handler \<Rightarrow> bool" where
  "finished (Put_Return status resp) \<longleftrightarrow> True"
| "finished (Get_Return status resps) \<longleftrightarrow> True"
| "finished (Delete_Return status resp) \<longleftrightarrow> True"
| "finished (Register_Return status resp) \<longleftrightarrow> True"
| "finished (Unregister_Return status resp) \<longleftrightarrow> True"
| "finished Undefined \<longleftrightarrow> True"
| "finished _ \<longleftrightarrow> False"

section \<open>The steps\<close>

text \<open>How many times the loop over the chunks of an upload runs.\<close>

definition upload_chunks :: "bytes \<Rightarrow> nat" where
  "upload_chunks d = nat (sint (num_chunks (length d)))"

text \<open>
  The steps of a task. Its iterator is the one of its node's entry as long as the entry is
  in the map; \<open>None\<close> is the use of an iterator that is not valid any more.
\<close>

fun task_step ::
  "'w runtime \<Rightarrow> node_registry \<Rightarrow> string \<Rightarrow> bytes \<Rightarrow> int32 \<Rightarrow> task \<Rightarrow> 'w \<Rightarrow> (task \<times> 'w) option" where
  "task_step rt reg cid chunk_data node_id Task_Find w =
    (case map_of reg node_id of
       None \<Rightarrow> Some (Task_Done (Status NOT_FOUND (''Node ID '' @ to_string (sint node_id) @ '' not found in registry'')), w)
     | Some info \<Rightarrow> Some (Task_Client, w))"
| "task_step rt reg cid chunk_data node_id Task_Client w =
    (case map_of reg node_id of None \<Rightarrow> None | Some info \<Rightarrow> Some (Task_Call info, w))"
| "task_step rt reg cid chunk_data node_id (Task_Call info) w =
    (let node_client = client_factory rt (info_address info) (info_port info);
         (client_status, w') = PutChunk node_client cid chunk_data w
     in Some (Task_Done (if \<not> status_ok client_status then client_status else status_OK), w'))"
| "task_step rt reg cid chunk_data node_id (Task_Done status) w = Some (Task_Done status, w)"

fun task_done :: "task \<Rightarrow> bool" where
  "task_done (Task_Done status) \<longleftrightarrow> True"
| "task_done _ \<longleftrightarrow> False"

fun task_status :: "task \<Rightarrow> Status" where
  "task_status (Task_Done status) = status"
| "task_status _ = status_OK"

definition running_tasks :: "task list \<Rightarrow> nat list" where
  "running_tasks tasks = filter (\<lambda>t. \<not> task_done (tasks ! t)) [0..<length tasks]"

text \<open>
  The steps of an upload: the check of the name (the messages after the first are read
  without touching the shared state, so they are read in the same step), then for every
  chunk the atomic increment, the two halves of \<open>selectNodesForReplication\<close>, the start of
  the tasks, their steps in any order, where \<open>j\<close> says which of the running ones is next,
  and the end of the wait for them; at the end of the loop the commit.
\<close>

fun put_step ::
  "'w runtime \<Rightarrow> nat \<Rightarrow> PutFileRequest list \<Rightarrow> handler \<Rightarrow> CoordinatorServiceImpl \<times> 'w
    \<Rightarrow> handler \<times> CoordinatorServiceImpl \<times> 'w" where
  "put_step rt j reqs Put_Check (st, w) =
    (case put_receive True [] [] reqs (store st) of
       (Inl status, ms) \<Rightarrow> (Put_Return status \<lparr>pfs_success = False\<rparr>, st\<lparr>store := ms\<rparr>, w)
     | (Inr (filename, file_data), ms) \<Rightarrow>
         if filename = []
         then (Put_Return (Status INVALID_ARGUMENT ''Filename not provided'') \<lparr>pfs_success = False\<rparr>,
               st\<lparr>store := ms\<rparr>, w)
         else (Put_Loop filename file_data 0 [], st\<lparr>store := ms\<rparr>, w))"
| "put_step rt j reqs (Put_Loop filename file_data i cs) (st, w) =
    (if i < upload_chunks file_data
     then (Put_Place filename file_data i cs (''chunk_'' @ to_string (uint (chunk_id_counter st))),
           st\<lparr>chunk_id_counter := chunk_id_counter st + 1\<rparr>, w)
     else (let meta = \<lparr>fm_size = of_nat (length file_data), chunk_size = of_nat CHUNK_SIZE, chunks = cs\<rparr>
           in (Put_Return status_OK \<lparr>pfs_success = True\<rparr>,
               st\<lparr>store := putFile filename meta (store st)\<rparr>, w)))"
| "put_step rt j reqs (Put_Place filename file_data i cs cid) (st, w) =
    (if sint (replication_factor default_ChunkInfo) \<le> 0 \<or> registered_nodes st = []
        \<or> map fst (hash_order rt (registered_nodes st)) = []
     then (Put_Return (Status INTERNAL ''No nodes available for replication'') \<lparr>pfs_success = False\<rparr>, st, w)
     else (Put_Pick filename file_data i cs cid (map fst (hash_order rt (registered_nodes st))), st, w))"
| "put_step rt j reqs (Put_Pick filename file_data i cs cid ids) (st, w) =
    (let c = default_ChunkInfo\<lparr>chunk_id := cid\<rparr>
     in case pick_nodes ids (next_node_index st) (replication_factor c) of
          None \<Rightarrow> (Undefined, st\<lparr>next_node_index := next_node_index st + 1\<rparr>, w)
        | Some selected \<Rightarrow>
            (Put_Send filename file_data i cs (c\<lparr>node_ids := selected, replication_factor := 3\<rparr>),
             st\<lparr>next_node_index := next_node_index st + 1\<rparr>, w))"
| "put_step rt j reqs (Put_Send filename file_data i cs c) (st, w) =
    (if 2 ^ 31 \<le> i * CHUNK_SIZE then (Undefined, st, w)
     else if node_ids c = []
     then (Put_Return (Status INTERNAL ''No nodes specified for chunk distribution'') \<lparr>pfs_success = False\<rparr>, st, w)
     else (Put_Wait filename file_data i cs c (replicate (length (node_ids c)) Task_Find), st, w))"
| "put_step rt j reqs (Put_Wait filename file_data i cs c tasks) (st, w) =
    (let ts = running_tasks tasks
     in if ts \<noteq> []
        then (let t = ts ! (j mod length ts)
              in case task_step rt (registered_nodes st) (chunk_id c) (chunk_slice file_data i)
                        (node_ids c ! t) (tasks ! t) w of
                   None \<Rightarrow> (Undefined, st, w)
                 | Some (task, w') \<Rightarrow> (Put_Wait filename file_data i cs c (tasks[t := task]), st, w'))
        else
          (let distribution_status = collect_statuses (node_ids c) (map task_status tasks)
           in if \<not> status_ok distribution_status
              then (Put_Return distribution_status \<lparr>pfs_success = False\<rparr>, st, w)
              else (Put_Loop filename file_data (Suc i) (cs @ [c]), st, w)))"
| "put_step rt j reqs h (st, w) = (h, st, w)"

text \<open>
  The steps of a download: the lookup, the evaluation of \<open>meta->chunks\<close> through the
  pointer, and for every chunk the loop over its replicas: the search of the registry, the
  use of the entry it has found, the call; \<open>Write\<close> is part of the step of a call that
  succeeds. The pointer is valid while the entry it was taken from is in the map. An entry
  that has other metadata by then was either overwritten in place, and the pointer leads to
  the new metadata, or erased and inserted again, and the pointer is gone; the values do not
  tell which, so both steps exist and \<open>j\<close> says which one is taken. The
  iterators and the references to the chunk they point to lead into the buffer of the
  vector, which \<open>deletePath\<close> moves into the tombstone with its elements in place, so they
  are valid while the file is visible or its tombstone is kept. The identifiers of its
  chunks make metadata with chunks unique, so its value stands for the buffer.
\<close>

definition buffer_alive :: "FileMeta \<Rightarrow> CoordinatorServiceImpl \<Rightarrow> bool" where
  "buffer_alive meta st \<longleftrightarrow> meta \<in> set (store_metas (store st))"

definition read_failed :: "string \<Rightarrow> string \<Rightarrow> Status" where
  "read_failed cid msg = Status INTERNAL (''Failed to read chunk '' @ cid @ '': '' @ msg)"

fun get_step ::
  "'w runtime \<Rightarrow> nat \<Rightarrow> string \<Rightarrow> (nat \<Rightarrow> bool) \<Rightarrow> handler \<Rightarrow> CoordinatorServiceImpl \<times> 'w
    \<Rightarrow> handler \<times> CoordinatorServiceImpl \<times> 'w" where
  "get_step rt j name wr Get_Lookup (st, w) =
    (case getFile name (store st) of
       (None, ms) \<Rightarrow> (Get_Return (Status NOT_FOUND ''File not found'') [], st\<lparr>store := ms\<rparr>, w)
     | (Some meta, ms) \<Rightarrow> (Get_Deref meta, st\<lparr>store := ms\<rparr>, w))"
| "get_step rt j name wr (Get_Deref meta) (st, w) =
    (case map_of (entries (store st)) name of
       None \<Rightarrow> (Undefined, st, w)
     | Some entry \<Rightarrow>
         if file_meta entry = meta \<or> 0 < j then (Get_Loop (file_meta entry) 0 [], st, w) else (Undefined, st, w))"
| "get_step rt j name wr (Get_Loop meta i resps) (st, w) =
    (if length (chunks meta) \<le> i then (Get_Return status_OK resps, st, w)
     else if \<not> buffer_alive meta st then (Undefined, st, w)
     else if node_ids (chunks meta ! i) = []
     then (Get_Return (read_failed (chunk_id (chunks meta ! i)) ''No nodes specified for chunk read'') resps, st, w)
     else (Get_Find meta i resps (node_ids (chunks meta ! i)), st, w))"
| "get_step rt j name wr (Get_Find meta i resps ids) (st, w) =
    (if \<not> buffer_alive meta st then (Undefined, st, w)
     else case ids of
       [] \<Rightarrow> (Get_Return (read_failed (chunk_id (chunks meta ! i)) ''Failed to read chunk from any replica node'') resps,
              st, w)
     | node_id # ids' \<Rightarrow>
         (case map_of (registered_nodes st) node_id of
            None \<Rightarrow> (Get_Find meta i resps ids', st, w)
          | Some info \<Rightarrow> (Get_Client meta i resps node_id ids', st, w)))"
| "get_step rt j name wr (Get_Client meta i resps node_id ids) (st, w) =
    (case map_of (registered_nodes st) node_id of
       None \<Rightarrow> (Undefined, st, w)
     | Some info \<Rightarrow> (Get_Call meta i resps info ids, st, w))"
| "get_step rt j name wr (Get_Call meta i resps info ids) (st, w) =
    (if \<not> buffer_alive meta st then (Undefined, st, w)
     else
       (let node_client = client_factory rt (info_address info) (info_port info);
            ((client_status, temp_data), w') = GetChunk node_client (chunk_id (chunks meta ! i)) [] w
        in if \<not> status_ok client_status then (Get_Find meta i resps ids, st, w')
           else if \<not> wr i then (Get_Return (Status INTERNAL ''Failed to write response'') resps, st, w')
           else (Get_Loop meta (Suc i) (resps @ [\<lparr>gfs_data = temp_data\<rparr>]), st, w')))"
| "get_step rt j name wr h (st, w) = (h, st, w)"

text \<open>
  The steps of a deletion: the lookup, \<open>deletePath\<close>, which looks the name up again, the
  test of the worker's flag, and \<open>test_and_set\<close> with the start of the worker.
\<close>

fun delete_step ::
  "string \<Rightarrow> time_point \<Rightarrow> time_point \<Rightarrow> handler \<Rightarrow> CoordinatorServiceImpl \<times> 'w
    \<Rightarrow> handler \<times> CoordinatorServiceImpl \<times> 'w" where
  "delete_step name delete_time now Delete_Lookup (st, w) =
    (case getFile name (store st) of
       (None, ms) \<Rightarrow>
         (Delete_Return (Status NOT_FOUND ''File not found'') \<lparr>dfs_success = False\<rparr>, st\<lparr>store := ms\<rparr>, w)
     | (Some meta, ms) \<Rightarrow> (Delete_Move, st\<lparr>store := ms\<rparr>, w))"
| "delete_step name delete_time now Delete_Move (st, w) =
    (Delete_Test, st\<lparr>store := deletePath name delete_time now (store st)\<rparr>, w)"
| "delete_step name delete_time now Delete_Test (st, w) =
    (if \<not> running st then (Delete_Set, st, w)
     else (Delete_Return status_OK \<lparr>dfs_success = True\<rparr>, st, w))"
| "delete_step name delete_time now Delete_Set (st, w) =
    (Delete_Return status_OK \<lparr>dfs_success = True\<rparr>,
     if \<not> running st then st\<lparr>running := True, cleanup_thread := Some While_Test\<rparr> else st, w)"
| "delete_step name delete_time now h (st, w) = (h, st, w)"

text \<open>
  The steps of a registration: the loop that looks for a conflict, the atomic increment,
  the insertion. Those of an unregistration: the search and, with its iterator, the erasure.
\<close>

fun register_step ::
  "'w runtime \<Rightarrow> string \<Rightarrow> int32 \<Rightarrow> handler \<Rightarrow> CoordinatorServiceImpl \<times> 'w
    \<Rightarrow> handler \<times> CoordinatorServiceImpl \<times> 'w" where
  "register_step rt peer port Register_Check (st, w) =
    (case find (\<lambda>(existing_id, existing_info).
                  info_address existing_info = extractClientAddress peer \<and> info_port existing_info = port)
            (hash_order rt (registered_nodes st)) of
       Some (existing_id, existing_info) \<Rightarrow>
         (Register_Return status_OK (empty_RegisterDataNodeResponse
             \<lparr>rdr_success := False,
              rdr_error_message := ''Address:port '' @ extractClientAddress peer @ '':'' @ to_string (sint port)
                @ '' already registered with node ID '' @ to_string (sint existing_id)\<rparr>), st, w)
     | None \<Rightarrow> (Register_Draw, st, w))"
| "register_step rt peer port Register_Draw (st, w) =
    (Register_Insert (next_node_id st), st\<lparr>next_node_id := next_node_id st + 1\<rparr>, w)"
| "register_step rt peer port (Register_Insert assigned_id) (st, w) =
    (let info = \<lparr>info_node_id = assigned_id, info_address = extractClientAddress peer, info_port = port\<rparr>
     in (Register_Return status_OK (empty_RegisterDataNodeResponse\<lparr>rdr_success := True, rdr_node_id := assigned_id\<rparr>),
         st\<lparr>registered_nodes := AList.update assigned_id info (registered_nodes st)\<rparr>, w))"
| "register_step rt peer port h (st, w) = (h, st, w)"

fun unregister_step ::
  "int32 \<Rightarrow> handler \<Rightarrow> CoordinatorServiceImpl \<times> 'w \<Rightarrow> handler \<times> CoordinatorServiceImpl \<times> 'w" where
  "unregister_step node_id Unregister_Find (st, w) =
    (case map_of (registered_nodes st) node_id of
       None \<Rightarrow>
         (Unregister_Return (Status NOT_FOUND ''Node not found'') (empty_UnregisterDataNodeResponse
             \<lparr>udr_success := False,
              udr_error_message := ''Node ID '' @ to_string (sint node_id) @ '' not found in registry''\<rparr>), st, w)
     | Some info \<Rightarrow> (Unregister_Erase, st, w))"
| "unregister_step node_id Unregister_Erase (st, w) =
    (if map_of (registered_nodes st) node_id = None then (Undefined, st, w)
     else (Unregister_Return status_OK (empty_UnregisterDataNodeResponse\<lparr>udr_success := True\<rparr>),
           st\<lparr>registered_nodes := AList.delete node_id (registered_nodes st)\<rparr>, w))"
| "unregister_step node_id h (st, w) = (h, st, w)"

fun advance ::
  "'w runtime \<Rightarrow> nat \<Rightarrow> request \<Rightarrow> handler \<Rightarrow> CoordinatorServiceImpl \<times> 'w
    \<Rightarrow> handler \<times> CoordinatorServiceImpl \<times> 'w" where
  "advance rt j (Req_Put reqs) h s = put_step rt j reqs h s"
| "advance rt j (Req_Get name wr) h s = get_step rt j name wr h s"
| "advance rt j (Req_Delete name delete_time now) h s = delete_step name delete_time now h s"
| "advance rt j (Req_Register peer port) h s = register_step rt peer port h s"
| "advance rt j (Req_Unregister node_id) h s = unregister_step node_id h s"

lemma advance_finished: "finished h \<Longrightarrow> advance rt j r h s = (h, s)"
  by (cases s; cases r; cases h) simp_all

end
