(* ===== verification/Sweep.thy ===== *)
theory Sweep
  imports Handler_Threads
begin

text \<open>
  A round of the cleanup worker step by step. \<open>cleanupTombstones\<close> holds the mutex of the
  store from its beginning to its end, but the chunk deleter reads the registry, which has
  no lock, and calls data nodes, so everything that does not need the mutex goes on in
  between. Alone the steps are the \<open>cleanup_round\<close> of \<open>Coordinator\<close>.
\<close>

section \<open>The steps of a round\<close>

text \<open>
  The replicas of a file in the order of the two loops of the chunk deleter, by chunk
  identifier and node identifier.
\<close>

definition replicas :: "FileMeta \<Rightarrow> (string \<times> int32) list" where
  "replicas meta = concat (map (\<lambda>chunk. map (Pair (chunk_id chunk)) (node_ids chunk)) (chunks meta))"

text \<open>
  Where a round stands: no round, the iterator at a position of the deque, the deleter
  before the search for the next replica's node, with the iterator it has found, and with
  the client it has made. Every state keeps the reading of the clock and the position.
\<close>

datatype sweep =
    Sweep_Idle
  | Sweep_Scan time_point nat
  | Sweep_Find time_point nat "(string \<times> int32) list"
  | Sweep_Client time_point nat string int32 "(string \<times> int32) list"
  | Sweep_Call time_point nat string int32 DataNodeInfo "(string \<times> int32) list"
  | Sweep_Undefined

fun sweep_step ::
  "'w runtime \<Rightarrow> time_point \<Rightarrow> sweep \<times> CoordinatorServiceImpl \<times> 'w \<times> cleanup_log list
    \<Rightarrow> sweep \<times> CoordinatorServiceImpl \<times> 'w \<times> cleanup_log list" where
  "sweep_step rt clock (Sweep_Idle, st, w, log) =
    (if cleanup_thread st = Some Cleaning then (Sweep_Scan clock 0, st, w, log) else (Sweep_Idle, st, w, log))"
| "sweep_step rt clock (Sweep_Scan now pos, st, w, log) =
    (if length (deleted_entries (store st)) \<le> pos
     then (Sweep_Idle, st\<lparr>cleanup_thread := Some While_Test\<rparr>, w, log)
     else (let (path, meta, delete_time) = deleted_entries (store st) ! pos;
               age = now - delete_time
           in if age > TOMBSTONE_LIFETIME then (Sweep_Find now pos (replicas meta), st, w, log)
              else (Sweep_Scan now (Suc pos), st, w, log)))"
| "sweep_step rt clock (Sweep_Find now pos left, st, w, log) =
    (case left of
       [] \<Rightarrow>
         (Sweep_Scan now pos,
          st\<lparr>store := (store st)\<lparr>deleted_entries := take pos (deleted_entries (store st)) @ drop (Suc pos) (deleted_entries (store st)),
             tombstone_count := tombstone_count (store st) - 1\<rparr>\<rparr>, w, log)
     | (cid, node_id) # left' \<Rightarrow>
         (case map_of (registered_nodes st) node_id of
            None \<Rightarrow> (Sweep_Find now pos left', st, w, log @ [Unknown_Node node_id])
          | Some info \<Rightarrow> (Sweep_Client now pos cid node_id left', st, w, log)))"
| "sweep_step rt clock (Sweep_Client now pos cid node_id left, st, w, log) =
    (case map_of (registered_nodes st) node_id of
       None \<Rightarrow> (Sweep_Undefined, st, w, log)
     | Some info \<Rightarrow> (Sweep_Call now pos cid node_id info left, st, w, log))"
| "sweep_step rt clock (Sweep_Call now pos cid node_id info left, st, w, log) =
    (let node_client = client_factory rt (info_address info) (info_port info);
         del_resp = empty_DeleteChunkResponse;
         (delete_status, w') = DeleteChunk node_client cid w;
         entry = (if \<not> status_ok delete_status
                  then Rpc_Error cid node_id (error_message delete_status)
                  else if \<not> dcs_success del_resp
                  then Delete_Failed cid node_id (dcs_error_message del_resp)
                  else Deleted cid node_id)
     in (Sweep_Find now pos left, st, w', log @ [entry]))"
| "sweep_step rt clock (Sweep_Undefined, st, w, log) = (Sweep_Undefined, st, w, log)"

section \<open>A round alone\<close>

definition sweeps ::
  "'w runtime \<Rightarrow> time_point \<Rightarrow> sweep \<times> CoordinatorServiceImpl \<times> 'w \<times> cleanup_log list
    \<Rightarrow> sweep \<times> CoordinatorServiceImpl \<times> 'w \<times> cleanup_log list \<Rightarrow> bool" where
  "sweeps rt clock c c' \<longleftrightarrow> (\<exists>m. (sweep_step rt clock ^^ m) c = c')"

lemma sweeps_refl: "sweeps rt clock c c"
  unfolding sweeps_def by (intro exI [of _ 0]) simp

lemma sweeps_trans: "sweeps rt clock c c' \<Longrightarrow> sweeps rt clock c' c'' \<Longrightarrow> sweeps rt clock c c''"
  unfolding sweeps_def by (metis comp_apply funpow_add)

lemma sweeps_step: "sweep_step rt clock c = c1 \<Longrightarrow> sweeps rt clock c1 c' \<Longrightarrow> sweeps rt clock c c'"
  unfolding sweeps_def by (metis comp_apply funpow_Suc_right)

lemma sweep_nodes:
  "sweeps rt clock (Sweep_Find now pos (map (Pair cid) ids @ rest), st, w, log)
     (Sweep_Find now pos rest, st, cleanup_nodes rt (registered_nodes st) cid ids (w, log))"
proof (induction ids arbitrary: w log)
  case (Cons i ids)
  show ?case
  proof (cases "map_of (registered_nodes st) i")
    case None
    then have "sweep_step rt clock (Sweep_Find now pos (map (Pair cid) (i # ids) @ rest), st, w, log)
        = (Sweep_Find now pos (map (Pair cid) ids @ rest), st, w, log @ [Unknown_Node i])" by simp
    from sweeps_step [OF this Cons.IH] show ?thesis using None by simp
  next
    case (Some info)
    let ?go = "sweep_step rt clock"
    obtain entry w' where call: "?go (Sweep_Call now pos cid i info (map (Pair cid) ids @ rest), st, w, log)
        = (Sweep_Find now pos (map (Pair cid) ids @ rest), st, w', log @ [entry])"
      "cleanup_nodes rt (registered_nodes st) cid (i # ids) (w, log)
        = cleanup_nodes rt (registered_nodes st) cid ids (w', log @ [entry])"
      using Some by (simp add: Let_def split_beta)
    have "?go (Sweep_Find now pos (map (Pair cid) (i # ids) @ rest), st, w, log)
        = (Sweep_Client now pos cid i (map (Pair cid) ids @ rest), st, w, log)"
      "?go (Sweep_Client now pos cid i (map (Pair cid) ids @ rest), st, w, log)
        = (Sweep_Call now pos cid i info (map (Pair cid) ids @ rest), st, w, log)"
      using Some by simp_all
    from sweeps_step [OF this(1) sweeps_step [OF this(2) sweeps_step [OF call(1) Cons.IH]]]
    show ?thesis unfolding call(2) .
  qed
qed (simp add: sweeps_refl)

lemma sweep_chunks:
  "sweeps rt clock
     (Sweep_Find now pos (concat (map (\<lambda>chunk. map (Pair (chunk_id chunk)) (node_ids chunk)) cs)), st, s)
     (Sweep_Find now pos [], st, cleanup_chunks rt (registered_nodes st) cs s)"
proof (induction cs arbitrary: s)
  case (Cons c cs)
  obtain w log where s: "s = (w, log)" by (cases s)
  show ?case
    using sweeps_trans [OF sweep_nodes Cons.IH] by (simp add: s)
qed (simp add: sweeps_refl)

lemma sweep_scan:
  assumes "store st = ms\<lparr>deleted_entries := kept @ rest, tombstone_count := tc\<rparr>"
    and "cleanup_scan now (Some (\<lambda>meta. cleanup_chunks rt (registered_nodes st) (chunks meta))) rest tc s = (kept', tc', s')"
  shows "sweeps rt clock (Sweep_Scan now (length kept), st, s)
     (Sweep_Idle, st\<lparr>store := ms\<lparr>deleted_entries := kept @ kept', tombstone_count := tc'\<rparr>,
        cleanup_thread := Some While_Test\<rparr>, s')"
  using assms
proof (induction rest arbitrary: kept tc s st kept')
  case Nil
  obtain w log where s: "s = (w, log)" by (cases s)
  have e: "kept' = []" "tc' = tc" "s' = s" using Nil(2) by simp_all
  have "sweep_step rt clock (Sweep_Scan now (length kept), st, s) = (Sweep_Idle, st\<lparr>store := store st, cleanup_thread := Some While_Test\<rparr>, s)"
    using Nil(1) by (simp add: s)
  from sweeps_step [OF this sweeps_refl] show ?case unfolding e Nil(1) .
next
  case (Cons t rest)
  obtain w log where s: "s = (w, log)" by (cases s)
  obtain path meta delete_time where t: "t = (path, meta, delete_time)" by (cases t)
  let ?reg = "registered_nodes st"
  show ?case
  proof (cases "now - delete_time > TOMBSTONE_LIFETIME")
    case False
    obtain k where k: "kept' = t # k" and run: "cleanup_scan now (Some (\<lambda>meta. cleanup_chunks rt ?reg (chunks meta))) rest tc s = (k, tc', s')"
      using Cons.prems(2) False by (auto simp: t split: prod.splits)
    have "store st = ms\<lparr>deleted_entries := (kept @ [t]) @ rest, tombstone_count := tc\<rparr>" using Cons.prems(1) by simp
    note later = Cons.IH [OF this run]
    have "sweep_step rt clock (Sweep_Scan now (length kept), st, s) = (Sweep_Scan now (length (kept @ [t])), st, s)"
      using Cons.prems(1) False by (simp add: s t)
    from sweeps_step [OF this later] show ?thesis by (simp add: k)
  next
    case True
    let ?st = "st\<lparr>store := ms\<lparr>deleted_entries := kept @ rest, tombstone_count := tc - 1\<rparr>\<rparr>"
    let ?s = "cleanup_chunks rt ?reg (chunks meta) s"
    have run: "cleanup_scan now (Some (\<lambda>meta. cleanup_chunks rt ?reg (chunks meta))) rest (tc - 1) ?s = (kept', tc', s')"
      using Cons.prems(2) True by (simp add: t)
    have last: "sweeps rt clock (Sweep_Scan now (length kept), ?st, ?s)
        (Sweep_Idle, ?st\<lparr>store := ms\<lparr>deleted_entries := kept @ kept', tombstone_count := tc'\<rparr>,
          cleanup_thread := Some While_Test\<rparr>, s')"
      by (rule Cons.IH) (use run in simp_all)
    have "sweep_step rt clock (Sweep_Find now (length kept) [], st, ?s) = (Sweep_Scan now (length kept), ?st, ?s)"
      using Cons.prems(1) by (cases ?s) simp
    note last = sweeps_step [OF this last]
    have "sweep_step rt clock (Sweep_Scan now (length kept), st, s) = (Sweep_Find now (length kept) (replicas meta), st, s)"
      using Cons.prems(1) True by (simp add: s t)
    from sweeps_step [OF this [unfolded replicas_def] sweeps_trans [OF sweep_chunks last]] show ?thesis by simp
  qed
qed

text \<open>A round in which nothing else moves is the step \<open>Cleaning\<close> of the worker.\<close>

lemma sweep_alone:
  assumes "cleanup_thread st = Some Cleaning"
  shows "sweeps rt now (Sweep_Idle, st, s) (Sweep_Idle, cleanupWorker_step rt now (st, s))"
proof -
  obtain w log where s: "s = (w, log)" by (cases s)
  obtain kept tc s' where run: "cleanup_scan now (Some (\<lambda>meta. cleanup_chunks rt (registered_nodes st) (chunks meta)))
      (deleted_entries (store st)) (tombstone_count (store st)) s = (kept, tc, s')" by (metis prod.exhaust)
  have "store st = (store st)\<lparr>deleted_entries := [] @ deleted_entries (store st), tombstone_count := tombstone_count (store st)\<rparr>"
    by simp
  note round = sweep_scan [OF this run, of now]
  have "sweep_step rt now (Sweep_Idle, st, s) = (Sweep_Scan now (length ([] :: tombstone list)), st, s)"
    using assms by (simp add: s)
  from sweeps_step [OF this round] show ?thesis
    using run assms by (simp add: s cleanup_round_def cleanupTombstones_def)
qed

section \<open>Who waits for a round\<close>

text \<open>
  The steps that take the mutex of the store, shared or exclusive. An upload without a
  message never looks a name up.
\<close>

fun needs_mutex :: "request \<Rightarrow> handler \<Rightarrow> bool" where
  "needs_mutex (Req_Put reqs) Put_Check \<longleftrightarrow> reqs \<noteq> []"
| "needs_mutex (Req_Put reqs) (Put_Loop name d i cs) \<longleftrightarrow> upload_chunks d \<le> i"
| "needs_mutex (Req_Get name wr) Get_Lookup \<longleftrightarrow> True"
| "needs_mutex (Req_Delete name delete_time now) Delete_Lookup \<longleftrightarrow> True"
| "needs_mutex (Req_Delete name delete_time now) Delete_Move \<longleftrightarrow> True"
| "needs_mutex r h \<longleftrightarrow> False"

text \<open>Without the mutex a step leaves the store as it is.\<close>

lemma without_mutex:
  assumes "\<not> needs_mutex r h"
  shows "store (fst (snd (advance rt j r h s))) = store (fst s)"
  using assms
  by (cases r; cases h; cases s)
    (auto simp: Let_def not_le put_receive_eq simp del: put_receive.simps split: prod.splits list.splits option.splits)

end
