(* ===== verification/Interleaving.thy ===== *)
theory Interleaving
  imports Sweep
begin

text \<open>
  Any number of handlers at once: threads that take their steps in any order, and between
  them the steps of the cleanup worker. A request arrives, then its thread moves, whatever
  it is: an upload, a download, a deletion, a registration or an unregistration. What the
  identifiers of chunks and nodes have in common that are in use in different places at
  the same time is that they are different.
\<close>

section \<open>The interleaved system\<close>

record 'w system =
  threads :: "(request \<times> handler) list"
  coordinator :: CoordinatorServiceImpl
  nodes :: 'w
  cleanup_output :: "cleanup_log list"
  sweeper :: sweep

text \<open>
  One move: a request arrives; a thread takes a step, where \<open>j\<close> is the task that moves when
  it waits for several; the worker takes a step outside its cleanup, or one of a round. A
  round holds the store's mutex, so the steps that need it wait.
\<close>

inductive move :: "'w runtime \<Rightarrow> 'w system \<Rightarrow> 'w system \<Rightarrow> bool" for rt where
  arrive: "move rt s (s\<lparr>threads := threads s @ [(r, entry_point r)]\<rparr>)"
| thread: "i < length (threads s) \<Longrightarrow> threads s ! i = (r, h) \<Longrightarrow>
    sweeper s = Sweep_Idle \<or> \<not> needs_mutex r h \<Longrightarrow>
    advance rt j r h (coordinator s, nodes s) = (h', st', w') \<Longrightarrow>
    move rt s (s\<lparr>threads := (threads s)[i := (r, h')], coordinator := st', nodes := w'\<rparr>)"
| worker: "cleanup_thread (coordinator s) \<noteq> Some Cleaning \<Longrightarrow>
    cleanupWorker_step rt now (coordinator s, nodes s, cleanup_output s) = (st', w', log') \<Longrightarrow>
    move rt s (s\<lparr>coordinator := st', nodes := w', cleanup_output := log'\<rparr>)"
| sweep: "sweep_step rt now (sweeper s, coordinator s, nodes s, cleanup_output s) = (sw', st', w', log') \<Longrightarrow>
    move rt s (s\<lparr>sweeper := sw', coordinator := st', nodes := w', cleanup_output := log'\<rparr>)"

definition start_system :: "'w \<Rightarrow> 'w system" where
  "start_system w =
    \<lparr>threads = [], coordinator = new_CoordinatorServiceImpl, nodes = w, cleanup_output = [],
      sweeper = Sweep_Idle\<rparr>"

text \<open>The uploads that have answered OK, by name and data.\<close>

definition uploads :: "'w system \<Rightarrow> (string \<times> bytes) set" where
  "uploads s = {(upload_name reqs, upload_data reqs) | reqs resp.
     (Req_Put reqs, Put_Return status_OK resp) \<in> set (threads s)}"

text \<open>The node identifiers that a registration has answered with success.\<close>

definition enrolled :: "'w system \<Rightarrow> int32 set" where
  "enrolled s = {rdr_node_id resp | peer port resp.
     (Req_Register peer port, Register_Return status_OK resp) \<in> set (threads s) \<and> rdr_success resp}"

lemma enrolled_iff:
  "i \<in> enrolled s \<longleftrightarrow> (\<exists>peer port resp. (Req_Register peer port, Register_Return status_OK resp) \<in> set (threads s) \<and>
     rdr_success resp \<and> rdr_node_id resp = i)"
  unfolding enrolled_def by blast

lemma enrolled_mono: "set (threads s) \<subseteq> set (threads s') \<Longrightarrow> enrolled s \<subseteq> enrolled s'"
  unfolding enrolled_def by blast

section \<open>Whose identifiers\<close>

text \<open>The chunks of an upload in progress, and those a download reads.\<close>

fun busy :: "handler \<Rightarrow> string list" where
  "busy (Put_Loop name d i cs) = map chunk_id cs"
| "busy (Put_Place name d i cs cid) = map chunk_id cs @ [cid]"
| "busy (Put_Pick name d i cs cid ids) = map chunk_id cs @ [cid]"
| "busy (Put_Send name d i cs c) = map chunk_id cs @ [chunk_id c]"
| "busy (Put_Wait name d i cs c tasks) = map chunk_id cs @ [chunk_id c]"
| "busy _ = []"

fun known :: "handler \<Rightarrow> ChunkInfo list" where
  "known (Get_Deref meta) = chunks meta"
| "known (Get_Loop meta i resps) = chunks meta"
| "known (Get_Find meta i resps ids) = chunks meta"
| "known (Get_Client meta i resps node_id ids) = chunks meta"
| "known (Get_Call meta i resps info ids) = chunks meta"
| "known _ = []"

abbreviation ids_of :: "ChunkInfo list \<Rightarrow> string set" where
  "ids_of cs \<equiv> chunk_id ` set cs"

text \<open>
  \<open>n\<close> identifiers have been drawn. No chunk of an upload in progress is a chunk of
  another one, of a stored file or of a file that is being read.
\<close>

definition ids_apart :: "nat \<Rightarrow> (request \<times> handler) list \<Rightarrow> MetadataStore \<Rightarrow> bool" where
  "ids_apart n T ms \<longleftrightarrow>
     distinct (map chunk_id (all_chunks ms)) \<and> ids_of (all_chunks ms) \<subseteq> chunk_name ` {..<n} \<and>
     (\<forall>i < length T.
        distinct (busy (snd (T ! i))) \<and> set (busy (snd (T ! i))) \<inter> ids_of (all_chunks ms) = {} \<and>
        set (busy (snd (T ! i))) \<union> ids_of (known (snd (T ! i))) \<subseteq> chunk_name ` {..<n} \<and>
        (\<forall>j < length T. set (busy (snd (T ! i))) \<inter> ids_of (known (snd (T ! j))) = {} \<and>
           (i \<noteq> j \<longrightarrow> set (busy (snd (T ! i))) \<inter> set (busy (snd (T ! j))) = {})))"

lemma ids_apartD:
  assumes "ids_apart n T ms" "i < length T" "T ! i = (r, h)"
  shows "distinct (busy h)" "set (busy h) \<inter> ids_of (all_chunks ms) = {}"
    "set (busy h) \<subseteq> chunk_name ` {..<n}" "ids_of (known h) \<subseteq> chunk_name ` {..<n}"
    "j < length T \<Longrightarrow> T ! j = (r', h') \<Longrightarrow> set (busy h) \<inter> ids_of (known h') = {}"
    "j < length T \<Longrightarrow> T ! j = (r', h') \<Longrightarrow> j \<noteq> i \<Longrightarrow> set (busy h) \<inter> set (busy h') = {}"
proof -
  have A: "distinct (busy h) \<and> set (busy h) \<inter> ids_of (all_chunks ms) = {} \<and>
      set (busy h) \<union> ids_of (known h) \<subseteq> chunk_name ` {..<n} \<and>
      (\<forall>j < length T. set (busy h) \<inter> ids_of (known (snd (T ! j))) = {} \<and>
         (i \<noteq> j \<longrightarrow> set (busy h) \<inter> set (busy (snd (T ! j))) = {}))"
    using assms unfolding ids_apart_def by (metis snd_conv)
  then show "distinct (busy h)" "set (busy h) \<inter> ids_of (all_chunks ms) = {}"
    "set (busy h) \<subseteq> chunk_name ` {..<n}" "ids_of (known h) \<subseteq> chunk_name ` {..<n}"
    by blast+
  show "set (busy h) \<inter> ids_of (known h') = {}" if "j < length T" "T ! j = (r', h')"
    using A that by (metis snd_conv)
  show "set (busy h) \<inter> set (busy h') = {}" if "j < length T" "T ! j = (r', h')" "j \<noteq> i"
    using A that by (metis snd_conv)
qed

lemma apart_grow:
  "A \<subseteq> B \<union> C \<Longrightarrow> B \<inter> D = {} \<Longrightarrow> D \<subseteq> E \<Longrightarrow> E \<inter> C = {} \<Longrightarrow> A \<inter> D = {}"
  by blast

lemma sub_grow: "A \<subseteq> B \<union> C \<Longrightarrow> B \<subseteq> D \<Longrightarrow> C \<subseteq> E \<Longrightarrow> D \<union> E = F \<Longrightarrow> A \<subseteq> F"
  by blast

text \<open>The thread that moved against the others.\<close>

lemma ids_apart_others:
  assumes A: "ids_apart n T ms" and i: "i < length T" "T ! i = (r, h)" and n: "n \<le> n'"
    and b: "set (busy h') \<subseteq> set (busy h) \<union> chunk_name ` {n..<n'}" "distinct (busy h')"
    and s: "ids_of (all_chunks ms') \<subseteq> ids_of (all_chunks ms) \<union> set (busy h)"
      "distinct (map chunk_id (all_chunks ms'))"
    and k: "ids_of (known h') \<subseteq> ids_of (known h) \<union> ids_of (all_chunks ms)"
    and d: "set (busy h') \<inter> ids_of (all_chunks ms') = {}" "set (busy h') \<inter> ids_of (known h') = {}"
    and j: "j < length T" "T ! j = (r2, h2)"
  shows "set (busy h') \<inter> ids_of (known h2) = {}"
    and "j \<noteq> i \<Longrightarrow> set (busy h') \<inter> set (busy h2) = {}"
    and "set (busy h2) \<inter> ids_of (known h') = {}"
    and "j \<noteq> i \<Longrightarrow> set (busy h2) \<inter> ids_of (all_chunks ms') = {}"
proof -
  have old: "chunk_name ` {..<n} \<inter> chunk_name ` {n..<n'} = {}" by auto
  note h = ids_apartD [OF A i]
  note o = ids_apartD [OF A j]
  show "set (busy h') \<inter> ids_of (known h2) = {}" by (rule apart_grow [OF b(1) h(5) [OF j] o(4) old])
  show "set (busy h') \<inter> set (busy h2) = {}" if "j \<noteq> i"
    by (rule apart_grow [OF b(1) h(6) [OF j that] o(3) old])
  show "set (busy h2) \<inter> ids_of (known h') = {}"
    using apart_grow [OF k _ subset_refl] o(2) o(5) [OF i] by (simp add: Int_commute)
  show "set (busy h2) \<inter> ids_of (all_chunks ms') = {}" if "j \<noteq> i"
    using apart_grow [OF s(1) _ subset_refl] o(2) h(6) [OF j that] by (simp add: Int_commute)
qed

lemma ids_apart_step:
  assumes A: "ids_apart n T ms" and i: "i < length T" "T ! i = (r, h)" and n: "n \<le> n'"
    and b: "set (busy h') \<subseteq> set (busy h) \<union> chunk_name ` {n..<n'}" "distinct (busy h')"
    and s: "ids_of (all_chunks ms') \<subseteq> ids_of (all_chunks ms) \<union> set (busy h)"
      "distinct (map chunk_id (all_chunks ms'))"
    and k: "ids_of (known h') \<subseteq> ids_of (known h) \<union> ids_of (all_chunks ms)"
    and d: "set (busy h') \<inter> ids_of (all_chunks ms') = {}" "set (busy h') \<inter> ids_of (known h') = {}"
  shows "ids_apart n' (T[i := (r, h')]) ms'"
proof -
  let ?f = "chunk_name ` {n..<n'}"
  have upto: "chunk_name ` {..<n} \<union> ?f = chunk_name ` {..<n'}"
    by (simp only: image_Un [symmetric] ivl_disj_un_one(2) [OF n])
  have up: "chunk_name ` {..<n} \<subseteq> chunk_name ` {..<n'}" unfolding upto [symmetric] by (rule Un_upper1)
  note h = ids_apartD [OF A i]
  have all: "ids_of (all_chunks ms) \<subseteq> chunk_name ` {..<n}" using A by (simp add: ids_apart_def)
  note new = ids_apart_others [OF A i n b s k d]
  have sub: "set (busy h') \<subseteq> chunk_name ` {..<n'}" "ids_of (known h') \<subseteq> chunk_name ` {..<n'}"
      "ids_of (all_chunks ms') \<subseteq> chunk_name ` {..<n'}"
    by (rule sub_grow [OF b(1) h(3) subset_refl upto], rule order_trans [OF sub_grow [OF k h(4) all Un_absorb] up],
        rule order_trans [OF sub_grow [OF s(1) all h(3) Un_absorb] up])
  let ?T = "T[i := (r, h')]"
  have one: "distinct (busy h2) \<and> set (busy h2) \<inter> ids_of (all_chunks ms') = {} \<and>
      set (busy h2) \<union> ids_of (known h2) \<subseteq> chunk_name ` {..<n'}"
    if j: "j < length T" "?T ! j = (r2, h2)" for j r2 h2
  proof (cases "j = i")
    case True
    then show ?thesis using j i(1) b(2) d(1) sub(1,2) by simp
  next
    case False
    then have j': "T ! j = (r2, h2)" using j by simp
    note o = ids_apartD [OF A j(1) j']
    show ?thesis using o(1,3,4) new(4) [OF j(1) j' False] order_trans [OF _ up] by (simp only: Un_least simp_thms)
  qed
  have two: "set (busy h2) \<inter> ids_of (known h3) = {} \<and> (j \<noteq> l \<longrightarrow> set (busy h2) \<inter> set (busy h3) = {})"
    if j: "j < length T" "?T ! j = (r2, h2)" and l: "l < length T" "?T ! l = (r3, h3)" for j l r2 h2 r3 h3
  proof (cases "j = i")
    case True
    then have h2: "h2 = h'" using j i(1) by simp
    show ?thesis
    proof (cases "l = i")
      case True
      then show ?thesis using h2 l d(2) i(1) \<open>j = i\<close> by simp
    next
      case False
      then have "T ! l = (r3, h3)" using l by simp
      then show ?thesis using h2 new(1,2) [OF l(1)] False by blast
    qed
  next
    case False
    then have j': "T ! j = (r2, h2)" using j by simp
    show ?thesis
    proof (cases "l = i")
      case True
      then show ?thesis using new(2,3) [OF j(1) j'] False l i(1) by auto
    next
      case False
      then have "T ! l = (r3, h3)" using l by simp
      then show ?thesis using ids_apartD(5,6) [OF A j(1) j' l(1)] by blast
    qed
  qed
  have "ids_apart n' ?T ms' \<longleftrightarrow> (\<forall>j < length T.
        distinct (busy (snd (?T ! j))) \<and> set (busy (snd (?T ! j))) \<inter> ids_of (all_chunks ms') = {} \<and>
        set (busy (snd (?T ! j))) \<union> ids_of (known (snd (?T ! j))) \<subseteq> chunk_name ` {..<n'} \<and>
        (\<forall>l < length T. set (busy (snd (?T ! j))) \<inter> ids_of (known (snd (?T ! l))) = {} \<and>
           (j \<noteq> l \<longrightarrow> set (busy (snd (?T ! j))) \<inter> set (busy (snd (?T ! l))) = {})))"
    unfolding ids_apart_def length_list_update using s(2) sub(3) by (simp only: simp_thms)
  then show ?thesis
    using one [OF _ prod.collapse [symmetric]] two [OF _ prod.collapse [symmetric] _ prod.collapse [symmetric]]
    by iprover
qed

lemma ids_apart_arrive:
  assumes "ids_apart n T ms" "busy h = []" "known h = []"
  shows "ids_apart n (T @ [(r, h)]) ms"
proof -
  have nth: "snd ((T @ [(r, h)]) ! j) = (if j < length T then snd (T ! j) else h)" if "j < Suc (length T)" for j
    using that by (cases "j < length T") (simp_all add: nth_append)
  show ?thesis
    using assms unfolding ids_apart_def by (simp add: nth)
qed

lemma ids_apart_store:
  assumes "ids_apart n T ms" "mset (all_chunks ms') \<subseteq># mset (all_chunks ms)"
  shows "ids_apart n T ms'"
proof -
  have "distinct (map chunk_id (all_chunks ms'))"
    using assms by (auto simp: ids_apart_def intro: distinct_map_mset_subset)
  moreover have sub: "ids_of (all_chunks ms') \<subseteq> ids_of (all_chunks ms)"
    using set_mset_mono [OF assms(2)] by (simp add: image_mono)
  moreover have "ids_of (all_chunks ms') \<subseteq> chunk_name ` {..<n}"
    using assms(1) order_trans [OF sub] unfolding ids_apart_def by iprover
  moreover have "set (busy (snd (T ! i))) \<inter> ids_of (all_chunks ms') = {}" if "i < length T" for i
    using ids_apartD(2) [OF assms(1) that prod.collapse [symmetric]] sub by fast
  ultimately show ?thesis
    using assms(1) unfolding ids_apart_def by iprover
qed

lemma mset_concat_update:
  "mset (concat (map f (AList.update k v al))) \<subseteq># mset (concat (map f al)) + mset (f (k, v))"
  by (induction al) (auto simp: add.commute add.left_commute intro: subset_mset.add_mono)

lemma all_chunks_putFile_le:
  "mset (all_chunks (putFile p meta ms)) \<subseteq># mset (all_chunks ms) + mset (chunks meta)"
  using mset_concat_update [of "\<lambda>e. chunks (file_meta (snd e))" p "\<lparr>is_file = True, file_meta = meta\<rparr>" "entries ms"]
  by (simp add: all_chunks_def store_metas_def putFile_def comp_def ac_simps)

section \<open>Whose nodes\<close>

text \<open>The identifier a registration has drawn and not inserted yet.\<close>

fun drawn :: "handler \<Rightarrow> int32 set" where
  "drawn (Register_Insert assigned_id) = {assigned_id}"
| "drawn _ = {}"

text \<open>
  \<open>k\<close> identifiers of nodes have been drawn and those in \<open>A\<close> have been inserted: the others
  are with one thread each.
\<close>

definition nodes_apart :: "nat \<Rightarrow> int32 set \<Rightarrow> (request \<times> handler) list \<Rightarrow> bool" where
  "nodes_apart k A T \<longleftrightarrow> A \<subseteq> of_nat ` {1..k} \<and>
     (\<forall>i < length T. drawn (snd (T ! i)) \<subseteq> of_nat ` {1..k} \<and> drawn (snd (T ! i)) \<inter> A = {} \<and>
        (\<forall>j < length T. i \<noteq> j \<longrightarrow> drawn (snd (T ! i)) \<inter> drawn (snd (T ! j)) = {}))"

lemma nodes_apartD:
  assumes "nodes_apart k A T" "i < length T" "T ! i = (r, h)"
  shows "drawn h \<subseteq> of_nat ` {1..k}" "drawn h \<inter> A = {}"
    "j < length T \<Longrightarrow> T ! j = (r', h') \<Longrightarrow> i \<noteq> j \<Longrightarrow> drawn h \<inter> drawn h' = {}"
  using assms unfolding nodes_apart_def by (metis snd_conv)+

lemma nodes_apart_step:
  assumes N: "nodes_apart k A T" and i: "i < length T" "T ! i = (r, h)" and k: "k \<le> k'"
    and new: "drawn h' \<subseteq> drawn h \<union> F" "F \<inter> of_nat ` {1..k} = {}" "F \<subseteq> of_nat ` {1..k'}"
    and A': "A' \<subseteq> A \<union> drawn h" "drawn h' \<inter> A' = {}"
  shows "nodes_apart k' A' (T[i := (r, h')])"
proof -
  have A: "A \<subseteq> of_nat ` {1..k}" using N by (simp add: nodes_apart_def)
  have up: "of_nat ` {1..k} \<subseteq> (of_nat ` {1..k'} :: int32 set)" using k by auto
  note h = nodes_apartD [OF N i]
  have all: "A' \<subseteq> of_nat ` {1..k'}" "drawn h' \<subseteq> of_nat ` {1..k'}"
    using A h(1) A'(1) new(1,3) up by blast+
  have other: "drawn h2 \<subseteq> of_nat ` {1..k'}" "drawn h2 \<inter> A' = {}" "drawn h2 \<inter> drawn h' = {}"
    if j: "j < length T" "T ! j = (r2, h2)" "j \<noteq> i" for j r2 h2
  proof -
    note o = nodes_apartD [OF N j(1,2)]
    show "drawn h2 \<subseteq> of_nat ` {1..k'}" by (rule order_trans [OF o(1) up])
    show "drawn h2 \<inter> A' = {}" using o(2) o(3) [OF i j(3)] A'(1) by blast
    show "drawn h2 \<inter> drawn h' = {}" using o(1) o(3) [OF i j(3)] new(1,2) by blast
  qed
  show ?thesis
    unfolding nodes_apart_def length_list_update
  proof (intro conjI allI impI)
    fix j assume j: "j < length T"
    show "drawn (snd (T[i := (r, h')] ! j)) \<subseteq> of_nat ` {1..k'}"
      using all(2) other(1) [OF j prod.collapse [symmetric]] i(1) by (cases "j = i") simp_all
    show "drawn (snd (T[i := (r, h')] ! j)) \<inter> A' = {}"
      using A'(2) other(2) [OF j prod.collapse [symmetric]] i(1) by (cases "j = i") simp_all
    fix l assume l: "l < length T" "j \<noteq> l"
    show "drawn (snd (T[i := (r, h')] ! j)) \<inter> drawn (snd (T[i := (r, h')] ! l)) = {}"
    proof (cases "j = i \<or> l = i")
      case True
      then show ?thesis
        using other(3) [OF j prod.collapse [symmetric]] other(3) [OF l(1) prod.collapse [symmetric]] l(2) i(1)
        by (auto simp: Int_commute)
    next
      case False
      then show ?thesis
        using nodes_apartD(3) [OF N j prod.collapse [symmetric] l(1) prod.collapse [symmetric] l(2)] by simp
    qed
  qed (rule all(1))
qed

lemma nodes_apart_arrive:
  assumes "nodes_apart k A T" "drawn h = {}"
  shows "nodes_apart k A (T @ [(r, h)])"
proof -
  have nth: "snd ((T @ [(r, h)]) ! j) = (if j < length T then snd (T ! j) else h)" if "j < Suc (length T)" for j
    using that by (cases "j < length T") (simp_all add: nth_append)
  show ?thesis using assms unfolding nodes_apart_def by (simp add: nth)
qed

end
