(* ===== verification/Thread_Invariant.thy ===== *)
theory Thread_Invariant
  imports Interleaving
begin

text \<open>
  What every thread relies on, over any data nodes that meet the contract \<open>dfs_nodes\<close>:
  the chunks it names are intact, the file a download reads is one that was uploaded as a
  whole, the status of a finished task says what its node holds. Each step of a thread
  establishes this for the thread itself and keeps it for all others.
\<close>

section \<open>What the threads know\<close>

text \<open>A well-formed descriptor: three replicas on nodes whose identifiers have been inserted.\<close>

definition descriptor_ok :: "int32 set \<Rightarrow> ChunkInfo \<Rightarrow> bool" where
  "descriptor_ok A c \<longleftrightarrow> replication_factor c = 3 \<and> length (node_ids c) = 3 \<and> set (node_ids c) \<subseteq> A"

lemma descriptor_ok_mono: "descriptor_ok A c \<Longrightarrow> A \<subseteq> A' \<Longrightarrow> descriptor_ok A' c"
  by (auto simp: descriptor_ok_def)

text \<open>A registry that has lost nodes, or gained nodes under new identifiers.\<close>

definition registry_grows :: "int32 set \<Rightarrow> node_registry \<Rightarrow> int32 set \<Rightarrow> node_registry \<Rightarrow> bool" where
  "registry_grows A reg A' reg' \<longleftrightarrow> A \<subseteq> A' \<and> (\<forall>i \<in> A. map_of reg' i = map_of reg i \<or> map_of reg' i = None)"

lemma registry_grows_refl [simp]: "registry_grows A reg A reg"
  by (simp add: registry_grows_def)

lemma registry_growsD:
  "registry_grows A reg A' reg' \<Longrightarrow> i \<in> A \<Longrightarrow> map_of reg' i = Some info \<Longrightarrow> map_of reg i = Some info"
  unfolding registry_grows_def by force

text \<open>What an upload has said and what it sends next.\<close>

definition uploading :: "PutFileRequest list \<Rightarrow> string \<Rightarrow> bytes \<Rightarrow> nat \<Rightarrow> bool" where
  "uploading reqs name d i \<longleftrightarrow> name = upload_name reqs \<and> d = upload_data reqs \<and> i < upload_chunks d"

text \<open>The replicas of chunk \<open>i\<close> a download has left to try.\<close>

definition picking :: "FileMeta \<Rightarrow> nat \<Rightarrow> int32 list \<Rightarrow> bool" where
  "picking meta i ids \<longleftrightarrow> i < length (chunks meta) \<and> set ids \<subseteq> set (node_ids (chunks meta ! i))"

text \<open>The metadata of a whole file, where each chunk and its slice of the data are related by \<open>P\<close>.\<close>

definition describes ::
  "(ChunkInfo \<Rightarrow> bytes \<Rightarrow> bool) \<Rightarrow> FileMeta \<Rightarrow> bytes \<Rightarrow> bool" where
  "describes P meta d \<longleftrightarrow> fm_size meta = of_nat (length d) \<and> chunk_size meta = of_nat CHUNK_SIZE \<and>
     list_all2 P (chunks meta) (map (chunk_slice d) [0..<upload_chunks d])"

lemma describes_mono:
  "describes P meta d \<Longrightarrow> (\<And>c x. c \<in> set (chunks meta) \<Longrightarrow> P c x \<Longrightarrow> Q c x) \<Longrightarrow> describes Q meta d"
  unfolding describes_def using list.rel_mono_strong by blast

lemma describes_chunk:
  "describes P meta d \<Longrightarrow> i < length (chunks meta) \<Longrightarrow> P (chunks meta ! i) (chunk_slice d i)"
  by (auto simp: describes_def list_all2_conv_all_nth)

lemma describes_length: "describes P meta d \<Longrightarrow> length (chunks meta) = upload_chunks d"
  by (auto simp: describes_def dest: list_all2_lengthD)

context dfs_nodes
begin

text \<open>
  Every registered replica of the chunk has the data; or none has anything but the data,
  when some may have lost it to a cleanup.
\<close>

definition held :: "int32 set \<Rightarrow> node_registry \<Rightarrow> 'a \<Rightarrow> ChunkInfo \<Rightarrow> bytes \<Rightarrow> bool" where
  "held A reg w c d \<longleftrightarrow> valid (chunk_id c) \<and> descriptor_ok A c \<and>
     (\<forall>i \<in> set (node_ids c). \<forall>info. map_of reg i = Some info \<longrightarrow>
        stored w (info_endpoint info) (chunk_id c) = Some d)"

definition intact :: "int32 set \<Rightarrow> node_registry \<Rightarrow> 'a \<Rightarrow> ChunkInfo \<Rightarrow> bytes \<Rightarrow> bool" where
  "intact A reg w c d \<longleftrightarrow> valid (chunk_id c) \<and> descriptor_ok A c \<and>
     (\<forall>i \<in> set (node_ids c). \<forall>info. map_of reg i = Some info \<longrightarrow>
        stored w (info_endpoint info) (chunk_id c) \<in> {None, Some d})"

lemma held_intact: "held A reg w c d \<Longrightarrow> intact A reg w c d"
  by (auto simp: held_def intact_def)

text \<open>The chunks of the data up to an index.\<close>

definition sent :: "int32 set \<Rightarrow> node_registry \<Rightarrow> 'a \<Rightarrow> ChunkInfo list \<Rightarrow> bytes \<Rightarrow> nat \<Rightarrow> bool" where
  "sent A reg w cs d i \<longleftrightarrow> list_all2 (held A reg w) cs (map (chunk_slice d) [0..<i])"

lemma describes_held: "describes (held A reg w) meta d \<Longrightarrow> describes (intact A reg w) meta d"
  using describes_mono [of "held A reg w" meta d "intact A reg w"] held_intact by blast

text \<open>
  The world and the registry go on, and of the chunks that are not in \<open>B\<close> those in \<open>D\<close>
  may be removed.
\<close>

definition goes_on ::
  "string set \<Rightarrow> string set \<Rightarrow> int32 set \<Rightarrow> node_registry \<Rightarrow> 'a \<Rightarrow> int32 set \<Rightarrow> node_registry \<Rightarrow> 'a \<Rightarrow> bool" where
  "goes_on B D A reg w A' reg' w' \<longleftrightarrow> registry_grows A reg A' reg' \<and>
     changes (\<lambda>c v. c \<in> B \<or> c \<in> D \<and> v = None) w w'"

lemma goes_on_refl: "sound w \<Longrightarrow> goes_on B D A reg w A reg w"
  by (simp add: goes_on_def)

lemma goes_on_changes:
  "changes X w w' \<Longrightarrow> (\<And>c v. X c v \<Longrightarrow> c \<in> B \<or> c \<in> D \<and> v = None) \<Longrightarrow> goes_on B D A reg w A reg w'"
  unfolding goes_on_def using changes_mono [of X w w'] registry_grows_refl by presburger

lemma stored_goes_on:
  assumes "goes_on B D A reg w A' reg' w'" "valid cid" "cid \<notin> B"
  shows "stored w e cid \<in> {None, Some d} \<Longrightarrow> stored w' e cid \<in> {None, Some d}"
    and "cid \<notin> D \<Longrightarrow> stored w' e cid = stored w e cid"
proof -
  have c: "stored w' e cid = stored w e cid \<or> cid \<in> D \<and> stored w' e cid = None"
    using assms unfolding goes_on_def changes_def by metis
  show "stored w e cid \<in> {None, Some d} \<Longrightarrow> stored w' e cid \<in> {None, Some d}" using c by auto
  show "cid \<notin> D \<Longrightarrow> stored w' e cid = stored w e cid" using c by blast
qed

lemma intact_goes_on:
  assumes "intact A reg w c d" "goes_on B D A reg w A' reg' w'" "chunk_id c \<notin> B"
  shows "intact A' reg' w' c d"
proof -
  have c: "valid (chunk_id c)" "descriptor_ok A c" using assms(1) by (simp_all add: intact_def)
  have r: "registry_grows A reg A' reg'" using assms(2) by (simp add: goes_on_def)
  have "stored w' (info_endpoint info) (chunk_id c) \<in> {None, Some d}"
    if i: "i \<in> set (node_ids c)" "map_of reg' i = Some info" for i info
  proof (rule stored_goes_on(1) [OF assms(2) c(1) assms(3)])
    have "i \<in> A" using c(2) i(1) by (auto simp: descriptor_ok_def)
    from registry_growsD [OF r this i(2)] show "stored w (info_endpoint info) (chunk_id c) \<in> {None, Some d}"
      using assms(1) i(1) unfolding intact_def by blast
  qed
  then show ?thesis
    using c descriptor_ok_mono r unfolding intact_def registry_grows_def by blast
qed

lemma held_goes_on:
  assumes "held A reg w c d" "goes_on B D A reg w A' reg' w'" "chunk_id c \<notin> B" "chunk_id c \<notin> D"
  shows "held A' reg' w' c d"
proof -
  have c: "valid (chunk_id c)" "descriptor_ok A c" using assms(1) by (simp_all add: held_def)
  have r: "registry_grows A reg A' reg'" using assms(2) by (simp add: goes_on_def)
  have "stored w' (info_endpoint info) (chunk_id c) = Some d"
    if i: "i \<in> set (node_ids c)" "map_of reg' i = Some info" for i info
  proof -
    have "i \<in> A" using c(2) i(1) by (auto simp: descriptor_ok_def)
    from registry_growsD [OF r this i(2)] have "stored w (info_endpoint info) (chunk_id c) = Some d"
      using assms(1) i(1) unfolding held_def by blast
    then show ?thesis using stored_goes_on(2) [OF assms(2) c(1) assms(3,4)] by simp
  qed
  then show ?thesis
    using c descriptor_ok_mono r unfolding held_def registry_grows_def by blast
qed

lemma sent_goes_on:
  assumes "sent A reg w cs d i" "goes_on B D A reg w A' reg' w'" "ids_of cs \<inter> (B \<union> D) = {}"
  shows "sent A' reg' w' cs d i"
proof -
  have "held A' reg' w' c x" if "c \<in> set cs" "held A reg w c x" for c x
    by (rule held_goes_on [OF that(2) assms(2)]) (use that(1) assms(3) in auto)
  then show ?thesis
    using assms(1) list.rel_mono_strong unfolding sent_def by blast
qed

lemma describes_intact_goes_on:
  assumes "describes (intact A reg w) meta d" "goes_on B D A reg w A' reg' w'" "ids_of (chunks meta) \<inter> B = {}"
  shows "describes (intact A' reg' w') meta d"
proof (rule describes_mono [OF assms(1)])
  fix c x assume "c \<in> set (chunks meta)" "intact A reg w c x"
  then show "intact A' reg' w' c x" using intact_goes_on [OF _ assms(2)] assms(3) by auto
qed

lemma describes_held_goes_on:
  assumes "describes (held A reg w) meta d" "goes_on B D A reg w A' reg' w'" "ids_of (chunks meta) \<inter> (B \<union> D) = {}"
  shows "describes (held A' reg' w') meta d"
proof (rule describes_mono [OF assms(1)])
  fix c x assume "c \<in> set (chunks meta)" "held A reg w c x"
  then show "held A' reg' w' c x" using held_goes_on [OF _ assms(2)] assms(3) by auto
qed

subsection \<open>The tasks of a distribution\<close>

text \<open>
  A task whose client is made has it for the entry of its node, and one that has ended
  with OK has left the data there, unless the node has gone.
\<close>

fun task_ok :: "node_registry \<Rightarrow> 'a \<Rightarrow> string \<Rightarrow> bytes \<Rightarrow> int32 \<Rightarrow> task \<Rightarrow> bool" where
  "task_ok reg w cid x node_id (Task_Call info) \<longleftrightarrow> map_of reg node_id \<in> {None, Some info}"
| "task_ok reg w cid x node_id (Task_Done status) \<longleftrightarrow> (status_ok status \<longrightarrow>
     (\<forall>info. map_of reg node_id = Some info \<longrightarrow> stored w (info_endpoint info) cid = Some x))"
| "task_ok reg w cid x node_id task \<longleftrightarrow> True"

definition tasks_ok :: "int32 set \<Rightarrow> node_registry \<Rightarrow> 'a \<Rightarrow> ChunkInfo \<Rightarrow> bytes \<Rightarrow> task list \<Rightarrow> bool" where
  "tasks_ok A reg w c x tasks \<longleftrightarrow> valid (chunk_id c) \<and> descriptor_ok A c \<and> length tasks = length (node_ids c) \<and>
     (\<forall>t < length tasks. task_ok reg w (chunk_id c) x (node_ids c ! t) (tasks ! t))"

lemma task_ok_goes_on:
  assumes "task_ok reg w cid x i task" "goes_on B D A reg w A' reg' w'" "valid cid" "cid \<notin> B" "cid \<notin> D" "i \<in> A"
  shows "task_ok reg' w' cid x i task"
proof (cases task)
  case (Task_Call info)
  then show ?thesis using assms(1,2,6) by (auto simp: goes_on_def registry_grows_def)
next
  case (Task_Done status)
  have "registry_grows A reg A' reg'" using assms(2) by (simp add: goes_on_def)
  then show ?thesis
    using Task_Done assms(1) registry_growsD [OF _ assms(6)] stored_goes_on(2) [OF assms(2-5)] by auto
qed simp_all

lemma tasks_ok_goes_on:
  assumes "tasks_ok A reg w c x tasks" "goes_on B D A reg w A' reg' w'" "chunk_id c \<notin> B" "chunk_id c \<notin> D"
  shows "tasks_ok A' reg' w' c x tasks"
proof -
  have v: "valid (chunk_id c)" "descriptor_ok A c" using assms(1) by (simp_all add: tasks_ok_def)
  have "node_ids c ! t \<in> A" if "t < length (node_ids c)" for t
    using v(2) that by (auto simp: descriptor_ok_def)
  moreover have "A \<subseteq> A'" using assms(2) by (simp add: goes_on_def registry_grows_def)
  ultimately show ?thesis
    using assms(1) task_ok_goes_on [OF _ assms(2) v(1) assms(3,4)] descriptor_ok_mono [OF v(2)]
    by (auto simp: tasks_ok_def)
qed

text \<open>The step of a task writes the chunk on one node at most.\<close>

lemma task_step_changes:
  assumes "client_factory rt = create" "sound w" "valid cid"
    and "task_step rt reg cid x i task w = Some (task', w')"
  shows "changes (only cid (Some x)) w w'"
proof (cases task)
  case (Task_Call info)
  then have "w' = snd (PutChunk (create (info_address info) (info_port info)) cid x w)"
    using assms(1,4) by (auto simp: Let_def split: prod.splits)
  then show ?thesis using put_changes [OF assms(2,3)] by simp
qed (use assms in \<open>auto split: option.splits\<close>)

lemma task_step_ok:
  assumes "client_factory rt = create" "sound w" "valid cid" "task_ok reg w cid x i task"
    and "task_step rt reg cid x i task w = Some (task', w')"
  shows "task_ok reg w' cid x i task'"
proof (cases task)
  case (Task_Call info)
  have "stored w' (info_endpoint info) cid = Some x" if "task' = Task_Done status" "status_ok status" for status
    using put_stored [OF assms(2,3), of "info_address info" "info_port info" x] assms(1,5) Task_Call that
    by (auto simp: Let_def info_endpoint_def split: prod.splits if_splits)
  moreover have "\<exists>status. task' = Task_Done status" using assms(5) Task_Call by (auto simp: Let_def split: prod.splits)
  ultimately show ?thesis using Task_Call assms(4) by auto
qed (use assms in \<open>auto split: option.splits\<close>)

lemma task_ok_written:
  assumes "task_ok reg w cid x i task" "changes (only cid (Some x)) w w'" "valid cid"
  shows "task_ok reg w' cid x i task"
proof (cases task)
  case (Task_Done status)
  have "stored w' e cid = stored w e cid \<or> stored w' e cid = Some x" for e
    using assms(2,3) unfolding changes_def only_def by metis
  then show ?thesis using assms(1) Task_Done by (metis task_ok.simps(2))
qed (use assms(1) in simp_all)

lemma tasks_ok_step:
  assumes "client_factory rt = create" "sound w" "tasks_ok A reg w c x tasks" "t < length tasks"
    and "task_step rt reg (chunk_id c) x (node_ids c ! t) (tasks ! t) w = Some (task', w')"
  shows "tasks_ok A reg w' c x (tasks[t := task'])"
proof -
  have v: "valid (chunk_id c)" and ok: "\<forall>t < length tasks. task_ok reg w (chunk_id c) x (node_ids c ! t) (tasks ! t)"
    using assms(3) by (simp_all add: tasks_ok_def)
  note ch = task_step_changes [OF assms(1,2) v assms(5)]
  have "task_ok reg w' (chunk_id c) x (node_ids c ! t) task'"
    using task_step_ok [OF assms(1,2) v _ assms(5)] ok assms(4) by blast
  moreover have "task_ok reg w' (chunk_id c) x (node_ids c ! u) (tasks ! u)" if "u < length tasks" for u
    using task_ok_written [OF _ ch v] ok that by blast
  ultimately show ?thesis
    using assms(3,4) unfolding tasks_ok_def by (simp add: nth_list_update)
qed

text \<open>A distribution that has ended with OK leaves the chunk on every registered replica.\<close>

lemma tasks_ok_held:
  assumes "tasks_ok A reg w c x tasks" "running_tasks tasks = []"
    and "status_ok (collect_statuses (node_ids c) (map task_status tasks))"
  shows "held A reg w c x"
proof -
  have fin: "task_done (tasks ! t)" if "t < length tasks" for t
    using assms(2) that by (auto simp: running_tasks_def filter_empty_conv)
  have len: "length tasks = length (node_ids c)" using assms(1) by (simp add: tasks_ok_def)
  have "stored w (info_endpoint info) (chunk_id c) = Some x"
    if i: "i \<in> set (node_ids c)" "map_of reg i = Some info" for i info
  proof -
    obtain t where t: "t < length tasks" "node_ids c ! t = i" using i(1) len by (metis in_set_conv_nth)
    from fin [OF t(1)] obtain status where s: "tasks ! t = Task_Done status" by (cases "tasks ! t") simp_all
    have "status_ok (task_status (tasks ! t))" using assms(3) t(1) by (simp add: collect_statuses_ok list_all_iff)
    moreover have "task_ok reg w (chunk_id c) x i (tasks ! t)" using assms(1) t by (auto simp: tasks_ok_def)
    ultimately show ?thesis using s i(2) by simp
  qed
  then show ?thesis using assms(1) by (simp add: tasks_ok_def held_def)
qed

subsection \<open>The threads\<close>

text \<open>A download that has got as far as chunk \<open>i\<close> of the file.\<close>

definition reading ::
  "int32 set \<Rightarrow> node_registry \<Rightarrow> 'a \<Rightarrow> (string \<times> bytes) set \<Rightarrow> string \<Rightarrow> FileMeta \<Rightarrow> nat \<Rightarrow> GetFileResponse list \<Rightarrow> bytes \<Rightarrow> bool" where
  "reading A reg w U name meta i resps d \<longleftrightarrow> (name, d) \<in> U \<and> describes (intact A reg w) meta d \<and>
     map gfs_data resps = map (chunk_slice d) [0..<i] \<and> i \<le> upload_chunks d"

text \<open>
  What a thread relies on; \<open>U\<close> are the uploads that have answered OK. A download that
  has answered OK has all of one of them.
\<close>

fun put_ok_at :: "int32 set \<Rightarrow> node_registry \<Rightarrow> 'a \<Rightarrow> PutFileRequest list \<Rightarrow> handler \<Rightarrow> bool" where
  "put_ok_at A reg w reqs Put_Check \<longleftrightarrow> True"
| "put_ok_at A reg w reqs (Put_Loop name d i cs) \<longleftrightarrow>
     name = upload_name reqs \<and> d = upload_data reqs \<and> i \<le> upload_chunks d \<and> sent A reg w cs d i"
| "put_ok_at A reg w reqs (Put_Place name d i cs cid) \<longleftrightarrow> uploading reqs name d i \<and> sent A reg w cs d i"
| "put_ok_at A reg w reqs (Put_Pick name d i cs cid ids) \<longleftrightarrow> uploading reqs name d i \<and> sent A reg w cs d i \<and>
     ids \<noteq> [] \<and> set ids \<subseteq> A"
| "put_ok_at A reg w reqs (Put_Send name d i cs c) \<longleftrightarrow> uploading reqs name d i \<and> sent A reg w cs d i \<and> descriptor_ok A c"
| "put_ok_at A reg w reqs (Put_Wait name d i cs c tasks) \<longleftrightarrow> uploading reqs name d i \<and> sent A reg w cs d i \<and>
     tasks_ok A reg w c (chunk_slice d i) tasks"
| "put_ok_at A reg w reqs (Put_Return status resp) \<longleftrightarrow> True"
| "put_ok_at A reg w reqs Undefined \<longleftrightarrow> True"
| "put_ok_at A reg w reqs _ \<longleftrightarrow> False"

fun get_ok_at :: "int32 set \<Rightarrow> node_registry \<Rightarrow> 'a \<Rightarrow> (string \<times> bytes) set \<Rightarrow> string \<Rightarrow> handler \<Rightarrow> bool" where
  "get_ok_at A reg w U name Get_Lookup \<longleftrightarrow> True"
| "get_ok_at A reg w U name (Get_Deref meta) \<longleftrightarrow> (\<exists>d. (name, d) \<in> U \<and> describes (intact A reg w) meta d)"
| "get_ok_at A reg w U name (Get_Loop meta i resps) \<longleftrightarrow> (\<exists>d. reading A reg w U name meta i resps d)"
| "get_ok_at A reg w U name (Get_Find meta i resps ids) \<longleftrightarrow> (\<exists>d. reading A reg w U name meta i resps d) \<and> picking meta i ids"
| "get_ok_at A reg w U name (Get_Client meta i resps node_id ids) \<longleftrightarrow>
     (\<exists>d. reading A reg w U name meta i resps d) \<and> picking meta i (node_id # ids)"
| "get_ok_at A reg w U name (Get_Call meta i resps info ids) \<longleftrightarrow> picking meta i ids \<and>
     (\<exists>d. reading A reg w U name meta i resps d \<and>
        stored w (info_endpoint info) (chunk_id (chunks meta ! i)) \<in> {None, Some (chunk_slice d i)})"
| "get_ok_at A reg w U name (Get_Return status resps) \<longleftrightarrow> (status_ok status \<longrightarrow>
     (\<exists>d. (name, d) \<in> U \<and> map gfs_data resps = map (chunk_slice d) [0..<upload_chunks d]))"
| "get_ok_at A reg w U name Undefined \<longleftrightarrow> True"
| "get_ok_at A reg w U name _ \<longleftrightarrow> False"

fun thread_ok ::
  "int32 set \<Rightarrow> node_registry \<Rightarrow> 'a \<Rightarrow> (string \<times> bytes) set \<Rightarrow> request \<Rightarrow> handler \<Rightarrow> bool" where
  "thread_ok A reg w U (Req_Put reqs) h \<longleftrightarrow> put_ok_at A reg w reqs h"
| "thread_ok A reg w U (Req_Get name wr) h \<longleftrightarrow> get_ok_at A reg w U name h"
| "thread_ok A reg w U (Req_Delete name t now) h \<longleftrightarrow>
     h \<in> {Delete_Lookup, Delete_Move, Delete_Test, Delete_Set, Undefined} \<or> (\<exists>status resp. h = Delete_Return status resp)"
| "thread_ok A reg w U (Req_Register peer port) h \<longleftrightarrow>
     h \<in> {Register_Check, Register_Draw, Undefined} \<or> (\<exists>i. h = Register_Insert i) \<or>
     (\<exists>status resp. h = Register_Return status resp)"
| "thread_ok A reg w U (Req_Unregister i) h \<longleftrightarrow>
     h \<in> {Unregister_Find, Unregister_Erase, Undefined} \<or> (\<exists>status resp. h = Unregister_Return status resp)"

lemma reading_goes_on:
  assumes "reading A reg w U name meta i resps d" "goes_on B D A reg w A' reg' w'" "U \<subseteq> U'" "ids_of (chunks meta) \<inter> B = {}"
  shows "reading A' reg' w' U' name meta i resps d"
  using assms(1) subsetD [OF assms(3)] describes_intact_goes_on [OF _ assms(2,4)] unfolding reading_def by iprover

lemma reading_ex_goes_on:
  assumes "\<exists>d. reading A reg w U name meta i resps d" "goes_on B D A reg w A' reg' w'" "U \<subseteq> U'" "ids_of (chunks meta) \<inter> B = {}"
  shows "\<exists>d. reading A' reg' w' U' name meta i resps d"
proof -
  obtain d where "reading A reg w U name meta i resps d" using assms(1) by (rule exE)
  from reading_goes_on [OF this assms(2-4)] show ?thesis by (rule exI)
qed

lemma put_ok_goes_on:
  assumes "put_ok_at A reg w reqs h" "goes_on B D A reg w A' reg' w'" "set (busy h) \<inter> (B \<union> D) = {}"
  shows "put_ok_at A' reg' w' reqs h"
proof -
  have A: "A \<subseteq> A'" using assms(2) by (simp add: goes_on_def registry_grows_def)
  note later = sent_goes_on [OF _ assms(2)] tasks_ok_goes_on [OF _ assms(2)] descriptor_ok_mono [OF _ A]
  show ?thesis
    using assms(1,3) later A by (cases h) (auto simp: Int_Un_distrib2 simp del: Int_Un_distrib)
qed

lemma get_ok_goes_on:
  assumes "get_ok_at A reg w U name h" "goes_on B D A reg w A' reg' w'" "U \<subseteq> U'" "ids_of (known h) \<inter> B = {}"
  shows "get_ok_at A' reg' w' U' name h"
proof -
  note later = reading_ex_goes_on [OF _ assms(2,3)] describes_intact_goes_on [OF _ assms(2)]
  show ?thesis
  proof (cases h)
    case (Get_Call meta i resps info ids)
    then obtain d where d: "picking meta i ids" "reading A reg w U name meta i resps d"
      "stored w (info_endpoint info) (chunk_id (chunks meta ! i)) \<in> {None, Some (chunk_slice d i)}"
      using assms(1) by auto
    have i: "i < length (chunks meta)" using d(1) by (simp add: picking_def)
    have "valid (chunk_id (chunks meta ! i))"
      using describes_chunk [OF _ i] d(2) unfolding reading_def intact_def by blast
    moreover have "chunk_id (chunks meta ! i) \<in> ids_of (chunks meta)" using i by simp
    then have "chunk_id (chunks meta ! i) \<notin> B" using assms(4) Get_Call by auto
    ultimately have "stored w' (info_endpoint info) (chunk_id (chunks meta ! i)) \<in> {None, Some (chunk_slice d i)}"
      using stored_goes_on(1) [OF assms(2) _ _ d(3)] by blast
    then show ?thesis using reading_goes_on [OF d(2) assms(2,3)] d(1) Get_Call assms(4) by auto
  next
    case (Get_Return status resps)
    then show ?thesis using assms(1,3) by auto
  next
    case (Get_Deref meta)
    then show ?thesis using assms(1,3,4) later(2) by auto
  qed (use assms(1,4) later(1) in simp_all)
qed

lemma thread_ok_goes_on:
  assumes "thread_ok A reg w U r h" "goes_on B D A reg w A' reg' w'" "U \<subseteq> U'"
    and "set (busy h) \<inter> (B \<union> D) = {}" "ids_of (known h) \<inter> B = {}"
  shows "thread_ok A' reg' w' U' r h"
  using assms(1) put_ok_goes_on [OF _ assms(2,4)] get_ok_goes_on [OF _ assms(2,3,5)] by (cases r) auto

end

end
