(* ===== verification/Thread_Steps.thy ===== *)
theory Thread_Steps
  imports Thread_Invariant
begin

text \<open>
  One step of a thread: what it does to the identifiers of chunks and nodes, that it
  leaves the thread what it relies on, and what it does to the world the others see.
\<close>

section \<open>Identifiers\<close>

text \<open>The parts of the coordinator the handlers rely on.\<close>

definition base_inv :: "nat \<Rightarrow> nat \<Rightarrow> int32 set \<Rightarrow> CoordinatorServiceImpl \<Rightarrow> bool" where
  "base_inv n k A st \<longleftrightarrow> next_node_id st = of_nat (k + 1) \<and> distinct (map fst (registered_nodes st)) \<and>
     fst ` set (registered_nodes st) \<subseteq> A \<and> store_inv (store st) \<and> chunk_id_counter st = of_nat n"

text \<open>The identifiers of one thread and the store: what \<open>ids_apart\<close> says of them.\<close>

definition own_ids :: "nat \<Rightarrow> handler \<Rightarrow> MetadataStore \<Rightarrow> bool" where
  "own_ids n h ms \<longleftrightarrow> distinct (busy h) \<and> set (busy h) \<inter> ids_of (all_chunks ms) = {} \<and>
     set (busy h) \<subseteq> chunk_name ` {..<n} \<and> ids_of (known h) \<subseteq> chunk_name ` {..<n} \<and>
     distinct (map chunk_id (all_chunks ms)) \<and> ids_of (all_chunks ms) \<subseteq> chunk_name ` {..<n}"

text \<open>What a step does to identifiers and store: the hypotheses of \<open>ids_apart_step\<close>.\<close>

definition ids_step :: "nat \<Rightarrow> handler \<Rightarrow> MetadataStore \<Rightarrow> nat \<Rightarrow> handler \<Rightarrow> MetadataStore \<Rightarrow> bool" where
  "ids_step n h ms n' h' ms' \<longleftrightarrow> n \<le> n' \<and> n' \<le> Suc n \<and>
     set (busy h') \<subseteq> set (busy h) \<union> chunk_name ` {n..<n'} \<and> distinct (busy h') \<and>
     ids_of (all_chunks ms') \<subseteq> ids_of (all_chunks ms) \<union> set (busy h) \<and>
     distinct (map chunk_id (all_chunks ms')) \<and>
     ids_of (known h') \<subseteq> ids_of (known h) \<union> ids_of (all_chunks ms) \<and>
     set (busy h') \<inter> ids_of (all_chunks ms') = {} \<and> set (busy h') \<inter> ids_of (known h') = {}"

lemma busy_or_known: "busy h = [] \<or> known h = []"
  by (cases h) simp_all

lemma ids_step_quiet:
  assumes "own_ids n h ms" "mset (all_chunks ms') \<subseteq># mset (all_chunks ms)"
    and "set (busy h') \<subseteq> set (busy h)" "distinct (busy h')" "ids_of (known h') \<subseteq> ids_of (known h) \<union> ids_of (all_chunks ms)"
  shows "ids_step n h ms n h' ms'"
proof -
  have sub: "ids_of (all_chunks ms') \<subseteq> ids_of (all_chunks ms)"
    using set_mset_mono [OF assms(2)] by (simp add: image_mono)
  have "distinct (map chunk_id (all_chunks ms'))"
    by (rule distinct_map_mset_subset [OF assms(2)]) (use assms(1) in \<open>simp only: own_ids_def\<close>)
  moreover have "set (busy h) \<inter> ids_of (all_chunks ms) = {}" using assms(1) by (simp add: own_ids_def)
  then have "set (busy h') \<inter> ids_of (all_chunks ms') = {}" using sub assms(3) by fast
  moreover have "set (busy h') \<inter> ids_of (known h') = {}" using busy_or_known [of h'] by auto
  ultimately show ?thesis using sub assms(3-5) unfolding ids_step_def by auto
qed

lemma ids_step_draw:
  assumes "own_ids n (Put_Loop name d i cs) ms"
  shows "ids_step n (Put_Loop name d i cs) ms (Suc n) (Put_Place name d i cs (chunk_name n)) ms"
proof -
  have "chunk_name n \<notin> chunk_name ` {..<n}" by auto
  then show ?thesis
    using assms unfolding own_ids_def ids_step_def by auto
qed

lemma ids_step_commit:
  assumes "own_ids n (Put_Loop name d i (chunks meta)) ms"
  shows "ids_step n (Put_Loop name d i (chunks meta)) ms n (Put_Return status resp) (putFile name meta ms)"
proof -
  have le: "mset (all_chunks (putFile name meta ms)) \<subseteq># mset (all_chunks ms @ chunks meta)"
    using all_chunks_putFile_le by simp
  have "distinct (map chunk_id (all_chunks ms @ chunks meta))"
    using assms by (simp add: own_ids_def Int_commute)
  then have "distinct (map chunk_id (all_chunks (putFile name meta ms)))"
    by (rule distinct_map_mset_subset [OF le])
  moreover have "set (all_chunks (putFile name meta ms)) \<subseteq> set (all_chunks ms) \<union> set (chunks meta)"
    using set_mset_mono [OF le] by simp
  ultimately show ?thesis using assms unfolding own_ids_def ids_step_def by auto
qed


text \<open>The same for the identifiers of nodes: what \<open>nodes_apart\<close> says of one thread, and a step.\<close>

definition own_nodes :: "nat \<Rightarrow> int32 set \<Rightarrow> handler \<Rightarrow> bool" where
  "own_nodes k A h \<longleftrightarrow> A \<subseteq> of_nat ` {1..k} \<and> drawn h \<inter> A = {}"

text \<open>What a registration that has inserted node \<open>i\<close> answers.\<close>

definition registered :: "int32 \<Rightarrow> handler" where
  "registered i = Register_Return status_OK (empty_RegisterDataNodeResponse\<lparr>rdr_success := True, rdr_node_id := i\<rparr>)"

definition nodes_step :: "nat \<Rightarrow> int32 set \<Rightarrow> handler \<Rightarrow> nat \<Rightarrow> int32 set \<Rightarrow> handler \<Rightarrow> bool" where
  "nodes_step k A h k' A' h' \<longleftrightarrow> k \<le> k' \<and> k' \<le> Suc k \<and> A' \<subseteq> A \<union> drawn h \<and> drawn h' \<inter> A' = {} \<and>
     (\<exists>F. drawn h' \<subseteq> drawn h \<union> F \<and> F \<inter> of_nat ` {1..k} = {} \<and> F \<subseteq> of_nat ` {1..k'}) \<and>
     (\<forall>i \<in> A'. i \<in> A \<or> h = Register_Insert i \<and> h' = registered i)"

lemma nodes_step_quiet: "drawn h' = {} \<Longrightarrow> nodes_step k A h k A h'"
  unfolding nodes_step_def by auto

lemma nodes_step_draw:
  assumes "k < 2 ^ 32 - 1" "own_nodes k A h"
  shows "nodes_step k A h (Suc k) A (Register_Insert (of_nat (Suc k)))"
proof -
  have n: "(of_nat (Suc k) :: int32) \<notin> of_nat ` {1..k}" using fresh_id [OF assms(1)] by simp
  then have "of_nat (Suc k) \<notin> A" using assms(2) by (auto simp: own_nodes_def)
  moreover have "(of_nat (Suc k) :: int32) \<in> of_nat ` {1..Suc k}" by (rule imageI) simp
  ultimately show ?thesis
    using n unfolding nodes_step_def by (intro conjI exI [of _ "{of_nat (Suc k)}"]) simp_all
qed

lemma nodes_step_insert: "nodes_step k A (Register_Insert i) k (insert i A) (registered i)"
  unfolding nodes_step_def registered_def by auto

section \<open>One step of a thread\<close>

context dfs_nodes
begin

definition files_ok :: "int32 set \<Rightarrow> node_registry \<Rightarrow> 'a \<Rightarrow> (string \<times> bytes) set \<Rightarrow> MetadataStore \<Rightarrow> bool" where
  "files_ok A reg w U ms \<longleftrightarrow>
     (\<forall>p meta. active_files ms p = Some meta \<longrightarrow> (\<exists>d. (p, d) \<in> U \<and> describes (held A reg w) meta d))"

lemma files_ok_goes_on:
  assumes "files_ok A reg w U ms" "goes_on B D A reg w A' reg' w'" "U \<subseteq> U'" "active_files ms' \<subseteq>\<^sub>m active_files ms"
    and "\<And>p meta. active_files ms p = Some meta \<Longrightarrow> ids_of (chunks meta) \<inter> (B \<union> D) = {}"
  shows "files_ok A' reg' w' U' ms'"
  unfolding files_ok_def
proof (intro allI impI)
  fix p meta assume "active_files ms' p = Some meta"
  then have m: "active_files ms p = Some meta" using assms(4) by (metis domI map_le_def)
  then obtain d where d: "(p, d) \<in> U" "describes (held A reg w) meta d" using assms(1) by (auto simp: files_ok_def)
  from describes_held_goes_on [OF d(2) assms(2) assms(5) [OF m]]
  show "\<exists>d. (p, d) \<in> U' \<and> describes (held A' reg' w') meta d" using d(1) assms(3) by blast
qed

lemma files_ok_mono:
  assumes "files_ok A reg w U ms" "goes_on B {} A reg w A' reg' w'" "U \<subseteq> U'" "ids_of (all_chunks ms) \<inter> B = {}"
    and "active_files ms' \<subseteq>\<^sub>m active_files ms"
  shows "files_ok A' reg' w' U' ms'"
proof (rule files_ok_goes_on [OF assms(1-3,5)])
  fix p meta assume "active_files ms p = Some meta"
  from active_chunks [OF this] show "ids_of (chunks meta) \<inter> (B \<union> {}) = {}" using assms(4) by fast
qed

text \<open>What is true of a thread before its step, and what the step leaves true.\<close>

definition before_step ::
  "nat \<Rightarrow> nat \<Rightarrow> int32 set \<Rightarrow> (string \<times> bytes) set \<Rightarrow> request \<Rightarrow> handler \<Rightarrow> CoordinatorServiceImpl \<Rightarrow> 'a \<Rightarrow> bool" where
  "before_step n k A U r h st w \<longleftrightarrow> base_inv n k A st \<and> sound w \<and> own_ids n h (store st) \<and> own_nodes k A h \<and>
     files_ok A (registered_nodes st) w U (store st) \<and> thread_ok A (registered_nodes st) w U r h"

definition good_step ::
  "nat \<Rightarrow> nat \<Rightarrow> int32 set \<Rightarrow> (string \<times> bytes) set \<Rightarrow> request \<Rightarrow> handler \<Rightarrow> CoordinatorServiceImpl \<Rightarrow> 'a
    \<Rightarrow> handler \<Rightarrow> CoordinatorServiceImpl \<Rightarrow> 'a \<Rightarrow> bool" where
  "good_step n k A U r h st w h' st' w' \<longleftrightarrow>
     (\<exists>n' k' A' U'. base_inv n' k' A' st' \<and>
        goes_on (set (busy h)) {} A (registered_nodes st) w A' (registered_nodes st') w' \<and>
        ids_step n h (store st) n' h' (store st') \<and> nodes_step k A h k' A' h' \<and>
        (U' = {} \<or> (\<exists>reqs resp. r = Req_Put reqs \<and> h' = Put_Return status_OK resp \<and>
           U' = {(upload_name reqs, upload_data reqs)})) \<and>
        files_ok A' (registered_nodes st') w' (U \<union> U') (store st') \<and>
        thread_ok A' (registered_nodes st') w' U r h')"

text \<open>
  Most steps change nothing of this but what the thread holds: the store loses files at
  most, and the world the chunks the thread is writing.
\<close>

lemma good_step_quiet:
  assumes I: "before_step n k A U r h st w"
    and st': "st' = st\<lparr>store := ms, next_node_index := x, running := b, cleanup_thread := pc\<rparr>" "store_inv ms"
    and ms: "active_files ms \<subseteq>\<^sub>m active_files (store st)" "mset (all_chunks ms) \<subseteq># mset (all_chunks (store st))"
    and go: "goes_on (set (busy h)) {} A (registered_nodes st) w A (registered_nodes st) w'"
    and h': "set (busy h') \<subseteq> set (busy h)" "distinct (busy h')"
      "ids_of (known h') \<subseteq> ids_of (known h) \<union> ids_of (all_chunks (store st))" "drawn h' = {}"
    and T: "thread_ok A (registered_nodes st) w' U r h'"
  shows "good_step n k A U r h st w h' st' w'"
proof -
  have O: "own_ids n h (store st)" using I by (simp add: before_step_def)
  have "base_inv n k A st'" using I st' by (simp add: before_step_def base_inv_def)
  moreover have "ids_step n h (store st) n h' (store st')"
    using ids_step_quiet [OF O ms(2) h'(1-3)] st'(1) by simp
  moreover have "ids_of (all_chunks (store st)) \<inter> set (busy h) = {}"
    using O by (simp add: own_ids_def Int_commute)
  from files_ok_mono [OF _ go subset_refl this ms(1)]
  have "files_ok A (registered_nodes st) w' (U \<union> {}) (store st')" using I st'(1) by (simp add: before_step_def)
  ultimately show ?thesis
    using st'(1) go T nodes_step_quiet [OF h'(4)] unfolding good_step_def
    by (intro exI [of _ n] exI [of _ k] exI [of _ A] exI [of _ "{}"]) simp
qed

lemma unchanged: "st = st\<lparr>store := store st, next_node_index := next_node_index st, running := running st,
    cleanup_thread := cleanup_thread st\<rparr>"
  by simp

lemma before_store_inv: "before_step n k A U r h st w \<Longrightarrow> store_inv (store st)"
  by (simp add: before_step_def base_inv_def)

text \<open>A step that changes nothing but the thread, and one that changes the world as well.\<close>

lemma good_step_world:
  assumes I: "before_step n k A U r h st w" and go: "goes_on (set (busy h)) {} A (registered_nodes st) w A (registered_nodes st) w'"
    and h': "set (busy h') \<subseteq> set (busy h)" "distinct (busy h')"
      "ids_of (known h') \<subseteq> ids_of (known h) \<union> ids_of (all_chunks (store st))" "drawn h' = {}"
    and T: "thread_ok A (registered_nodes st) w' U r h'"
  shows "good_step n k A U r h st w h' st w'"
  by (rule good_step_quiet [OF I unchanged before_store_inv [OF I] _ _ go h' T]) simp_all

lemma good_step_local:
  assumes I: "before_step n k A U r h st w"
    and h': "set (busy h') \<subseteq> set (busy h)" "distinct (busy h')"
      "ids_of (known h') \<subseteq> ids_of (known h) \<union> ids_of (all_chunks (store st))" "drawn h' = {}"
    and T: "thread_ok A (registered_nodes st) w U r h'"
  shows "good_step n k A U r h st w h' st w"
  by (rule good_step_world [OF I _ h' T]) (use I goes_on_refl in \<open>simp add: before_step_def\<close>)

lemma before_busy: "before_step n k A U r h st w \<Longrightarrow> distinct (busy h)"
  by (simp add: before_step_def own_ids_def)

lemma before_thread: "before_step n k A U r h st w \<Longrightarrow> thread_ok A (registered_nodes st) w U r h"
  by (simp add: before_step_def)

lemma before_valid:
  assumes "before_step n k A U r h st w" "n \<le> 2 ^ 31" "c \<in> set (busy h)"
  shows "valid c"
proof -
  have "set (busy h) \<subseteq> chunk_name ` {..<n}" using assms(1) unfolding before_step_def own_ids_def by iprover
  then obtain j where "j < n" "c = chunk_name j" using assms(3) by auto
  then show ?thesis using valid_name [of j] assms(2) by simp
qed

subsection \<open>Uploads\<close>

text \<open>The wait for the tasks: one of them moves, or the distribution ends.\<close>

lemma wait_good:
  assumes "client_factory rt = create" "n \<le> 2 ^ 31"
    and I: "before_step n k A U (Req_Put reqs) (Put_Wait name d i cs c tasks) st w"
    and step: "put_step rt j reqs (Put_Wait name d i cs c tasks) (st, w) = (h', st', w')"
  shows "good_step n k A U (Req_Put reqs) (Put_Wait name d i cs c tasks) st w h' st' w'"
proof (cases "running_tasks tasks = []")
  case True
  let ?s = "collect_statuses (node_ids c) (map task_status tasks)"
  have s: "st' = st" "w' = w"
    and h': "h' = (if \<not> status_ok ?s then Put_Return ?s \<lparr>pfs_success = False\<rparr> else Put_Loop name d (Suc i) (cs @ [c]))"
    using step True by (auto simp: Let_def split: if_splits)
  have T: "uploading reqs name d i" "sent A (registered_nodes st) w cs d i"
      "tasks_ok A (registered_nodes st) w c (chunk_slice d i) tasks"
    using before_thread [OF I] by simp_all
  have "sent A (registered_nodes st) w (cs @ [c]) d (Suc i)" if "status_ok ?s"
    using T(2) tasks_ok_held [OF T(3) True that] unfolding sent_def by (simp add: list_all2_appendI)
  then have "put_ok_at A (registered_nodes st) w reqs h'" using T(1) by (auto simp: h' uploading_def)
  then show ?thesis
    unfolding s by (intro good_step_local [OF I]) (use before_busy [OF I] in \<open>simp_all add: h'\<close>)
next
  case False
  define t where "t = running_tasks tasks ! (j mod length (running_tasks tasks))"
  have "t \<in> set (running_tasks tasks)" using False by (simp add: t_def)
  then have t: "t < length tasks" by (simp add: running_tasks_def)
  let ?step = "task_step rt (registered_nodes st) (chunk_id c) (chunk_slice d i) (node_ids c ! t) (tasks ! t) w"
  show ?thesis
  proof (cases ?step)
    case None
    then have s: "h' = Undefined" "st' = st" "w' = w" using step False by (simp_all add: Let_def t_def)
    show ?thesis unfolding s by (rule good_step_local [OF I]) simp_all
  next
    case (Some q)
    obtain task where q: "?step = Some (task, w')"
      and s: "h' = Put_Wait name d i cs c (tasks[t := task])" "st' = st"
      using step False Some by (cases q) (auto simp: Let_def t_def)
    have T: "uploading reqs name d i" "sent A (registered_nodes st) w cs d i"
        "tasks_ok A (registered_nodes st) w c (chunk_slice d i) tasks"
      using before_thread [OF I] by simp_all
    have v: "valid (chunk_id c)" and w: "sound w" using T(3) I by (simp_all add: tasks_ok_def before_step_def)
    note ch = task_step_changes [OF assms(1) w v q]
    have go: "goes_on {chunk_id c} {} A (registered_nodes st) w A (registered_nodes st) w'"
      by (rule goes_on_changes [OF ch]) (simp add: only_def)
    have "goes_on (set (busy (Put_Wait name d i cs c tasks))) {} A (registered_nodes st) w A (registered_nodes st) w'"
      by (rule goes_on_changes [OF ch]) (simp add: only_def)
    note world = good_step_world [OF I this]
    have "ids_of cs \<inter> ({chunk_id c} \<union> {}) = {}" using before_busy [OF I] by auto
    then have "sent A (registered_nodes st) w' cs d i" by (rule sent_goes_on [OF T(2) go])
    then show ?thesis
      unfolding s by (intro world) (use before_busy [OF I] tasks_ok_step [OF assms(1) w T(3) t q] T(1) in simp_all)
  qed
qed

text \<open>The two halves of the selection, and the start of the tasks.\<close>

lemma place_good:
  assumes "good_runtime rt"
    and I: "before_step n k A U (Req_Put reqs) (Put_Place name d i cs cid) st w"
    and step: "put_step rt j reqs (Put_Place name d i cs cid) (st, w) = (h', st', w')"
  shows "good_step n k A U (Req_Put reqs) (Put_Place name d i cs cid) st w h' st' w'"
proof -
  let ?ids = "map fst (hash_order rt (registered_nodes st))"
  have s: "st' = st" "w' = w"
    and h': "(\<exists>status resp. h' = Put_Return status resp) \<or> (h' = Put_Pick name d i cs cid ?ids \<and> ?ids \<noteq> [])"
    using step by (auto split: if_splits)
  have "iterates_all (hash_order rt)" using assms(1) by (simp add: good_runtime_def)
  then have "set ?ids \<subseteq> A" using I iterates_all_set by (force simp: before_step_def base_inv_def)
  then have "put_ok_at A (registered_nodes st) w reqs h'" using h' before_thread [OF I] by auto
  then show ?thesis
    unfolding s by (intro good_step_local [OF I]) (use before_busy [OF I] h' in auto)
qed

lemma pick_good:
  assumes I: "before_step n k A U (Req_Put reqs) (Put_Pick name d i cs cid ids) st w"
    and step: "put_step rt j reqs (Put_Pick name d i cs cid ids) (st, w) = (h', st', w')"
  shows "good_step n k A U (Req_Put reqs) (Put_Pick name d i cs cid ids) st w h' st' w'"
proof -
  have s: "st' = st\<lparr>next_node_index := next_node_index st + 1\<rparr>" "w' = w"
    using step by (simp_all add: Let_def default_ChunkInfo_def split: option.splits)
  have T: "uploading reqs name d i" "sent A (registered_nodes st) w cs d i" "ids \<noteq> []" "set ids \<subseteq> A"
    using before_thread [OF I] by simp_all
  have st': "st' = st\<lparr>store := store st, next_node_index := next_node_index st + 1, running := running st,
      cleanup_thread := cleanup_thread st\<rparr>" by (simp add: s(1))
  note quiet = good_step_quiet [OF I st' before_store_inv [OF I]]
  have w: "sound w" using I by (simp add: before_step_def)
  show ?thesis
  proof (cases "pick_nodes ids (next_node_index st) 3")
    case None
    then have "h' = Undefined" using step by (simp add: Let_def default_ChunkInfo_def)
    then show ?thesis
      unfolding s(2) by (intro quiet) (use before_busy [OF I] T(1,2) goes_on_refl w in simp_all)
  next
    case (Some selected)
    define c where "c = (default_ChunkInfo\<lparr>chunk_id := cid\<rparr>)\<lparr>node_ids := selected, replication_factor := 3\<rparr>"
    have h': "h' = Put_Send name d i cs c"
      using step Some by (simp add: Let_def c_def default_ChunkInfo_def)
    have "set (node_ids c) \<subseteq> set ids" using pick_nodes_set [OF Some] by (simp add: c_def)
    moreover have "length (node_ids c) = 3" using pick_nodes_length [OF Some] by (simp add: c_def)
    ultimately have "descriptor_ok A c" using T(4) by (auto simp: descriptor_ok_def c_def)
    moreover have "chunk_id c = cid" by (simp add: c_def)
    ultimately show ?thesis
      unfolding s(2) h' by (intro quiet) (use before_busy [OF I] T(1,2) goes_on_refl w in simp_all)
  qed
qed

lemma send_good:
  assumes "n \<le> 2 ^ 31"
    and I: "before_step n k A U (Req_Put reqs) (Put_Send name d i cs c) st w"
    and step: "put_step rt j reqs (Put_Send name d i cs c) (st, w) = (h', st', w')"
  shows "good_step n k A U (Req_Put reqs) (Put_Send name d i cs c) st w h' st' w'"
proof -
  have s: "st' = st" "w' = w" and h': "h' = Undefined \<or> (\<exists>status resp. h' = Put_Return status resp) \<or>
      h' = Put_Wait name d i cs c (replicate (length (node_ids c)) Task_Find)"
    using step by (auto split: if_splits)
  have "valid (chunk_id c)" by (rule before_valid [OF I assms(1)]) simp
  then have "put_ok_at A (registered_nodes st) w reqs h'"
    using h' before_thread [OF I] by (auto simp: tasks_ok_def)
  then show ?thesis
    unfolding s by (intro good_step_local [OF I]) (use before_busy [OF I] h' in auto)
qed

lemma read_count_unchanged: "ms = ms\<lparr>read_count := read_count ms\<rparr>" for ms :: MetadataStore
  by simp

lemma put_receive_store:
  "put_receive True [] [] reqs ms = (r, ms') \<Longrightarrow> \<exists>x. ms' = ms\<lparr>read_count := x\<rparr>"
  by (cases reqs)
    (auto simp: put_receive_eq intro: read_count_unchanged split: option.splits if_splits simp del: put_receive.simps)

text \<open>A lookup leaves the files as they are.\<close>

lemma lookup_good:
  assumes I: "before_step n k A U r h st w"
    and h': "busy h' = []" "ids_of (known h') \<subseteq> ids_of (known h) \<union> ids_of (all_chunks (store st))" "drawn h' = {}"
    and T: "thread_ok A (registered_nodes st) w U r h'"
  shows "good_step n k A U r h st w h' (st\<lparr>store := (store st)\<lparr>read_count := x\<rparr>\<rparr>) w"
proof (rule good_step_quiet [OF I])
  show "st\<lparr>store := (store st)\<lparr>read_count := x\<rparr>\<rparr> = st\<lparr>store := (store st)\<lparr>read_count := x\<rparr>,
      next_node_index := next_node_index st, running := running st, cleanup_thread := cleanup_thread st\<rparr>" by simp
  show "store_inv ((store st)\<lparr>read_count := x\<rparr>)" using before_store_inv [OF I] by (simp add: store_inv_def)
qed (use assms goes_on_refl in \<open>simp_all add: before_step_def\<close>)

lemma check_good:
  assumes I: "before_step n k A U (Req_Put reqs) Put_Check st w"
    and step: "put_step rt j reqs Put_Check (st, w) = (h', st', w')"
  shows "good_step n k A U (Req_Put reqs) Put_Check st w h' st' w'"
proof -
  obtain r ms where recv: "put_receive True [] [] reqs (store st) = (r, ms)" by (metis prod.exhaust)
  then have w': "w' = w" and ms: "st' = st\<lparr>store := ms\<rparr>"
    using step by (auto split: sum.splits if_splits simp del: put_receive.simps)
  obtain x where x: "ms = (store st)\<lparr>read_count := x\<rparr>" using put_receive_store [OF recv] by blast
  have h': "(\<exists>status resp. h' = Put_Return status resp) \<or> h' = Put_Loop (upload_name reqs) (upload_data reqs) 0 []"
    using step by (cases reqs)
      (auto simp: put_receive_eq upload_name_def upload_data_def split: option.splits if_splits simp del: put_receive.simps)
  then have "put_ok_at A (registered_nodes st) w reqs h'" by (auto simp: sent_def)
  then show ?thesis
    unfolding w' ms x by (intro lookup_good [OF I]) (use h' in auto)
qed

text \<open>The head of the loop: the next chunk's identifier, or the commit.\<close>

lemma loop_good:
  assumes "n < 2 ^ 31"
    and I: "before_step n k A U (Req_Put reqs) (Put_Loop name d i cs) st w"
    and step: "put_step rt j reqs (Put_Loop name d i cs) (st, w) = (h', st', w')"
  shows "good_step n k A U (Req_Put reqs) (Put_Loop name d i cs) st w h' st' w'"
proof -
  let ?reg = "registered_nodes st"
  have B: "base_inv n k A st" "sound w" "own_ids n (Put_Loop name d i cs) (store st)" "files_ok A ?reg w U (store st)"
    and T: "name = upload_name reqs" "d = upload_data reqs" "i \<le> upload_chunks d" "sent A ?reg w cs d i"
    using I unfolding before_step_def thread_ok.simps put_ok_at.simps by iprover+
  show ?thesis
  proof (cases "i < upload_chunks d")
    case True
    have id: "''chunk_'' @ to_string (uint (chunk_id_counter st)) = chunk_name n"
      using counter_name [OF assms(1)] B(1) by (simp add: base_inv_def)
    have s: "h' = Put_Place name d i cs (chunk_name n)" "st' = st\<lparr>chunk_id_counter := chunk_id_counter st + 1\<rparr>" "w' = w"
      using step True id by auto
    have "base_inv (Suc n) k A st'" using B(1) by (simp add: base_inv_def s(2))
    moreover have "files_ok A ?reg w (U \<union> {}) (store st')" using B(4) by (simp add: s(2))
    moreover have "put_ok_at A ?reg w reqs h'" using T True by (simp add: s(1) uploading_def)
    moreover have "ids_step n (Put_Loop name d i cs) (store st) (Suc n) h' (store st')"
      using ids_step_draw [OF B(3)] by (simp add: s)
    ultimately show ?thesis
      unfolding good_step_def s(3)
      by (intro exI [of _ "Suc n"] exI [of _ k] exI [of _ A] exI [of _ "{}"])
        (simp add: s(1,2) goes_on_refl B(2) nodes_step_quiet)
  next
    case False
    define meta where "meta = \<lparr>fm_size = of_nat (length d), chunk_size = of_nat CHUNK_SIZE, chunks = cs\<rparr>"
    have s: "h' = Put_Return status_OK \<lparr>pfs_success = True\<rparr>" "st' = st\<lparr>store := putFile name meta (store st)\<rparr>" "w' = w"
      using step False by (simp_all add: meta_def Let_def)
    have desc: "describes (held A ?reg w) meta (upload_data reqs)"
      using T False by (simp add: describes_def sent_def meta_def not_less)
    have "base_inv n k A st'" using B(1) store_inv_putFile by (simp add: base_inv_def s(2))
    moreover have "files_ok A ?reg w (U \<union> {(upload_name reqs, upload_data reqs)}) (store st')"
      using B(4) desc T(1) by (auto simp: files_ok_def s(2) active_files_putFile)
    moreover have "ids_step n (Put_Loop name d i cs) (store st) n h' (store st')"
      using ids_step_commit [of n name d i meta "store st"] B(3) by (simp add: s meta_def)
    ultimately show ?thesis
      unfolding good_step_def s(3)
      by (intro exI [of _ n] exI [of _ k] exI [of _ A] exI [of _ "{(upload_name reqs, upload_data reqs)}"])
        (simp add: s(1,2) goes_on_refl B(2) nodes_step_quiet)
  qed
qed

lemma put_step_good:
  assumes "client_factory rt = create" "good_runtime rt" "n < 2 ^ 31"
    and I: "before_step n k A U (Req_Put reqs) h st w"
    and step: "put_step rt j reqs h (st, w) = (h', st', w')" and run: "\<not> finished h"
  shows "good_step n k A U (Req_Put reqs) h st w h' st' w'"
proof -
  have n: "n \<le> 2 ^ 31" using assms(3) by simp
  have T: "put_ok_at A (registered_nodes st) w reqs h" using before_thread [OF I] by simp
  show ?thesis
  proof (cases h)
    case (Put_Wait name d i cs c tasks)
    show ?thesis using assms(1) n I step unfolding Put_Wait by (rule wait_good)
  next
    case (Put_Send name d i cs c)
    show ?thesis using n I step unfolding Put_Send by (rule send_good)
  next
    case (Put_Pick name d i cs cid ids)
    show ?thesis using I step unfolding Put_Pick by (rule pick_good)
  next
    case (Put_Place name d i cs cid)
    show ?thesis using assms(2) I step unfolding Put_Place by (rule place_good)
  next
    case (Put_Loop name d i cs)
    show ?thesis using assms(3) I step unfolding Put_Loop by (rule loop_good)
  next
    case Put_Check
    show ?thesis using I step unfolding Put_Check by (rule check_good)
  qed (use T run in simp_all)
qed

subsection \<open>Downloads\<close>

lemma get_call_good:
  assumes "client_factory rt = create"
    and I: "before_step n k A U (Req_Get name wr) (Get_Call meta i resps info ids) st w"
    and step: "get_step rt j name wr (Get_Call meta i resps info ids) (st, w) = (h', st', w')"
  shows "good_step n k A U (Req_Get name wr) (Get_Call meta i resps info ids) st w h' st' w'"
proof (cases "buffer_alive meta st")
  case False
  then have s: "h' = Undefined" "st' = st" "w' = w" using step by simp_all
  show ?thesis unfolding s by (rule good_step_local [OF I]) simp_all
next
  case True
  let ?reg = "registered_nodes st" and ?cid = "chunk_id (chunks meta ! i)"
  obtain d where d: "reading A ?reg w U name meta i resps d" and pick: "picking meta i ids"
    and st: "stored w (info_endpoint info) ?cid \<in> {None, Some (chunk_slice d i)}"
    using before_thread [OF I] by auto
  have w: "sound w" using I by (simp add: before_step_def)
  have i: "i < length (chunks meta)" using pick by (simp add: picking_def)
  have desc: "describes (intact A ?reg w) meta d" using d by (simp add: reading_def)
  have v: "valid ?cid" using describes_chunk [OF desc i] by (simp add: intact_def)
  let ?get = "GetChunk (create (info_address info) (info_port info)) ?cid [] w"
  obtain cs x where get: "?get = ((cs, x), w')" and s: "st' = st"
    and h': "h' = (if \<not> status_ok cs then Get_Find meta i resps ids
        else if \<not> wr i then Get_Return (Status INTERNAL ''Failed to write response'') resps
        else Get_Loop meta (Suc i) (resps @ [\<lparr>gfs_data = x\<rparr>]))"
    using step True assms(1) by (cases ?get) (auto simp: Let_def split: if_splits)
  have ch: "changes (\<lambda>_ _. False) w w'" using get_changes [OF w v, of "info_address info" "info_port info" "[]"] get by simp
  have go: "goes_on B {} A ?reg w A ?reg w'" for B by (rule goes_on_changes [OF ch]) simp
  have d': "reading A ?reg w' U name meta i resps d"
    by (rule reading_goes_on [OF d go [of "{}"] subset_refl]) simp
  have x: "x = chunk_slice d i" if "status_ok cs"
    using get_value [OF w v, of "info_address info" "info_port info"] get that st by (simp add: info_endpoint_def)
  have "i < upload_chunks d" using i describes_length [OF desc] by simp
  then have next_chunk: "reading A ?reg w' U name meta (Suc i) (resps @ [\<lparr>gfs_data = x\<rparr>]) d" if "status_ok cs"
    using d' x [OF that] by (simp add: reading_def)
  have "get_ok_at A ?reg w' U name h'"
  proof (cases "status_ok cs \<and> wr i")
    case True
    then show ?thesis using next_chunk by (auto simp: h')
  next
    case False
    then show ?thesis using d' pick by (auto simp: h' status_ok_def)
  qed
  then show ?thesis
    unfolding s by (intro good_step_world [OF I go]) (auto simp: h')
qed

lemma get_step_good:
  assumes "client_factory rt = create"
    and I: "before_step n k A U (Req_Get name wr) h st w"
    and step: "get_step rt j name wr h (st, w) = (h', st', w')" and run: "\<not> finished h"
  shows "good_step n k A U (Req_Get name wr) h st w h' st' w'"
proof -
  let ?reg = "registered_nodes st"
  have T: "get_ok_at A ?reg w U name h" using before_thread [OF I] by simp
  note local = good_step_local [OF I]
  show ?thesis
  proof (cases h)
    case Get_Lookup
    let ?ms = "(store st)\<lparr>read_count := read_count (store st) + 1\<rparr>"
    have s: "st' = st\<lparr>store := ?ms\<rparr>" "w' = w" and h': "h' = (case active_files (store st) name of
          None \<Rightarrow> Get_Return (Status NOT_FOUND ''File not found'') [] | Some meta \<Rightarrow> Get_Deref meta)"
      using step Get_Lookup by (auto simp: getFile_eq split: option.splits)
    have F: "files_ok A ?reg w U (store st)" using I by (simp add: before_step_def)
    show ?thesis
      unfolding s
    proof (rule lookup_good [OF I])
      show "ids_of (known h') \<subseteq> ids_of (known h) \<union> ids_of (all_chunks (store st))"
        using active_chunks [of "store st" name] by (auto simp: h' split: option.split)
      show "thread_ok A ?reg w U (Req_Get name wr) h'"
        using F describes_held by (fastforce simp: h' files_ok_def status_ok_def split: option.split)
    qed (simp_all add: h' split: option.split)
  next
    case (Get_Deref meta)
    have s: "st' = st" "w' = w" using step Get_Deref by (auto split: option.splits if_splits)
    consider (undefined) "h' = Undefined" | (same) "h' = Get_Loop meta 0 []"
      | (other) entry where "h' = Get_Loop (file_meta entry) 0 []" "map_of (entries (store st)) name = Some entry"
      using step Get_Deref by (auto split: option.splits if_splits)
    then show ?thesis
    proof cases
      case undefined
      then show ?thesis unfolding s by (intro local) (use Get_Deref in auto)
    next
      case same
      obtain d where "reading A ?reg w U name meta 0 [] d" using T Get_Deref by (auto simp: reading_def)
      then show ?thesis unfolding s by (intro local) (use same Get_Deref in auto)
    next
      case other
      have "is_file entry"
        using map_of_SomeD [OF other(2)] before_store_inv [OF I] by (auto simp: store_inv_def list_all_iff)
      then have active: "active_files (store st) name = Some (file_meta entry)" using other(2) by (simp add: active_files_def)
      have "files_ok A ?reg w U (store st)" using I by (simp add: before_step_def)
      then obtain d where "(name, d) \<in> U" "describes (held A ?reg w) (file_meta entry) d"
        using active unfolding files_ok_def by blast
      then have "reading A ?reg w U name (file_meta entry) 0 [] d" using describes_held by (simp add: reading_def)
      then show ?thesis
        unfolding s by (intro local) (use other(1) Get_Deref active_chunks [OF active] in auto)
    qed
  next
    case (Get_Loop meta i resps)
    obtain d where d: "reading A ?reg w U name meta i resps d" using T Get_Loop by auto
    then have len: "length (chunks meta) = upload_chunks d" "i \<le> upload_chunks d"
      using describes_length by (auto simp: reading_def)
    have s: "st' = st" "w' = w" and h': "(h' = Get_Return status_OK resps \<and> i = upload_chunks d) \<or> h' = Undefined \<or>
        (\<exists>status. h' = Get_Return status resps \<and> \<not> status_ok status) \<or>
        (h' = Get_Find meta i resps (node_ids (chunks meta ! i)) \<and> i < upload_chunks d)"
      using step Get_Loop len by (auto simp: read_failed_def status_ok_def split: if_splits)
    from h' have "get_ok_at A ?reg w U name h'"
    proof (elim disjE)
      assume "h' = Get_Return status_OK resps \<and> i = upload_chunks d"
      then show ?thesis using d by (auto simp: reading_def)
    next
      assume "h' = Get_Find meta i resps (node_ids (chunks meta ! i)) \<and> i < upload_chunks d"
      then show ?thesis using d len(1) by (auto simp: picking_def)
    qed auto
    then show ?thesis unfolding s by (intro local) (use h' Get_Loop in auto)
  next
    case (Get_Find meta i resps ids)
    have s: "st' = st" "w' = w" and h': "h' = Undefined \<or> (\<exists>status. h' = Get_Return status resps \<and> \<not> status_ok status) \<or>
        (\<exists>i1 is1. ids = i1 # is1 \<and> (h' = Get_Find meta i resps is1 \<or> h' = Get_Client meta i resps i1 is1))"
      using step Get_Find by (auto simp: read_failed_def status_ok_def split: if_splits list.splits option.splits)
    have "get_ok_at A ?reg w U name h'" using h' T Get_Find by (auto simp: picking_def)
    then show ?thesis unfolding s by (intro local) (use h' Get_Find in auto)
  next
    case (Get_Client meta i resps node_id ids)
    obtain d where d: "reading A ?reg w U name meta i resps d" and pick: "picking meta i (node_id # ids)"
      using T Get_Client by auto
    have s: "st' = st" "w' = w" and h': "h' = Undefined \<or>
        (\<exists>info. map_of ?reg node_id = Some info \<and> h' = Get_Call meta i resps info ids)"
      using step Get_Client by (auto split: option.splits)
    have "intact A ?reg w (chunks meta ! i) (chunk_slice d i)"
      by (rule describes_chunk) (use d pick in \<open>simp_all add: reading_def picking_def\<close>)
    then have "get_ok_at A ?reg w U name h'"
      using h' d pick unfolding intact_def by (fastforce simp: picking_def)
    then show ?thesis unfolding s by (intro local) (use h' Get_Client in auto)
  next
    case (Get_Call meta i resps info ids)
    show ?thesis using assms(1) I step unfolding Get_Call by (rule get_call_good)
  qed (use T run in simp_all)
qed

subsection \<open>Deletions, registrations, unregistrations\<close>

lemma delete_step_good:
  assumes I: "before_step n k A U (Req_Delete name t now) h st w"
    and step: "delete_step name t now h (st, w) = (h', st', w')" and run: "\<not> finished h"
  shows "good_step n k A U (Req_Delete name t now) h st w h' st' w'"
proof -
  have w: "sound w" using I by (simp add: before_step_def)
  consider "h = Delete_Lookup" | "h = Delete_Move" | "h = Delete_Test" | "h = Delete_Set"
    using before_thread [OF I] run by auto
  then show ?thesis
  proof cases
    case 1
    let ?ms = "(store st)\<lparr>read_count := read_count (store st) + 1\<rparr>"
    have s: "st' = st\<lparr>store := ?ms\<rparr>" "w' = w" and h': "h' = Delete_Move \<or> (\<exists>status resp. h' = Delete_Return status resp)"
      using step 1 by (auto simp: getFile_eq split: option.splits)
    show ?thesis unfolding s by (rule lookup_good [OF I]) (use h' in auto)
  next
    case 2
    then have s: "h' = Delete_Test" "st' = st\<lparr>store := deletePath name t now (store st)\<rparr>" "w' = w"
      using step by simp_all
    have "st' = st\<lparr>store := deletePath name t now (store st), next_node_index := next_node_index st,
        running := running st, cleanup_thread := cleanup_thread st\<rparr>" by (simp add: s(2))
    note quiet = good_step_quiet [OF I this]
    have "active_files (deletePath name t now (store st)) \<subseteq>\<^sub>m active_files (store st)"
      by (simp add: active_files_deletePath map_le_def)
    then show ?thesis
      unfolding s(1,3) by (intro quiet)
        (use before_store_inv [OF I] goes_on_refl [OF w] in \<open>simp_all add: store_inv_deletePath all_chunks_deletePath\<close>)
  next
    case 3
    then have s: "st' = st" "w' = w" and h': "h' = Delete_Set \<or> (\<exists>status resp. h' = Delete_Return status resp)"
      using step by (auto split: if_splits)
    show ?thesis unfolding s by (rule good_step_local [OF I]) (use h' in auto)
  next
    case 4
    then have s: "h' = Delete_Return status_OK \<lparr>dfs_success = True\<rparr>" "w' = w"
      and st': "st' = (if \<not> running st then st\<lparr>running := True, cleanup_thread := Some While_Test\<rparr> else st)"
      using step by simp_all
    have "st' = st\<lparr>store := store st, next_node_index := next_node_index st, running := True,
        cleanup_thread := (if \<not> running st then Some While_Test else cleanup_thread st)\<rparr>"
      by (cases "running st") (simp_all add: st')
    note quiet = good_step_quiet [OF I this before_store_inv [OF I]]
    show ?thesis unfolding s by (intro quiet) (use goes_on_refl [OF w] in simp_all)
  qed
qed

text \<open>An insertion under an identifier that has just been drawn leaves all other nodes alone.\<close>

lemma insert_good:
  assumes I: "before_step n k A U (Req_Register peer port) (Register_Insert i) st w"
    and step: "register_step rt peer port (Register_Insert i) (st, w) = (h', st', w')"
  shows "good_step n k A U (Req_Register peer port) (Register_Insert i) st w h' st' w'"
proof -
  let ?reg = "registered_nodes st"
  obtain info where s: "st' = st\<lparr>registered_nodes := AList.update i info ?reg\<rparr>" "w' = w"
    and h': "h' = registered i"
    using step by (simp add: Let_def registered_def) metis
  have B: "base_inv n k A st" "sound w" "own_ids n (Register_Insert i) (store st)" "files_ok A ?reg w U (store st)" "i \<notin> A"
    using I by (simp_all add: before_step_def own_nodes_def)
  have "map_of (AList.update i info ?reg) l = map_of ?reg l" if "l \<in> A" for l
    using that B(5) by (auto simp: update_conv)
  then have "registry_grows A ?reg (insert i A) (AList.update i info ?reg)"
    unfolding registry_grows_def by blast
  then have go: "goes_on B {} A ?reg w (insert i A) (AList.update i info ?reg) w" for B
    using B(2) by (simp add: goes_on_def)
  have "base_inv n k (insert i A) st'"
    using B(1) by (auto simp: base_inv_def s(1) dom_update distinct_update set_alist_update)
  moreover have "files_ok (insert i A) (AList.update i info ?reg) w (U \<union> {}) (store st')"
    using files_ok_mono [OF B(4) go [of "{}"] subset_refl] by (simp add: s(1))
  moreover have "ids_step n (Register_Insert i) (store st) n h' (store st')"
    by (rule ids_step_quiet [OF B(3)]) (simp_all add: s(1) h' registered_def)
  moreover have "nodes_step k A (Register_Insert i) k (insert i A) h'" unfolding h' by (rule nodes_step_insert)
  ultimately show ?thesis
    unfolding good_step_def s(2)
    by (intro exI [of _ n] exI [of _ k] exI [of _ "insert i A"] exI [of _ "{}"]) (simp add: s(1) h' registered_def go)
qed

lemma register_step_good:
  assumes "k < 2 ^ 32 - 1"
    and I: "before_step n k A U (Req_Register peer port) h st w"
    and step: "register_step rt peer port h (st, w) = (h', st', w')" and run: "\<not> finished h"
  shows "good_step n k A U (Req_Register peer port) h st w h' st' w'"
proof -
  consider "h = Register_Check" | "h = Register_Draw" | i where "h = Register_Insert i"
    using before_thread [OF I] run by auto
  then show ?thesis
  proof cases
    case 1
    then have s: "st' = st" "w' = w" and h': "h' = Register_Draw \<or> (\<exists>status resp. h' = Register_Return status resp)"
      using step by (auto split: option.splits)
    show ?thesis unfolding s by (rule good_step_local [OF I]) (use h' in auto)
  next
    case 2
    have B: "base_inv n k A st" "sound w" "own_ids n h (store st)" "own_nodes k A h"
        "files_ok A (registered_nodes st) w U (store st)"
      using I by (simp_all add: before_step_def)
    have s: "h' = Register_Insert (of_nat (Suc k))" "st' = st\<lparr>next_node_id := next_node_id st + 1\<rparr>" "w' = w"
      using step 2 B(1) by (auto simp: base_inv_def)
    have "base_inv n (Suc k) A st'" using B(1) by (simp add: base_inv_def s(2))
    moreover have "files_ok A (registered_nodes st) w (U \<union> {}) (store st')" using B(5) by (simp add: s(2))
    moreover have "ids_step n h (store st) n h' (store st')"
      by (rule ids_step_quiet [OF B(3)]) (simp_all add: s(1,2))
    moreover have "nodes_step k A h (Suc k) A h'" unfolding s(1) by (rule nodes_step_draw [OF assms(1) B(4)])
    ultimately show ?thesis
      unfolding good_step_def s(3)
      by (intro exI [of _ n] exI [of _ "Suc k"] exI [of _ A] exI [of _ "{}"]) (simp add: s(1,2) goes_on_refl B(2))
  next
    case 3
    show ?thesis using I step unfolding 3 by (rule insert_good)
  qed
qed

lemma unregister_step_good:
  assumes I: "before_step n k A U (Req_Unregister i) h st w"
    and step: "unregister_step i h (st, w) = (h', st', w')" and run: "\<not> finished h"
  shows "good_step n k A U (Req_Unregister i) h st w h' st' w'"
proof -
  let ?reg = "registered_nodes st"
  have B: "base_inv n k A st" "sound w" "own_ids n h (store st)" "files_ok A ?reg w U (store st)"
    using I by (simp_all add: before_step_def)
  consider "h = Unregister_Find" | (erase) "h = Unregister_Erase" using before_thread [OF I] run by auto
  then show ?thesis
  proof cases
    case 1
    then have s: "st' = st" "w' = w" and h': "h' = Unregister_Erase \<or> (\<exists>status resp. h' = Unregister_Return status resp)"
      using step by (auto split: option.splits)
    show ?thesis unfolding s by (rule good_step_local [OF I]) (use h' in auto)
  next
    case erase
    have w': "w' = w" and s: "(h' = Undefined \<and> st' = st) \<or>
        ((\<exists>status resp. h' = Unregister_Return status resp) \<and> st' = st\<lparr>registered_nodes := AList.delete i ?reg\<rparr>)"
      using step erase by (auto split: if_splits)
    from s show ?thesis
    proof
      assume s: "h' = Undefined \<and> st' = st"
      show ?thesis unfolding w' s [THEN conjunct1] s [THEN conjunct2] by (rule good_step_local [OF I]) simp_all
    next
      assume s: "(\<exists>status resp. h' = Unregister_Return status resp) \<and> st' = st\<lparr>registered_nodes := AList.delete i ?reg\<rparr>"
      have "registry_grows A ?reg A (AList.delete i ?reg)"
        by (auto simp: registry_grows_def delete_conv)
      then have go: "goes_on B {} A ?reg w A (AList.delete i ?reg) w" for B
        using B(2) by (simp add: goes_on_def)
      have "base_inv n k A st'"
        using B(1) s by (auto simp: base_inv_def set_alist_delete AList.delete_eq distinct_map_filter)
      moreover have "files_ok A (AList.delete i ?reg) w (U \<union> {}) (store st')"
        using files_ok_mono [OF B(4) go [of "{}"] subset_refl] s by simp
      moreover have "ids_step n h (store st) n h' (store st')"
        by (rule ids_step_quiet [OF B(3)]) (use s in auto)
      moreover have "nodes_step k A h k A h'" by (rule nodes_step_quiet) (use s in auto)
      ultimately show ?thesis
        using s unfolding good_step_def w'
        by (intro exI [of _ n] exI [of _ k] exI [of _ A] exI [of _ "{}"]) (auto simp: go)
    qed
  qed
qed

lemma advance_good:
  assumes "client_factory rt = create" "good_runtime rt" "n < 2 ^ 31" "k < 2 ^ 32 - 1"
    and "before_step n k A U r h st w"
    and "advance rt j r h (st, w) = (h', st', w')" "\<not> finished h"
  shows "good_step n k A U r h st w h' st' w'"
proof (cases r)
  case (Req_Put reqs)
  show ?thesis using assms(1-3,5-7) unfolding Req_Put advance.simps by (intro put_step_good)
next
  case (Req_Get name wr)
  show ?thesis using assms(1,5-7) unfolding Req_Get advance.simps by (intro get_step_good)
next
  case (Req_Delete name t now)
  show ?thesis using assms(5-7) unfolding Req_Delete advance.simps by (intro delete_step_good)
next
  case (Req_Register peer port)
  show ?thesis using assms(4-7) unfolding Req_Register advance.simps by (intro register_step_good)
next
  case (Req_Unregister i)
  show ?thesis using assms(5-7) unfolding Req_Unregister advance.simps by (intro unregister_step_good)
qed

end

end
