(* ===== verification/Interleaving_Invariant.thy ===== *)
theory Interleaving_Invariant
  imports Thread_Steps
begin

text \<open>
  The invariant of the interleaved system, over any data nodes that meet the contract
  \<open>dfs_nodes\<close>, and that every move keeps it.
\<close>

section \<open>The invariant\<close>

text \<open>
  What a round of the cleanup relies on: its iterator points into the deque, and the chunks
  it deletes are those of the tombstone there.
\<close>

definition doomed :: "MetadataStore \<Rightarrow> nat \<Rightarrow> string set" where
  "doomed ms pos = ids_of (chunks (fst (snd (deleted_entries ms ! pos))))"

fun sweep_ok :: "MetadataStore \<Rightarrow> sweep \<Rightarrow> bool" where
  "sweep_ok ms (Sweep_Find now pos left) \<longleftrightarrow>
     pos < length (deleted_entries ms) \<and> fst ` set left \<subseteq> doomed ms pos"
| "sweep_ok ms (Sweep_Client now pos cid i left) \<longleftrightarrow>
     pos < length (deleted_entries ms) \<and> cid \<in> doomed ms pos \<and> fst ` set left \<subseteq> doomed ms pos"
| "sweep_ok ms (Sweep_Call now pos cid i info left) \<longleftrightarrow>
     pos < length (deleted_entries ms) \<and> cid \<in> doomed ms pos \<and> fst ` set left \<subseteq> doomed ms pos"
| "sweep_ok ms sw \<longleftrightarrow> True"

lemma doomed_chunks:
  assumes "pos < length (deleted_entries ms)"
  shows "doomed ms pos \<subseteq> ids_of (all_chunks ms)"
proof -
  have "deleted_entries ms ! pos \<in> set (deleted_entries ms)" using assms by (rule nth_mem)
  then show ?thesis by (auto simp: doomed_def all_chunks_def store_metas_def)
qed

lemma doomed_not_active:
  assumes "pos < length (deleted_entries ms)" "distinct (map chunk_id (all_chunks ms))" "active_files ms p = Some meta"
  shows "ids_of (chunks meta) \<inter> doomed ms pos = {}"
  using active_not_deleted [OF assms(2,3) nth_mem [OF assms(1)]] by (auto simp: doomed_def)

context dfs_nodes
begin

definition system_inv :: "nat \<Rightarrow> nat \<Rightarrow> int32 set \<Rightarrow> 'a system \<Rightarrow> bool" where
  "system_inv n k A s \<longleftrightarrow> base_inv n k A (coordinator s) \<and> sound (nodes s) \<and>
     ids_apart n (threads s) (store (coordinator s)) \<and> nodes_apart k A (threads s) \<and>
     sweep_ok (store (coordinator s)) (sweeper s) \<and>
     files_ok A (registered_nodes (coordinator s)) (nodes s) (uploads s) (store (coordinator s)) \<and>
     (\<forall>(r, h) \<in> set (threads s). thread_ok A (registered_nodes (coordinator s)) (nodes s) (uploads s) r h) \<and>
     A \<subseteq> enrolled s"

lemma system_invD:
  assumes "system_inv n k A s"
  shows "base_inv n k A (coordinator s)" "sound (nodes s)" "ids_apart n (threads s) (store (coordinator s))"
    "nodes_apart k A (threads s)" "sweep_ok (store (coordinator s)) (sweeper s)"
    "files_ok A (registered_nodes (coordinator s)) (nodes s) (uploads s) (store (coordinator s))"
    "(r, h) \<in> set (threads s) \<Longrightarrow> thread_ok A (registered_nodes (coordinator s)) (nodes s) (uploads s) r h"
    "A \<subseteq> enrolled s"
proof -
  show "thread_ok A (registered_nodes (coordinator s)) (nodes s) (uploads s) r h" if "(r, h) \<in> set (threads s)"
    using assms bspec [OF _ that] unfolding system_inv_def by fast
qed (use assms in \<open>simp_all only: system_inv_def\<close>)

lemma system_inv_start: "sound w \<Longrightarrow> system_inv 0 0 {} (start_system w)"
  by (simp add: system_inv_def start_system_def base_inv_def ids_apart_def nodes_apart_def files_ok_def store_inv_empty
      new_CoordinatorServiceImpl_def active_files_def all_chunks_def store_metas_def)
    (simp_all add: empty_MetadataStore_def)

text \<open>A move that touches no thread and adds no file.\<close>

lemma system_inv_other:
  assumes S: "system_inv n k A s" and B: "base_inv n k A st'"
    and D: "D \<subseteq> ids_of (all_chunks (store (coordinator s)))"
      "\<And>p meta. active_files (store (coordinator s)) p = Some meta \<Longrightarrow> ids_of (chunks meta) \<inter> D = {}"
    and go: "goes_on {} D A (registered_nodes (coordinator s)) (nodes s) A (registered_nodes st') w'"
    and ms: "mset (all_chunks (store st')) \<subseteq># mset (all_chunks (store (coordinator s)))"
      "active_files (store st') \<subseteq>\<^sub>m active_files (store (coordinator s))"
    and sw: "sweep_ok (store st') sw"
  shows "system_inv n k A (s\<lparr>sweeper := sw, coordinator := st', nodes := w', cleanup_output := l\<rparr>)"
proof -
  note S' = system_invD [OF S]
  have "sound w'" using go changes_sound by (auto simp: goes_on_def)
  moreover have "files_ok A (registered_nodes st') w' (uploads s) (store st')"
    by (rule files_ok_goes_on [OF S'(6) go subset_refl ms(2)]) (use D(2) in simp)
  moreover have "thread_ok A (registered_nodes st') w' (uploads s) r h" if "(r, h) \<in> set (threads s)" for r h
  proof (rule thread_ok_goes_on [OF S'(7) [OF that] go subset_refl])
    obtain i where i: "i < length (threads s)" "threads s ! i = (r, h)" using \<open>(r, h) \<in> set (threads s)\<close> by (auto simp: in_set_conv_nth)
    show "set (busy h) \<inter> ({} \<union> D) = {}" using ids_apartD(2) [OF S'(3) i] D(1) by fast
  qed simp
  then have "\<forall>(r, h) \<in> set (threads s). thread_ok A (registered_nodes st') w' (uploads s) r h" by fast
  ultimately show ?thesis
    using B S'(4,8) sw ids_apart_store [OF S'(3) ms(1)] by (simp add: system_inv_def uploads_def enrolled_def)
qed

end

lemma registry_grows_trans:
  assumes "registry_grows A reg A' reg'" "registry_grows A' reg' A'' reg''"
  shows "registry_grows A reg A'' reg''"
proof -
  have "map_of reg'' i = map_of reg i \<or> map_of reg'' i = None" if "i \<in> A" for i
  proof -
    have "map_of reg' i = map_of reg i \<or> map_of reg' i = None" "i \<in> A'" using assms(1) that by (auto simp: registry_grows_def)
    moreover have "map_of reg'' i = map_of reg' i \<or> map_of reg'' i = None" using assms(2) \<open>i \<in> A'\<close> by (auto simp: registry_grows_def)
    ultimately show ?thesis by metis
  qed
  then show ?thesis using assms by (auto simp: registry_grows_def)
qed

section \<open>A thread moves\<close>

lemma returned_stays:
  assumes "threads s ! i = (r, h)" "advance rt j r h q = (h', q')"
    and "(r0, h0) \<in> set (threads s)" "finished h0"
  shows "(r0, h0) \<in> set ((threads s)[i := (r, h')])"
proof -
  obtain l where l: "l < length (threads s)" "threads s ! l = (r0, h0)"
    using assms(3) by (auto simp: in_set_conv_nth)
  have "(threads s)[i := (r, h')] ! l = (r0, h0)"
  proof (cases "l = i")
    case True
    then have rh: "r = r0" "h = h0" using l assms(1) by simp_all
    then have "h' = h0" using assms(2,4) advance_finished [of h rt j r q] by simp
    then show ?thesis using l(1) True rh by simp
  qed (use l in simp)
  then show ?thesis using l(1) by (metis length_list_update nth_mem)
qed

lemma uploads_update:
  assumes "threads s ! i = (r, h)" "advance rt j r h q = (h', q')"
  shows "uploads s \<subseteq> uploads (s\<lparr>threads := (threads s)[i := (r, h')], coordinator := st', nodes := w'\<rparr>)"
  using returned_stays [OF assms] by (fastforce simp: uploads_def)

lemma enrolled_update:
  assumes "threads s ! i = (r, h)" "advance rt j r h q = (h', q')"
  shows "enrolled s \<subseteq> enrolled (s\<lparr>threads := (threads s)[i := (r, h')], coordinator := st', nodes := w'\<rparr>)"
  using returned_stays [OF assms] by (fastforce simp: enrolled_def)

lemma enrolled_insert:
  assumes "i < length (threads s)" "advance rt j r (Register_Insert l) q = (registered l, q')"
  shows "l \<in> enrolled (s\<lparr>threads := (threads s)[i := (r, registered l)], coordinator := st', nodes := w'\<rparr>)"
proof -
  obtain peer port where "r = Req_Register peer port"
    using assms(2) by (cases q; cases r) (simp_all add: registered_def)
  then show ?thesis
    using set_update_memI [OF assms(1), of "(r, registered l)"]
    by (auto simp: enrolled_def registered_def intro!: exI)
qed

lemma own_ids_thread:
  assumes "ids_apart n T ms" "i < length T" "T ! i = (r, h)"
  shows "own_ids n h ms"
proof -
  have "distinct (map chunk_id (all_chunks ms))" "ids_of (all_chunks ms) \<subseteq> chunk_name ` {..<n}"
    using assms(1) by (simp_all only: ids_apart_def)
  then show ?thesis using ids_apartD [OF assms] unfolding own_ids_def by iprover
qed

lemma own_nodes_thread:
  assumes "nodes_apart k A T" "i < length T" "T ! i = (r, h)"
  shows "own_nodes k A h"
proof -
  have "A \<subseteq> of_nat ` {1..k}" using assms(1) by (simp only: nodes_apart_def)
  then show ?thesis using nodes_apartD(2) [OF assms] by (simp add: own_nodes_def)
qed

context dfs_nodes
begin

lemma system_inv_thread:
  assumes "client_factory rt = create" "good_runtime rt" "n < 2 ^ 31" "k < 2 ^ 32 - 1" and S: "system_inv n k A s"
    and i: "i < length (threads s)" "threads s ! i = (r, h)" and free: "sweeper s = Sweep_Idle \<or> \<not> needs_mutex r h"
    and step: "advance rt j r h (coordinator s, nodes s) = (h', st', w')"
  shows "\<exists>n' k' A'. n \<le> n' \<and> n' \<le> Suc n \<and> k' \<le> Suc k \<and>
    registry_grows A (registered_nodes (coordinator s)) A' (registered_nodes st') \<and>
    system_inv n' k' A' (s\<lparr>threads := (threads s)[i := (r, h')], coordinator := st', nodes := w'\<rparr>)"
proof (cases "finished h")
  case True
  have e: "h' = h" "st' = coordinator s" "w' = nodes s" using advance_finished [OF True, of rt j r] step by simp_all
  then have "s\<lparr>threads := (threads s)[i := (r, h')], coordinator := st', nodes := w'\<rparr> = s"
    using i list_update_id [of "threads s" i] by simp
  then show ?thesis using S e(2) by (intro exI [of _ n] exI [of _ k] exI [of _ A]) simp
next
  case False
  let ?st = "coordinator s" and ?reg = "registered_nodes (coordinator s)"
  let ?s = "s\<lparr>threads := (threads s)[i := (r, h')], coordinator := st', nodes := w'\<rparr>"
  note S' = system_invD [OF S]
  have "(r, h) \<in> set (threads s)" using nth_mem [OF i(1)] i(2) by simp
  from S'(7) [OF this] have "before_step n k A (uploads s) r h ?st (nodes s)"
    using S'(1,2,6) own_ids_thread [OF S'(3) i] own_nodes_thread [OF S'(4) i] by (simp add: before_step_def)
  from advance_good [OF assms(1-4) this step False]
  obtain n' k' A' U' where g: "base_inv n' k' A' st'"
    "goes_on (set (busy h)) {} A ?reg (nodes s) A' (registered_nodes st') w'"
    "ids_step n h (store ?st) n' h' (store st')" "nodes_step k A h k' A' h'"
    "U' = {} \<or> (\<exists>reqs resp. r = Req_Put reqs \<and> h' = Put_Return status_OK resp \<and> U' = {(upload_name reqs, upload_data reqs)})"
    "files_ok A' (registered_nodes st') w' (uploads s \<union> U') (store st')"
    "thread_ok A' (registered_nodes st') w' (uploads s) r h'"
    unfolding good_step_def by (elim exE conjE) (rule that)
  have up: "uploads s \<subseteq> uploads ?s" by (rule uploads_update [OF i(2) step])
  have "(r, h') \<in> set (threads ?s)" using i(1) by (simp add: set_update_memI)
  then have "U' \<subseteq> uploads ?s" using g(5) by (auto simp: uploads_def)
  with up have U: "uploads s \<union> U' \<subseteq> uploads ?s" by simp
  have sound: "sound w'" using g(2) changes_sound by (auto simp: goes_on_def)
  have refl: "goes_on {} {} A' (registered_nodes st') w' A' (registered_nodes st') w'" by (rule goes_on_refl [OF sound])
  have "ids_apart n' ((threads s)[i := (r, h')]) (store st')"
    using g(3) unfolding ids_step_def by (intro ids_apart_step [OF S'(3) i]) simp_all
  moreover obtain F where F: "k \<le> k'" "drawn h' \<subseteq> drawn h \<union> F" "F \<inter> of_nat ` {1..k} = {}" "F \<subseteq> of_nat ` {1..k'}"
      "A' \<subseteq> A \<union> drawn h" "drawn h' \<inter> A' = {}" and A': "\<forall>l \<in> A'. l \<in> A \<or> h = Register_Insert l \<and> h' = registered l"
    using g(4) unfolding nodes_step_def by (elim exE conjE) (rule that)
  have "l \<in> enrolled ?s" if "l \<in> A'" for l
  proof (cases "l \<in> A")
    case True
    then show ?thesis using S'(8) enrolled_update [OF i(2) step] by fast
  next
    case False
    then have "h = Register_Insert l \<and> h' = registered l" using A' that by blast
    then show ?thesis using enrolled_insert [OF i(1), of rt j r l] step by (cases "(st', w')") simp
  qed
  then have enr: "A' \<subseteq> enrolled ?s" by blast
  have "nodes_apart k' A' ((threads s)[i := (r, h')])" by (rule nodes_apart_step [OF S'(4) i F])
  moreover have "files_ok A' (registered_nodes st') w' (uploads ?s) (store st')"
    by (rule files_ok_mono [OF g(6) refl U]) simp_all
  moreover have "sweep_ok (store st') (sweeper s)"
  proof (cases "sweeper s = Sweep_Idle")
    case False
    then have "store st' = store ?st" using free without_mutex [of r h rt j "(?st, nodes s)"] step by simp
    then show ?thesis using S'(5) by simp
  qed simp
  moreover
  have "thread_ok A' (registered_nodes st') w' (uploads ?s) r2 h2" if "(r2, h2) \<in> set (threads ?s)" for r2 h2
  proof -
    from that obtain l where l: "l < length (threads s)" "(threads s)[i := (r, h')] ! l = (r2, h2)"
      by (auto simp: in_set_conv_nth)
    show ?thesis
    proof (cases "l = i")
      case True
      then show ?thesis using thread_ok_goes_on [OF g(7) refl up] l by simp
    next
      case False
      then have l2: "threads s ! l = (r2, h2)" using l by simp
      have "(r2, h2) \<in> set (threads s)" using l(1) l2 by (metis nth_mem)
      from thread_ok_goes_on [OF S'(7) [OF this] g(2) up] show ?thesis
        using ids_apartD(5,6) [OF S'(3) i l(1) l2] False by (simp add: Int_commute)
    qed
  qed
  then have "\<forall>(r2, h2) \<in> set (threads ?s). thread_ok A' (registered_nodes st') w' (uploads ?s) r2 h2" by fast
  ultimately have "system_inv n' k' A' ?s"
    using g(1) sound enr unfolding system_inv_def by simp
  moreover have "n \<le> n'" "n' \<le> Suc n" "k' \<le> Suc k" "registry_grows A ?reg A' (registered_nodes st')"
    using g(2-4) by (simp_all add: ids_step_def nodes_step_def goes_on_def)
  ultimately show ?thesis by blast
qed

lemma system_inv_arrive:
  assumes S: "system_inv n k A s"
  shows "system_inv n k A (s\<lparr>threads := threads s @ [(r, entry_point r)]\<rparr>)"
proof -
  let ?s = "s\<lparr>threads := threads s @ [(r, entry_point r)]\<rparr>" and ?reg = "registered_nodes (coordinator s)"
  have e: "busy (entry_point r) = []" "known (entry_point r) = []" "drawn (entry_point r) = {}" by (cases r; simp)+
  have up: "uploads s \<subseteq> uploads ?s" by (auto simp: uploads_def)
  have refl: "goes_on {} {} A ?reg (nodes s) A ?reg (nodes s)"
    using S goes_on_refl by (simp add: system_inv_def)
  have "ids_apart n (threads ?s) (store (coordinator s))" "nodes_apart k A (threads ?s)"
    using S ids_apart_arrive [OF _ e(1,2)] nodes_apart_arrive [OF _ e(3)] by (simp_all add: system_inv_def)
  moreover have "files_ok A ?reg (nodes s) (uploads ?s) (store (coordinator s))"
    using S files_ok_mono [OF _ refl up _ map_le_refl] by (simp add: system_inv_def)
  moreover have "thread_ok A ?reg (nodes s) (uploads ?s) r (entry_point r)" by (cases r) simp_all
  moreover have "\<forall>(r, h) \<in> set (threads s). thread_ok A ?reg (nodes s) (uploads ?s) r h"
    using S thread_ok_goes_on [OF _ refl up] by (fastforce simp: system_inv_def)
  moreover have "A \<subseteq> enrolled ?s"
    by (rule order_trans [OF system_invD(8) [OF S] enrolled_mono]) auto
  ultimately show ?thesis using S by (simp add: system_inv_def)
qed

section \<open>The worker moves\<close>

lemma system_inv_worker:
  assumes S: "system_inv n k A s" and "cleanup_thread (coordinator s) \<noteq> Some Cleaning"
    and step: "cleanupWorker_step rt now (coordinator s, nodes s, cleanup_output s) = (st', w', log')"
  shows "system_inv n k A (s\<lparr>coordinator := st', nodes := w', cleanup_output := log'\<rparr>)"
proof -
  have "w' = nodes s" "st' = coordinator s \<or> (\<exists>pc. st' = (coordinator s)\<lparr>cleanup_thread := pc\<rparr>)"
    using assms(2) step by (auto split: option.splits worker_pc.splits)
  moreover have "coordinator s = (coordinator s)\<lparr>cleanup_thread := cleanup_thread (coordinator s)\<rparr>" by simp
  ultimately obtain pc where e: "st' = (coordinator s)\<lparr>cleanup_thread := pc\<rparr>" "w' = nodes s" by metis
  have "system_inv n k A (s\<lparr>sweeper := sweeper s, coordinator := st', nodes := w', cleanup_output := log'\<rparr>)"
    by (rule system_inv_other [OF S, where D = "{}"])
      (use S in \<open>simp_all add: e system_inv_def base_inv_def goes_on_refl\<close>)
  then show ?thesis by simp
qed

lemma remove_tombstone_chunks:
  assumes "pos < length (deleted_entries ms)"
  shows "mset (all_chunks (ms\<lparr>deleted_entries := take pos (deleted_entries ms) @ drop (Suc pos) (deleted_entries ms),
      tombstone_count := tc\<rparr>)) \<subseteq># mset (all_chunks ms)"
proof -
  let ?d = "deleted_entries ms"
  have "mset (concat (map f (take pos ?d @ drop (Suc pos) ?d))) \<subseteq># mset (concat (map f ?d))" for f :: "tombstone \<Rightarrow> ChunkInfo list"
  proof -
    have "map f ?d = map f (take pos ?d) @ f (?d ! pos) # map f (drop (Suc pos) ?d)"
      using id_take_nth_drop [OF assms] by (metis list.simps(9) map_append)
    then show ?thesis by simp
  qed
  then show ?thesis by (simp add: all_chunks_def store_metas_def comp_def)
qed

lemma doomed_valid:
  assumes "system_inv n k A s" "n \<le> 2 ^ 31" "pos < length (deleted_entries (store (coordinator s)))"
    and "cid \<in> doomed (store (coordinator s)) pos"
  shows "valid cid"
proof -
  have "ids_of (all_chunks (store (coordinator s))) \<subseteq> chunk_name ` {..<n}"
    using system_invD(3) [OF assms(1)] by (simp only: ids_apart_def)
  from subsetD [OF this subsetD [OF doomed_chunks [OF assms(3)] assms(4)]]
  obtain j where "j < n" "cid = chunk_name j" by auto
  then show ?thesis using valid_name [of j] assms(2) by simp
qed

text \<open>A step of a round changes the clock, the position, one tombstone or one chunk on one node.\<close>

lemma sweep_find_inv:
  assumes S: "system_inv n k A s" and sw: "sweeper s = Sweep_Find now' pos left"
    and step: "sweep_step rt now (sweeper s, coordinator s, nodes s, cleanup_output s) = (sw', st', w', log')"
  shows "system_inv n k A (s\<lparr>sweeper := sw', coordinator := st', nodes := w', cleanup_output := log'\<rparr>)"
proof (cases left)
  case Nil
  let ?ms = "store (coordinator s)"
  let ?ms' = "?ms\<lparr>deleted_entries := take pos (deleted_entries ?ms) @ drop (Suc pos) (deleted_entries ?ms),
    tombstone_count := tombstone_count ?ms - 1\<rparr>"
  have e: "sw' = Sweep_Scan now' pos" "st' = (coordinator s)\<lparr>store := ?ms'\<rparr>" "w' = nodes s"
    using step sw Nil by simp_all
  have I: "base_inv n k A (coordinator s)" "sound (nodes s)" "pos < length (deleted_entries ?ms)"
    using S sw by (simp_all add: system_inv_def)
  have len: "Suc (length (take pos (deleted_entries ?ms) @ drop (Suc pos) (deleted_entries ?ms))) = length (deleted_entries ?ms)"
    using I(3) by simp
  have "tombstone_count ?ms - 1 = of_nat (length (take pos (deleted_entries ?ms) @ drop (Suc pos) (deleted_entries ?ms)))"
    using I(1) len unfolding base_inv_def store_inv_def by (metis add_diff_cancel_left' of_nat_Suc)
  then have "store_inv ?ms'" using I(1) by (simp add: base_inv_def store_inv_def)
  then have "base_inv n k A st'" using I(1) by (simp add: base_inv_def e)
  note other = system_inv_other [OF S this, where D = "{}"]
  show ?thesis
    using other [of w' sw' log'] remove_tombstone_chunks [OF I(3)] goes_on_refl [OF I(2)] by (simp add: e)
next
  case (Cons q left')
  then have e: "st' = coordinator s" "w' = nodes s"
    and sw': "(\<exists>now pos. sw' = Sweep_Find now' pos left') \<or> (\<exists>cid i. q = (cid, i) \<and> sw' = Sweep_Client now' pos cid i left')"
    using step sw by (auto split: prod.splits option.splits)
  have I: "base_inv n k A (coordinator s)" "sound (nodes s)" "sweep_ok (store (coordinator s)) (Sweep_Find now' pos (q # left'))"
    using S sw Cons by (simp_all add: system_inv_def)
  have "sweep_ok (store (coordinator s)) sw'" using step sw Cons I(3) by (auto split: prod.splits option.splits)
  then show ?thesis
    using system_inv_other [OF S I(1), of "{}" w' sw' log'] goes_on_refl [OF I(2)] by (simp add: e)
qed

lemma system_inv_sweep:
  assumes "client_factory rt = create" "n \<le> 2 ^ 31" and S: "system_inv n k A s"
    and step: "sweep_step rt now (sweeper s, coordinator s, nodes s, cleanup_output s) = (sw', st', w', log')"
  shows "system_inv n k A (s\<lparr>sweeper := sw', coordinator := st', nodes := w', cleanup_output := log'\<rparr>)"
proof -
  let ?st = "coordinator s"
  have I: "base_inv n k A ?st" "sound (nodes s)" "sweep_ok (store ?st) (sweeper s)"
    using S by (simp_all add: system_inv_def)
  have other: "system_inv n k A (s\<lparr>sweeper := sw', coordinator := st', nodes := w', cleanup_output := log'\<rparr>)"
    if h: "\<exists>pc. st' = ?st\<lparr>cleanup_thread := pc\<rparr>" "sweep_ok (store ?st) sw'"
      and D: "D \<subseteq> ids_of (all_chunks (store ?st))"
        "\<And>p meta. active_files (store ?st) p = Some meta \<Longrightarrow> ids_of (chunks meta) \<inter> D = {}"
      and ch: "changes (\<lambda>c v. c \<in> D \<and> v = None) (nodes s) w'" for D
  proof -
    have go: "goes_on {} D A (registered_nodes ?st) (nodes s) A (registered_nodes ?st) w'"
      by (rule goes_on_changes [OF ch]) simp
    obtain pc where pc: "st' = ?st\<lparr>cleanup_thread := pc\<rparr>" using h(1) by blast
    have "base_inv n k A st'" using I(1) by (simp add: base_inv_def pc)
    note inv = system_inv_other [OF S this D]
    show ?thesis using go h(2) by (intro inv) (simp_all add: pc)
  qed
  note quiet = other [of "{}"]
  have same: "\<exists>pc. ?st = ?st\<lparr>cleanup_thread := pc\<rparr>" by (intro exI [of _ "cleanup_thread ?st"]) simp
  note still = changes_refl [OF I(2)]
  show ?thesis
  proof (cases "sweeper s")
    case Sweep_Idle
    then show ?thesis using step by (intro quiet) (use same still in \<open>auto split: if_splits\<close>)
  next
    case Sweep_Undefined
    then show ?thesis using step by (intro quiet) (use same still in auto)
  next
    case (Sweep_Scan now' pos)
    show ?thesis
    proof (cases "length (deleted_entries (store ?st)) \<le> pos")
      case True
      then show ?thesis using step Sweep_Scan by (intro quiet) (use still in auto)
    next
      case False
      obtain path meta t where d: "deleted_entries (store ?st) ! pos = (path, meta, t)" by (metis prod.exhaust)
      then have "fst ` set (replicas meta) \<subseteq> doomed (store ?st) pos" by (auto simp: doomed_def replicas_def)
      then show ?thesis
        using step Sweep_Scan False d by (intro quiet) (use same still in \<open>auto simp: Let_def split: if_splits\<close>)
    qed
  next
    case (Sweep_Find now' pos left)
    show ?thesis by (rule sweep_find_inv [OF S Sweep_Find step])
  next
    case (Sweep_Client now' pos cid i left)
    then show ?thesis using step I(3) by (intro quiet) (use same still in \<open>auto split: option.splits\<close>)
  next
    case (Sweep_Call now' pos cid i info left)
    then have c: "pos < length (deleted_entries (store ?st))" "cid \<in> doomed (store ?st) pos"
      and left: "sweep_ok (store ?st) (Sweep_Find now' pos left)" using I(3) by simp_all
    have v: "valid cid" by (rule doomed_valid [OF S assms(2) c])
    have ids: "distinct (map chunk_id (all_chunks (store ?st)))" using system_invD(3) [OF S] by (simp only: ids_apart_def)
    have D: "{cid} \<subseteq> ids_of (all_chunks (store ?st))"
        "\<And>p meta. active_files (store ?st) p = Some meta \<Longrightarrow> ids_of (chunks meta) \<inter> {cid} = {}"
      using doomed_chunks [OF c(1)] doomed_not_active [OF c(1) ids] c(2) by blast+
    have "changes (\<lambda>c v. c \<in> {cid} \<and> v = None) (nodes s) (snd (DeleteChunk (create (info_address info) (info_port info)) cid (nodes s)))"
      by (rule changes_mono [OF del_changes [OF I(2) v]]) (simp add: only_def)
    moreover have "st' = ?st" "sw' = Sweep_Find now' pos left"
        "w' = snd (DeleteChunk (create (info_address info) (info_port info)) cid (nodes s))"
      using step Sweep_Call assms(1) by (auto simp: Let_def split: prod.splits)
    ultimately show ?thesis using left same by (intro other [OF _ _ D]) simp_all
  qed
qed

section \<open>Every move keeps it\<close>

text \<open>There are at most as many registered nodes as identifiers drawn.\<close>

lemma system_few_nodes:
  assumes "system_inv n k A s" "k + 3 \<le> 2 ^ 31"
  shows "few_nodes (coordinator s)"
proof -
  have d: "distinct (map fst (registered_nodes (coordinator s)))" "fst ` set (registered_nodes (coordinator s)) \<subseteq> A"
    using system_invD(1) [OF assms(1)] by (simp_all add: base_inv_def)
  have "A \<subseteq> of_nat ` {1..k}" using system_invD(4) [OF assms(1)] by (simp only: nodes_apart_def)
  with d(2) have "set (map fst (registered_nodes (coordinator s))) \<subseteq> (of_nat :: nat \<Rightarrow> int32) ` {1..k}" by auto
  then have "card (set (map fst (registered_nodes (coordinator s)))) \<le> card ((of_nat :: nat \<Rightarrow> int32) ` {1..k})"
    by (intro card_mono) auto
  also have "\<dots> \<le> k" using card_image_le [of "{1..k}" "of_nat :: nat \<Rightarrow> int32"] by simp
  finally show ?thesis using distinct_card [OF d(1)] assms(2) by (simp add: few_nodes_def)
qed

text \<open>Every move keeps the invariant, and draws one chunk or node identifier at most.\<close>

lemma system_inv_move:
  assumes "move rt s s'" "client_factory rt = create" "good_runtime rt"
    and "system_inv n k A s" "n < 2 ^ 31" "k < 2 ^ 32 - 1"
  shows "\<exists>n' k' A'. n \<le> n' \<and> n' \<le> Suc n \<and> k' \<le> Suc k \<and>
    registry_grows A (registered_nodes (coordinator s)) A' (registered_nodes (coordinator s')) \<and> system_inv n' k' A' s'"
  using assms(1)
proof cases
  case (arrive r)
  then show ?thesis using system_inv_arrive [OF assms(4), of r] by (intro exI [of _ n] exI [of _ k] exI [of _ A]) simp
next
  case (thread i r h j h' st' w')
  from system_inv_thread [OF assms(2,3,5,6,4) thread(2-5)] thread(1) show ?thesis by simp
next
  case (worker now st' w' log')
  have "registered_nodes st' = registered_nodes (coordinator s)"
    using worker(2,3) by (auto split: option.splits worker_pc.splits)
  with system_inv_worker [OF assms(4) worker(2,3)] worker(1)
  show ?thesis by (intro exI [of _ n] exI [of _ k] exI [of _ A]) simp
next
  case (sweep now sw' st' w' log')
  have "registered_nodes st' = registered_nodes (coordinator s)"
    using sweep(2)
    by (cases "(rt, now, sweeper s, coordinator s, nodes s, cleanup_output s)" rule: sweep_step.cases)
      (auto simp: Let_def split: if_splits list.splits prod.splits option.splits)
  moreover have "n \<le> 2 ^ 31" using assms(5) by simp
  ultimately show ?thesis
    using system_inv_sweep [OF assms(2) _ assms(4) sweep(2)] sweep(1)
    by (intro exI [of _ n] exI [of _ k] exI [of _ A]) simp
qed

lemma system_inv_moves:
  assumes "client_factory rt = create" "good_runtime rt" "system_inv n k A s"
  shows "(move rt ^^ m) s s' \<Longrightarrow> n + m \<le> 2 ^ 31 \<Longrightarrow> k + m \<le> 2 ^ 31 \<Longrightarrow>
    \<exists>n' k' A'. n' \<le> n + m \<and> k' \<le> k + m \<and>
      registry_grows A (registered_nodes (coordinator s)) A' (registered_nodes (coordinator s')) \<and> system_inv n' k' A' s'"
proof (induction m arbitrary: s')
  case 0
  then show ?case using assms(3) by (intro exI [of _ n] exI [of _ k] exI [of _ A]) simp
next
  case (Suc m)
  from Suc.prems(1) obtain s1 where s1: "(move rt ^^ m) s s1" "move rt s1 s'" by auto
  obtain n1 k1 A1 where I: "n1 \<le> n + m" "k1 \<le> k + m" "system_inv n1 k1 A1 s1"
    and grow: "registry_grows A (registered_nodes (coordinator s)) A1 (registered_nodes (coordinator s1))"
    using Suc.IH [OF s1(1)] Suc.prems(2,3) by auto
  have "n1 < 2 ^ 31" "k1 < 2 ^ 32 - 1" using I(1,2) Suc.prems(2,3) by simp_all
  from system_inv_move [OF s1(2) assms(1,2) I(3) this] obtain n' k' A' where
    "n' \<le> Suc n1" "k' \<le> Suc k1" "system_inv n' k' A' s'"
    "registry_grows A1 (registered_nodes (coordinator s1)) A' (registered_nodes (coordinator s'))" by blast
  then show ?case
    using I(1,2) registry_grows_trans [OF grow] by (intro exI [of _ n'] exI [of _ k'] exI [of _ A']) simp
qed

lemma system_inv_reached:
  assumes "client_factory rt = create" "good_runtime rt" "sound w" "(move rt ^^ m) (start_system w) s" "m \<le> 2 ^ 31"
  shows "\<exists>n k A. n \<le> m \<and> k \<le> m \<and> system_inv n k A s"
  using system_inv_moves [OF assms(1,2) system_inv_start [OF assms(3)] assms(4)] assms(5) by auto

end

end
