(* ===== verification/Handler_Alone.thy ===== *)
theory Handler_Alone
  imports Handler_Threads
begin

text \<open>
  Each handler run alone: whatever thread it is, there are choices with which its steps in
  a row are the operation of \<open>Coordinator\<close> or \<open>Registry\<close>, so the detailed threads refine
  the sequential model, and the bounds on their number.
\<close>

section \<open>A thread alone\<close>

text \<open>The steps of one thread in a row, with what is chosen in each.\<close>

primrec alone ::
  "'w runtime \<Rightarrow> request \<Rightarrow> nat list \<Rightarrow> handler \<times> CoordinatorServiceImpl \<times> 'w
    \<Rightarrow> handler \<times> CoordinatorServiceImpl \<times> 'w" where
  "alone rt r [] c = c"
| "alone rt r (j # js) c = alone rt r js (case c of (h, s) \<Rightarrow> advance rt j r h s)"

lemma alone_append: "alone rt r (is @ js) c = alone rt r js (alone rt r is c)"
  by (induction "is" arbitrary: c) simp_all

lemma alone_finished: "finished h \<Longrightarrow> alone rt r js (h, s) = (h, s)"
  by (induction js) (simp_all add: advance_finished)

lemma alone_more:
  assumes "alone rt r is c = (h, s)" "finished h"
  shows "alone rt r (is @ js) c = (h, s)"
  using assms by (simp add: alone_append alone_finished)

section \<open>An upload alone\<close>

subsection \<open>The tasks of a distribution\<close>

lemma running_tasks_iff: "t \<in> set (running_tasks tasks) \<longleftrightarrow> t < length tasks \<and> \<not> task_done (tasks ! t)"
  by (auto simp: running_tasks_def)

lemma wait_step:
  assumes "t < length tasks" "\<not> task_done (tasks ! t)"
    and "task_step rt (registered_nodes st) (chunk_id c) (chunk_slice d i) (node_ids c ! t) (tasks ! t) w = Some (task, w')"
  shows "\<exists>j. advance rt j (Req_Put reqs) (Put_Wait name d i cs c tasks) (st, w)
    = (Put_Wait name d i cs c (tasks[t := task]), st, w')"
proof -
  have "t \<in> set (running_tasks tasks)" using assms(1,2) by (simp add: running_tasks_iff)
  then obtain j where j: "j < length (running_tasks tasks)" "running_tasks tasks ! j = t"
    by (auto simp: in_set_conv_nth)
  then show ?thesis using assms(3) by (intro exI [of _ j]) (auto simp: Let_def)
qed

lemma task_alone:
  assumes "t < length tasks" "tasks ! t = Task_Find"
    and D: "distributeChunkToSingleNode rt (registered_nodes st) (chunk_id c) (chunk_slice d i) (node_ids c ! t) w = (s, w')"
  shows "\<exists>js. length js \<le> 3 \<and> alone rt (Req_Put reqs) js (Put_Wait name d i cs c tasks, st, w)
    = (Put_Wait name d i cs c (tasks[t := Task_Done s]), st, w')"
proof (cases "map_of (registered_nodes st) (node_ids c ! t)")
  case None
  then have "\<exists>j. advance rt j (Req_Put reqs) (Put_Wait name d i cs c tasks) (st, w)
      = (Put_Wait name d i cs c (tasks[t := Task_Done s]), st, w')"
    using D assms(1,2) by (intro wait_step) (auto simp: distributeChunkToSingleNode_def)
  then obtain j where "advance rt j (Req_Put reqs) (Put_Wait name d i cs c tasks) (st, w)
      = (Put_Wait name d i cs c (tasks[t := Task_Done s]), st, w')" by blast
  then show ?thesis by (intro exI [of _ "[j]"]) (simp del: advance.simps)
next
  case (Some info)
  have "\<exists>j. advance rt j (Req_Put reqs) (Put_Wait name d i cs c tasks) (st, w)
      = (Put_Wait name d i cs c (tasks[t := Task_Client]), st, w)"
    using Some assms(1,2) by (intro wait_step) auto
  then obtain j1 where j1: "advance rt j1 (Req_Put reqs) (Put_Wait name d i cs c tasks) (st, w)
      = (Put_Wait name d i cs c (tasks[t := Task_Client]), st, w)" by blast
  have "\<exists>j. advance rt j (Req_Put reqs) (Put_Wait name d i cs c (tasks[t := Task_Client])) (st, w)
      = (Put_Wait name d i cs c ((tasks[t := Task_Client])[t := Task_Call info]), st, w)"
    using Some assms(1) by (intro wait_step) auto
  then obtain j2 where j2: "advance rt j2 (Req_Put reqs) (Put_Wait name d i cs c (tasks[t := Task_Client])) (st, w)
      = (Put_Wait name d i cs c (tasks[t := Task_Call info]), st, w)" by auto
  have "\<exists>j. advance rt j (Req_Put reqs) (Put_Wait name d i cs c (tasks[t := Task_Call info])) (st, w)
      = (Put_Wait name d i cs c ((tasks[t := Task_Call info])[t := Task_Done s]), st, w')"
    using Some assms(1) D by (intro wait_step) (auto simp: distributeChunkToSingleNode_def Let_def split: prod.splits)
  then obtain j3 where j3: "advance rt j3 (Req_Put reqs) (Put_Wait name d i cs c (tasks[t := Task_Call info])) (st, w)
      = (Put_Wait name d i cs c (tasks[t := Task_Done s]), st, w')" by auto
  show ?thesis using j1 j2 j3 by (intro exI [of _ "[j1, j2, j3]"]) (simp del: advance.simps)
qed

lemma tasks_alone:
  fixes w :: 'w and st :: CoordinatorServiceImpl and rt :: "'w runtime" and c :: ChunkInfo and d :: bytes and i :: nat
  defines "f \<equiv> \<lambda>t. distributeChunkToSingleNode rt (registered_nodes st) (chunk_id c) (chunk_slice d i) (node_ids c ! t)"
  assumes "distinct is" "\<forall>t \<in> set is. t < length tasks \<and> tasks ! t = Task_Find"
  shows "\<exists>js tasks'. length js \<le> 3 * length is \<and> length tasks' = length tasks \<and>
    alone rt (Req_Put reqs) js (Put_Wait name d i cs c tasks, st, w)
      = (Put_Wait name d i cs c tasks', st, snd (run_tasks f is w)) \<and>
    (\<forall>(t, s) \<in> set (fst (run_tasks f is w)). tasks' ! t = Task_Done s) \<and>
    (\<forall>t. t \<notin> set is \<longrightarrow> tasks' ! t = tasks ! t)"
  using assms(2,3)
proof (induction "is" arbitrary: tasks w)
  case Nil
  show ?case by (intro exI [of _ "[]"] exI [of _ tasks]) simp
next
  case (Cons t ts)
  obtain s w1 where s: "f t w = (s, w1)" by (metis prod.exhaust)
  obtain js1 where js1: "length js1 \<le> 3" "alone rt (Req_Put reqs) js1 (Put_Wait name d i cs c tasks, st, w)
      = (Put_Wait name d i cs c (tasks[t := Task_Done s]), st, w1)"
    using task_alone [OF _ _ s [unfolded f_def], of tasks reqs name cs] Cons.prems(2) by auto
  have "distinct ts" "\<forall>u \<in> set ts. u < length (tasks[t := Task_Done s]) \<and> (tasks[t := Task_Done s]) ! u = Task_Find"
    using Cons.prems by (auto simp: nth_list_update)
  from Cons.IH [OF this, of w1] obtain js tasks' where IH: "length js \<le> 3 * length ts" "length tasks' = length tasks"
    "alone rt (Req_Put reqs) js (Put_Wait name d i cs c (tasks[t := Task_Done s]), st, w1)
      = (Put_Wait name d i cs c tasks', st, snd (run_tasks f ts w1))"
    "\<forall>(u, s) \<in> set (fst (run_tasks f ts w1)). tasks' ! u = Task_Done s"
    "\<forall>u. u \<notin> set ts \<longrightarrow> tasks' ! u = (tasks[t := Task_Done s]) ! u"
    by auto
  have "tasks' ! t = Task_Done s" using IH(5) Cons.prems by simp
  moreover have "tasks' ! u = tasks ! u" if "u \<notin> set (t # ts)" for u using IH(5) that by simp
  ultimately show ?case
    using IH(1-4) js1 s
    by (intro exI [of _ "js1 @ js"] exI [of _ tasks']) (auto simp: alone_append split_beta Let_def)
qed

text \<open>All the tasks of a distribution, in the order of the schedule, and the end of the wait.\<close>

lemma distribution_alone:
  assumes "runs_all_tasks (sched rt)" "node_ids c \<noteq> []" "i * CHUNK_SIZE < 2 ^ 31"
    and D: "distributeChunkToNodes rt (registered_nodes st) (chunk_id c) (chunk_slice d i) (node_ids c) w = (status, w')"
  shows "\<exists>js. length js \<le> 3 * length (node_ids c) + 2 \<and>
    alone rt (Req_Put reqs) js (Put_Send name d i cs c, st, w)
      = (if status_ok status then Put_Loop name d (Suc i) (cs @ [c]) else Put_Return status \<lparr>pfs_success = False\<rparr>, st, w')"
proof -
  define n where "n = length (node_ids c)"
  define f where "f = (\<lambda>t. distributeChunkToSingleNode rt (registered_nodes st) (chunk_id c) (chunk_slice d i) (node_ids c ! t))"
  let ?order = "sched rt w n" and ?start = "replicate n Task_Find"
  have order: "set ?order = {0..<n}" "distinct ?order" using runs_all_tasks_facts [OF assms(1)] by blast+
  then have len: "length ?order = n" using distinct_card [of ?order] by simp
  have send: "advance rt 0 (Req_Put reqs) (Put_Send name d i cs c) (st, w) = (Put_Wait name d i cs c ?start, st, w)"
    using assms(2,3) by (simp add: n_def)
  obtain js tasks where js: "length js \<le> 3 * n" "length tasks = n"
    "alone rt (Req_Put reqs) js (Put_Wait name d i cs c ?start, st, w)
      = (Put_Wait name d i cs c tasks, st, snd (run_tasks f ?order w))"
    "\<forall>(t, s) \<in> set (fst (run_tasks f ?order w)). tasks ! t = Task_Done s"
    using tasks_alone [of ?order ?start rt reqs name d i cs c st w] order len unfolding f_def by auto
  have t: "tasks ! t = Task_Done (the (map_of (fst (run_tasks f ?order w)) t))" if "t < n" for t
    using js(4) futures_complete [OF assms(1) that, of f w w] by fastforce
  then have "running_tasks tasks = []"
    using js(2) by (auto simp: running_tasks_def filter_empty_conv)
  moreover have "map task_status tasks = map (\<lambda>i. the (map_of (fst (run_tasks f ?order w)) i)) [0..<n]"
    using t js(2) by (intro nth_equalityI) simp_all
  ultimately have "advance rt 0 (Req_Put reqs) (Put_Wait name d i cs c tasks) (st, snd (run_tasks f ?order w))
      = (if status_ok status then Put_Loop name d (Suc i) (cs @ [c]) else Put_Return status \<lparr>pfs_success = False\<rparr>, st, w')"
    using D assms(2) by (simp add: distributeChunkToNodes_def n_def f_def split_beta)
  then show ?thesis
    using js(1,3) send by (intro exI [of _ "0 # js @ [0]"]) (simp add: alone_append n_def del: advance.simps)
qed

subsection \<open>The chunks of an upload\<close>

text \<open>What the steps of an upload make of one chunk, with \<open>put_chunks\<close> as the reference.\<close>

fun after_chunks ::
  "string \<Rightarrow> bytes \<Rightarrow> nat \<Rightarrow> ChunkInfo list \<Rightarrow> ((Status + ChunkInfo list) \<times> CoordinatorServiceImpl \<times> 'w) option
    \<Rightarrow> handler \<times> CoordinatorServiceImpl \<times> 'w \<Rightarrow> bool" where
  "after_chunks name d i cs None c \<longleftrightarrow> fst c = Undefined"
| "after_chunks name d i cs (Some (Inl status, s)) c \<longleftrightarrow> c = (Put_Return status \<lparr>pfs_success = False\<rparr>, s)"
| "after_chunks name d i cs (Some (Inr cs', s)) c \<longleftrightarrow> c = (Put_Loop name d i (cs @ cs'), s)"

lemma put_chunks_first:
  "put_chunks rt d (i # is) st w =
    (case put_chunks rt d [i] st w of
       None \<Rightarrow> None
     | Some (Inl status, s) \<Rightarrow> Some (Inl status, s)
     | Some (Inr cs, st', w') \<Rightarrow> map_option (map_prod (map_sum id (\<lambda>cs'. cs @ cs')) id) (put_chunks rt d is st' w'))"
  by (simp add: Let_def split: prod.split option.split sum.split)

lemma after_chunks_append:
  "after_chunks name d i cs (map_option (map_prod (map_sum id (\<lambda>cs'. cs1 @ cs')) id) r) c
     \<longleftrightarrow> after_chunks name d i (cs @ cs1) r c"
  by (cases "(name, d, i, cs, r, c)" rule: after_chunks.cases) auto

text \<open>\<open>selectNodesForReplication\<close> in two steps.\<close>

lemma select_alone:
  "case selectNodesForReplication (hash_order rt) 3 st of
     None \<Rightarrow> \<exists>all st'. put_step rt j reqs (Put_Place name d i cs cid) (st, w) = (Put_Pick name d i cs cid all, st, w) \<and>
        put_step rt j' reqs (Put_Pick name d i cs cid all) (st, w) = (Undefined, st', w)
   | Some (ids, st') \<Rightarrow>
     if ids = [] then st' = st \<and> put_step rt j reqs (Put_Place name d i cs cid) (st, w)
        = (Put_Return (Status INTERNAL ''No nodes available for replication'') \<lparr>pfs_success = False\<rparr>, st, w)
     else length ids = 3 \<and> (\<exists>all. put_step rt j reqs (Put_Place name d i cs cid) (st, w) = (Put_Pick name d i cs cid all, st, w) \<and>
        put_step rt j' reqs (Put_Pick name d i cs cid all) (st, w)
          = (Put_Send name d i cs \<lparr>chunk_id = cid, node_ids = ids, replication_factor = 3\<rparr>, st', w))"
proof (cases "registered_nodes st = [] \<or> map fst (hash_order rt (registered_nodes st)) = []")
  case True
  then show ?thesis by (auto simp: selectNodesForReplication_def default_ChunkInfo_def)
next
  case False
  let ?all = "map fst (hash_order rt (registered_nodes st))"
  have place: "put_step rt j reqs (Put_Place name d i cs cid) (st, w) = (Put_Pick name d i cs cid ?all, st, w)"
    using False by (simp add: default_ChunkInfo_def)
  have sel: "selectNodesForReplication (hash_order rt) 3 st
      = map_option (\<lambda>ids. (ids, st\<lparr>next_node_index := next_node_index st + 1\<rparr>)) (pick_nodes ?all (next_node_index st) 3)"
    using False by (simp add: selectNodesForReplication_def Let_def)
  show ?thesis
  proof (cases "pick_nodes ?all (next_node_index st) 3")
    case None
    then show ?thesis unfolding sel place by (simp add: default_ChunkInfo_def)
  next
    case (Some ids)
    from pick_nodes_length [OF Some] have "length ids = 3" by simp
    then show ?thesis unfolding sel place using Some by (auto simp: default_ChunkInfo_def)
  qed
qed

lemma put_chunk_alone:
  assumes "runs_all_tasks (sched rt)" "i < upload_chunks d"
  shows "\<exists>js. length js \<le> 14 \<and> after_chunks name d (Suc i) cs (put_chunks rt d [i] st w)
    (alone rt (Req_Put reqs) js (Put_Loop name d i cs, st, w))"
proof -
  let ?cid = "''chunk_'' @ to_string (uint (chunk_id_counter st))"
  let ?st1 = "st\<lparr>chunk_id_counter := chunk_id_counter st + 1\<rparr>"
  have loop: "put_step rt 0 reqs (Put_Loop name d i cs) (st, w) = (Put_Place name d i cs ?cid, ?st1, w)"
    using assms(2) by simp
  note S = select_alone [where rt = rt and st = ?st1 and j = 0 and reqs = reqs and name = name and d = d and i = i
    and cs = cs and cid = ?cid and w = w and j' = 0]
  show ?thesis
  proof (cases "selectNodesForReplication (hash_order rt) 3 ?st1")
    case None
    then have "put_chunks rt d [i] st w = None" by (simp add: default_ChunkInfo_def Let_def)
    moreover have "fst (alone rt (Req_Put reqs) [0, 0, 0] (Put_Loop name d i cs, st, w)) = Undefined"
      using S loop unfolding None option.case by (auto simp del: put_step.simps)
    ultimately show ?thesis by (intro exI [of _ "[0, 0, 0]"]) (simp del: alone.simps)
  next
    case (Some r)
    obtain ids st2 where r: "r = (ids, st2)" by (cases r)
    note sel = Some [unfolded r]
    note S = S [unfolded sel option.case prod.case]
    show ?thesis
    proof (cases "ids = []")
      case True
      then have "alone rt (Req_Put reqs) [0, 0] (Put_Loop name d i cs, st, w)
          = (Put_Return (Status INTERNAL ''No nodes available for replication'') \<lparr>pfs_success = False\<rparr>, ?st1, w)" "st2 = ?st1"
        using S loop by (simp_all del: put_step.simps)
      then show ?thesis
        using sel True by (intro exI [of _ "[0, 0]"]) (simp add: default_ChunkInfo_def Let_def del: alone.simps)
    next
      case False
      let ?c = "\<lparr>chunk_id = ?cid, node_ids = ids, replication_factor = 3\<rparr>"
      have run: "alone rt (Req_Put reqs) [0, 0, 0] (Put_Loop name d i cs, st, w) = (Put_Send name d i cs ?c, st2, w)"
        and len: "length ids = 3"
        using S loop False by (auto simp del: put_step.simps)
      show ?thesis
      proof (cases "2 ^ 31 \<le> i * CHUNK_SIZE")
        case True
        then have "put_chunks rt d [i] st w = None" using sel False by (simp add: default_ChunkInfo_def Let_def)
        moreover have "fst (alone rt (Req_Put reqs) ([0, 0, 0] @ [0]) (Put_Loop name d i cs, st, w)) = Undefined"
          unfolding alone_append run using True by simp
        ultimately show ?thesis by (intro exI [of _ "[0, 0, 0] @ [0]"]) (simp del: alone.simps)
      next
        case small: False
        obtain status w' where D: "distributeChunkToNodes rt (registered_nodes st2) ?cid (chunk_slice d i) ids w = (status, w')"
          by (metis prod.exhaust)
        obtain js where js: "length js \<le> 11" "alone rt (Req_Put reqs) js (Put_Send name d i cs ?c, st2, w)
            = (if status_ok status then Put_Loop name d (Suc i) (cs @ [?c]) else Put_Return status \<lparr>pfs_success = False\<rparr>, st2, w')"
          using distribution_alone [of rt ?c i st2 d w status w' reqs name cs] assms(1) False small D len by auto
        have "after_chunks name d (Suc i) cs (put_chunks rt d [i] st w)
            (alone rt (Req_Put reqs) ([0, 0, 0] @ js) (Put_Loop name d i cs, st, w))"
          unfolding alone_append run js(2) using sel False small D by (simp add: default_ChunkInfo_def Let_def)
        then show ?thesis using js(1) by (intro exI [of _ "[0, 0, 0] @ js"]) simp
      qed
    qed
  qed
qed

declare put_chunks.simps(2) [simp del]

lemma put_loop_alone:
  assumes "runs_all_tasks (sched rt)"
  shows "i + k = upload_chunks d \<Longrightarrow>
   \<exists>js. length js \<le> 14 * k \<and> after_chunks name d (upload_chunks d) cs (put_chunks rt d [i..<upload_chunks d] st w)
     (alone rt (Req_Put reqs) js (Put_Loop name d i cs, st, w))"
proof (induction k arbitrary: i cs st w)
  case 0
  then show ?case by (intro exI [of _ "[]"]) simp
next
  case (Suc k)
  have i: "i < upload_chunks d" "Suc i + k = upload_chunks d" using Suc.prems by simp_all
  obtain js where js: "length js \<le> 14" "after_chunks name d (Suc i) cs (put_chunks rt d [i] st w)
      (alone rt (Req_Put reqs) js (Put_Loop name d i cs, st, w))"
    using put_chunk_alone [OF assms i(1)] by blast
  let ?c = "alone rt (Req_Put reqs) js (Put_Loop name d i cs, st, w)"
  have upt: "[i..<upload_chunks d] = i # [Suc i..<upload_chunks d]" using i(1) by (rule upt_conv_Cons)
  consider (undefined) "put_chunks rt d [i] st w = None"
    | (stop) status s where "put_chunks rt d [i] st w = Some (Inl status, s)"
    | (go_on) cs' st' w' where "put_chunks rt d [i] st w = Some (Inr cs', st', w')"
    by (metis old.sum.exhaust option.exhaust prod.exhaust)
  then show ?case
  proof cases
    case go_on
    have c: "?c = (Put_Loop name d (Suc i) (cs @ cs'), st', w')" using js(2) go_on by simp
    obtain js' where js': "length js' \<le> 14 * k" "after_chunks name d (upload_chunks d) (cs @ cs')
        (put_chunks rt d [Suc i..<upload_chunks d] st' w') (alone rt (Req_Put reqs) js' ?c)"
      unfolding c using Suc.IH [OF i(2)] by blast
    show ?thesis
      unfolding upt using js(1) js' go_on
      by (intro exI [of _ "js @ js'"], subst put_chunks_first) (simp add: after_chunks_append alone_append)
  qed (use js in \<open>auto simp: upt intro!: exI [of _ js], (subst put_chunks_first, simp)+\<close>)
qed

text \<open>The end of \<open>PutFile\<close>: what it makes of the outcome of its loop, and its three ways to begin.\<close>

definition commit_upload ::
  "string \<Rightarrow> bytes \<Rightarrow> ((Status + ChunkInfo list) \<times> CoordinatorServiceImpl \<times> 'w) option
    \<Rightarrow> ((Status \<times> PutFileResponse) \<times> CoordinatorServiceImpl \<times> 'w) option" where
  "commit_upload name d r =
    (case r of
       None \<Rightarrow> None
     | Some (Inl status, q) \<Rightarrow> Some ((status, \<lparr>pfs_success = False\<rparr>), q)
     | Some (Inr cs, st, w) \<Rightarrow> Some ((status_OK, \<lparr>pfs_success = True\<rparr>),
         st\<lparr>store := putFile name \<lparr>fm_size = of_nat (length d), chunk_size = of_nat CHUNK_SIZE, chunks = cs\<rparr>
           (store st)\<rparr>, w))"

fun returned :: "((Status \<times> PutFileResponse) \<times> CoordinatorServiceImpl \<times> 'w) option
    \<Rightarrow> handler \<times> CoordinatorServiceImpl \<times> 'w \<Rightarrow> bool" where
  "returned None c \<longleftrightarrow> fst c = Undefined"
| "returned (Some ((status, resp), s)) c \<longleftrightarrow> c = (Put_Return status resp, s)"

lemma put_loop_returns:
  assumes "runs_all_tasks (sched rt)"
  shows "\<exists>js. length js \<le> 14 * upload_chunks d + 1 \<and>
    returned (commit_upload name d (put_chunks rt d [0..<upload_chunks d] st w))
      (alone rt (Req_Put reqs) js (Put_Loop name d 0 [], st, w))"
proof -
  obtain js where js: "length js \<le> 14 * upload_chunks d"
    "after_chunks name d (upload_chunks d) [] (put_chunks rt d [0..<upload_chunks d] st w)
      (alone rt (Req_Put reqs) js (Put_Loop name d 0 [], st, w))"
    using put_loop_alone [OF assms, of 0 "upload_chunks d" d name "[]" st w reqs] by auto
  let ?c = "alone rt (Req_Put reqs) js (Put_Loop name d 0 [], st, w)"
  have "returned (commit_upload name d (put_chunks rt d [0..<upload_chunks d] st w))
      (alone rt (Req_Put reqs) (js @ [0]) (Put_Loop name d 0 [], st, w))"
    using js(2) unfolding alone_append
    by (cases "(name, d, upload_chunks d, [] :: ChunkInfo list, put_chunks rt d [0..<upload_chunks d] st w, ?c)"
          rule: after_chunks.cases; cases ?c)
      (auto simp: commit_upload_def Let_def)
  then show ?thesis using js(1) by (intro exI [of _ "js @ [0]"]) simp
qed

lemma PutFile_begins:
  "PutFile rt reqs st w =
    (case put_step rt j reqs Put_Check (st, w) of
       (Put_Loop name d i cs, st', w') \<Rightarrow> commit_upload name d (put_chunks rt d [0..<upload_chunks d] st' w')
     | (Put_Return status resp, q) \<Rightarrow> Some ((status, resp), q))"
  by (auto simp: PutFile_def commit_upload_def upload_chunks_def Let_def
      split: sum.split prod.split option.split simp del: put_receive.simps)

lemma put_check_shape:
  "put_step rt j reqs Put_Check (st, w) = (h, q) \<Longrightarrow>
   (\<exists>name. h = Put_Loop name (upload_data reqs) 0 []) \<or> (\<exists>status resp. h = Put_Return status resp)"
  by (cases reqs)
    (auto simp: put_receive_eq upload_data_def split: option.splits if_splits simp del: put_receive.simps)

lemma PutFile_alone:
  assumes "runs_all_tasks (sched rt)"
  shows "\<exists>js. length js \<le> 14 * upload_chunks (upload_data reqs) + 2 \<and>
    returned (PutFile rt reqs st w) (alone rt (Req_Put reqs) js (Put_Check, st, w))"
proof -
  obtain h st' w' where s: "put_step rt 0 reqs Put_Check (st, w) = (h, st', w')" by (metis prod.exhaust)
  consider (loop) name where "h = Put_Loop name (upload_data reqs) 0 []"
    | (stop) status resp where "h = Put_Return status resp"
    using put_check_shape [OF s] by blast
  then show ?thesis
  proof cases
    case loop
    obtain js where "length js \<le> 14 * upload_chunks (upload_data reqs) + 1"
      "returned (commit_upload name (upload_data reqs) (put_chunks rt (upload_data reqs) [0..<upload_chunks (upload_data reqs)] st' w'))
        (alone rt (Req_Put reqs) js (h, st', w'))"
      unfolding loop using put_loop_returns [OF assms] by blast
    then show ?thesis
      unfolding PutFile_begins [of rt reqs st w 0] s prod.case loop handler.case
      by (intro exI [of _ "0 # js"]) (simp add: s loop del: put_step.simps)
  next
    case stop
    then show ?thesis
      unfolding PutFile_begins [of rt reqs st w 0] s prod.case stop handler.case
      by (intro exI [of _ "[0]"]) (simp add: s stop del: put_step.simps split: prod.split)
  qed
qed

section \<open>The other handlers alone\<close>

text \<open>They have nothing to choose, a download once it has its iterators.\<close>

fun is_upload :: "request \<Rightarrow> bool" where
  "is_upload (Req_Put reqs) \<longleftrightarrow> True"
| "is_upload _ \<longleftrightarrow> False"

fun before_pointer :: "handler \<Rightarrow> bool" where
  "before_pointer Get_Lookup \<longleftrightarrow> True"
| "before_pointer (Get_Deref meta) \<longleftrightarrow> True"
| "before_pointer h \<longleftrightarrow> False"

lemma advance_choice:
  assumes "\<not> is_upload r" "\<not> before_pointer h" "advance rt j r h s = (h', s')"
  shows "advance rt 0 r h s = (h', s') \<and> \<not> before_pointer h'"
  using assms by (cases r; cases h; cases s) (auto simp: Let_def split: option.splits list.splits prod.splits if_splits)

lemma alone_choice:
  assumes "\<not> is_upload r"
  shows "\<not> before_pointer h \<Longrightarrow> alone rt r js (h, s) = alone rt r (replicate (length js) 0) (h, s)"
proof (induction js arbitrary: h s)
  case (Cons j js)
  obtain h' s' where step: "advance rt j r h s = (h', s')" by (metis prod.exhaust)
  from advance_choice [OF assms Cons.prems this] have "advance rt 0 r h s = (h', s')" "\<not> before_pointer h'" by simp_all
  then show ?case using Cons.IH [of h' s'] step by (simp del: advance.simps)
qed simp

lemma alone_long_enough:
  assumes "\<not> is_upload r" "\<not> before_pointer h0" "\<exists>is. length is \<le> n \<and> alone rt r is (h0, s0) = (h, s)"
    and "finished h" "n \<le> length js"
  shows "alone rt r js (h0, s0) = (h, s)"
proof -
  obtain "is" where "is": "length is \<le> n" "alone rt r is (h0, s0) = (h, s)" using assms(3) by blast
  then have "alone rt r (is @ replicate (length js - length is) 0) (h0, s0) = (h, s)"
    by (intro alone_more assms(4))
  then show ?thesis
    using alone_choice [OF assms(1,2), of rt js s0] alone_choice [OF assms(1,2), of rt "is @ replicate (length js - length is) 0" s0]
      "is"(1) assms(5) by simp
qed

lemma alone_step:
  assumes "advance rt 0 r h s = c" "\<exists>is. length is \<le> n \<and> alone rt r is c = c'"
  shows "\<exists>is. length is \<le> Suc n \<and> alone rt r is (h, s) = c'"
proof -
  obtain "is" where "length is \<le> n" "alone rt r is c = c'" using assms(2) by blast
  then show ?thesis using assms(1) by (intro exI [of _ "0 # is"]) simp
qed

lemma alone_within:
  "\<exists>is. length is \<le> n \<and> alone rt r is c = c' \<Longrightarrow> n \<le> m \<Longrightarrow> \<exists>is. length is \<le> m \<and> alone rt r is c = c'"
  using le_trans by blast

lemma read_alone:
  assumes "buffer_alive meta st"
    and "try_replicas rt (registered_nodes st) (chunk_id (chunks meta ! i)) ids w = (res, w')"
  shows "\<exists>is. length is \<le> 3 * length ids + 1 \<and> alone rt (Req_Get name wr) is (Get_Find meta i resps ids, st, w) =
    (case res of
       None \<Rightarrow> (Get_Return (read_failed (chunk_id (chunks meta ! i)) ''Failed to read chunk from any replica node'') resps, st, w')
     | Some x \<Rightarrow> if wr i then (Get_Loop meta (Suc i) (resps @ [\<lparr>gfs_data = x\<rparr>]), st, w')
         else (Get_Return (Status INTERNAL ''Failed to write response'') resps, st, w'))"
  using assms(2)
proof (induction ids arbitrary: w)
  case Nil
  then show ?case using assms(1) by (intro exI [of _ "[0]"]) auto
next
  case (Cons node_id ids)
  let ?r = "Req_Get name wr"
  show ?case
  proof (cases "map_of (registered_nodes st) node_id")
    case None
    then have tr: "try_replicas rt (registered_nodes st) (chunk_id (chunks meta ! i)) ids w = (res, w')"
      using Cons.prems by simp
    have "advance rt 0 ?r (Get_Find meta i resps (node_id # ids)) (st, w) = (Get_Find meta i resps ids, st, w)"
      using None assms(1) by simp
    from alone_step [OF this Cons.IH [OF tr]] show ?thesis by (rule alone_within) simp
  next
    case (Some info)
    obtain s x w1 where get: "GetChunk (client_factory rt (info_address info) (info_port info)) (chunk_id (chunks meta ! i)) [] w
        = ((s, x), w1)" by (metis prod.exhaust)
    have two: "advance rt 0 ?r (Get_Find meta i resps (node_id # ids)) (st, w) = (Get_Client meta i resps node_id ids, st, w)"
      "advance rt 0 ?r (Get_Client meta i resps node_id ids) (st, w) = (Get_Call meta i resps info ids, st, w)"
      using Some assms(1) by simp_all
    let ?next = "if \<not> status_ok s then (Get_Find meta i resps ids, st, w1)
      else if wr i then (Get_Loop meta (Suc i) (resps @ [\<lparr>gfs_data = x\<rparr>]), st, w1)
      else (Get_Return (Status INTERNAL ''Failed to write response'') resps, st, w1)"
    have three: "advance rt 0 ?r (Get_Call meta i resps info ids) (st, w) = ?next"
      using get assms(1) by simp
    show ?thesis
    proof (cases "status_ok s")
      case True
      then have res: "res = Some x" "w' = w1" using Cons.prems Some get by simp_all
      show ?thesis
        using two three True unfolding res by (intro exI [of _ "[0, 0, 0]"]) (simp del: advance.simps)
    next
      case False
      then have tr: "try_replicas rt (registered_nodes st) (chunk_id (chunks meta ! i)) ids w1 = (res, w')"
        using Cons.prems Some get by simp
      have "advance rt 0 ?r (Get_Call meta i resps info ids) (st, w) = (Get_Find meta i resps ids, st, w1)"
        using three False by simp
      from alone_step [OF two(1) alone_step [OF two(2) alone_step [OF this Cons.IH [OF tr]]]]
      show ?thesis by (rule alone_within) simp
    qed
  qed
qed

definition chunk_steps :: "ChunkInfo \<Rightarrow> nat" where
  "chunk_steps c = 3 * length (node_ids c) + 2"

lemma get_loop_alone:
  assumes "buffer_alive meta st"
  shows "i + k = length (chunks meta) \<Longrightarrow>
    get_file_loop rt (registered_nodes st) wr i (drop i (chunks meta)) w = ((status, rs), w') \<Longrightarrow>
    \<exists>is. length is \<le> sum_list (map chunk_steps (drop i (chunks meta))) + 1 \<and>
      alone rt (Req_Get name wr) is (Get_Loop meta i resps, st, w) = (Get_Return status (resps @ rs), st, w')"
proof (induction k arbitrary: i resps w rs)
  case 0
  then show ?case by (intro exI [of _ "[0]"]) simp
next
  case (Suc k)
  have i: "i < length (chunks meta)" "Suc i + k = length (chunks meta)" using Suc.prems(1) by simp_all
  let ?c = "chunks meta ! i" and ?r = "Req_Get name wr"
  have drop: "drop i (chunks meta) = ?c # drop (Suc i) (chunks meta)" using i(1) by (rule Cons_nth_drop_Suc [symmetric])
  show ?case
  proof (cases "node_ids ?c = []")
    case True
    then have "advance rt 0 ?r (Get_Loop meta i resps) (st, w)
        = (Get_Return (read_failed (chunk_id ?c) ''No nodes specified for chunk read'') resps, st, w)"
      using i(1) assms by simp
    then show ?thesis
      using Suc.prems(2) True
      by (intro exI [of _ "[0]"]) (auto simp: drop readChunkWithFallback_def read_failed_def simp del: advance.simps)
  next
    case False
    have one: "advance rt 0 ?r (Get_Loop meta i resps) (st, w) = (Get_Find meta i resps (node_ids ?c), st, w)"
      using False i(1) assms by simp
    obtain res w1 where tr: "try_replicas rt (registered_nodes st) (chunk_id ?c) (node_ids ?c) w = (res, w1)"
      by (metis prod.exhaust)
    have steps: "chunk_steps ?c = 3 * length (node_ids ?c) + 2" by (simp add: chunk_steps_def)
    note R = read_alone [OF assms tr, of name wr resps]
    show ?thesis
    proof (cases "\<exists>x. res = Some x \<and> wr i")
      case True
      then obtain x where x: "res = Some x" "wr i" by blast
      obtain rs1 where rs: "rs = \<lparr>gfs_data = x\<rparr> # rs1"
        "get_file_loop rt (registered_nodes st) wr (Suc i) (drop (Suc i) (chunks meta)) w1 = ((status, rs1), w')"
        using Suc.prems(2) tr x False by (auto simp: drop readChunkWithFallback_def Let_def split: prod.splits)
      obtain is1 where is1: "length is1 \<le> 3 * length (node_ids ?c) + 1"
        "alone rt ?r is1 (Get_Find meta i resps (node_ids ?c), st, w) = (Get_Loop meta (Suc i) (resps @ [\<lparr>gfs_data = x\<rparr>]), st, w1)"
        using R x by auto
      obtain is2 where is2: "length is2 \<le> sum_list (map chunk_steps (drop (Suc i) (chunks meta))) + 1"
        "alone rt ?r is2 (Get_Loop meta (Suc i) (resps @ [\<lparr>gfs_data = x\<rparr>]), st, w1)
          = (Get_Return status ((resps @ [\<lparr>gfs_data = x\<rparr>]) @ rs1), st, w')"
        using Suc.IH [OF i(2) rs(2)] by blast
      show ?thesis
        using one is1 is2 rs(1)
        by (intro exI [of _ "0 # is1 @ is2"]) (simp add: alone_append drop steps del: advance.simps)
    next
      case stop: False
      have "\<exists>is. length is \<le> 3 * length (node_ids ?c) + 1 \<and>
          alone rt ?r is (Get_Find meta i resps (node_ids ?c), st, w) = (Get_Return status (resps @ rs), st, w')"
        using R stop Suc.prems(2) tr False
        by (auto simp: drop readChunkWithFallback_def read_failed_def Let_def split: option.splits)
      from alone_step [OF one this] show ?thesis by (rule alone_within) (simp add: drop steps)
    qed
  qed
qed

lemma active_files_Some:
  "active_files ms name = Some meta \<Longrightarrow> map_option file_meta (map_of (entries ms) name) = Some meta"
  "active_files ms name = Some meta \<Longrightarrow> meta \<in> set (store_metas ms)"
  by (force simp: active_files_def store_metas_def split: option.splits if_splits dest: map_of_SomeD)+

lemma store_metas_read [simp]: "store_metas (ms\<lparr>read_count := x\<rparr>) = store_metas ms"
  by (simp add: store_metas_def)

text \<open>How many steps a download may take: it depends on the file it finds.\<close>

definition download_steps :: "MetadataStore \<Rightarrow> string \<Rightarrow> nat" where
  "download_steps ms name =
    (case map_of (entries ms) name of None \<Rightarrow> 0 | Some entry \<Rightarrow> sum_list (map chunk_steps (chunks (file_meta entry)))) + 3"

lemma GetFile_alone:
  assumes "download_steps (store st) name \<le> length js"
    and "GetFile rt \<lparr>gfr_filename = name\<rparr> wr st w = ((status, resps), st', w')"
  shows "alone rt (Req_Get name wr) js (Get_Lookup, st, w) = (Get_Return status resps, st', w')"
proof -
  let ?r = "Req_Get name wr" and ?st = "st\<lparr>store := (store st)\<lparr>read_count := read_count (store st) + 1\<rparr>\<rparr>"
  have "2 \<le> length js" using assms(1) by (simp add: download_steps_def)
  then obtain j1 j2 js' where js: "js = j1 # j2 # js'" by (metis Suc_le_length_iff numeral_2_eq_2)
  show ?thesis
  proof (cases "active_files (store st) name")
    case None
    then have "advance rt j1 ?r Get_Lookup (st, w) = (Get_Return status resps, st', w')"
      using assms(2) by (auto simp: GetFile_def getFile_eq)
    then show ?thesis unfolding js by (simp add: alone_finished advance_finished del: advance.simps)
  next
    case (Some meta)
    have loop: "get_file_loop rt (registered_nodes ?st) wr 0 (drop 0 (chunks meta)) w = ((status, resps), w')"
      and st': "st' = ?st"
      using assms(2) Some by (auto simp: GetFile_def getFile_eq split: prod.splits)
    obtain entry where entry: "map_of (entries (store st)) name = Some entry" "file_meta entry = meta"
      using active_files_Some(1) [OF Some] by blast
    have s1: "advance rt j1 ?r Get_Lookup (st, w) = (Get_Deref meta, ?st, w)"
      using Some by (simp add: getFile_eq)
    have s2: "advance rt j2 ?r (Get_Deref meta) (?st, w) = (Get_Loop meta 0 [], ?st, w)"
      using entry by simp
    have "buffer_alive meta ?st" using active_files_Some(2) [OF Some] by (simp add: buffer_alive_def)
    from get_loop_alone [OF this _ loop, of "length (chunks meta)" name "[]"]
    have rest: "\<exists>is. length is \<le> sum_list (map chunk_steps (chunks meta)) + 1 \<and>
        alone rt ?r is (Get_Loop meta 0 [], ?st, w) = (Get_Return status resps, ?st, w')" by simp
    have "alone rt ?r js' (Get_Loop meta 0 [], ?st, w) = (Get_Return status resps, ?st, w')"
      by (rule alone_long_enough [OF _ _ rest]) (use assms(1) entry in \<open>simp_all add: js download_steps_def\<close>)
    then show ?thesis unfolding js using s1 s2 by (simp add: st' del: advance.simps)
  qed
qed

lemma DeleteFile_alone:
  assumes "4 \<le> length js" "DeleteFile \<lparr>dfr_path = name\<rparr> t now st = ((status, resp), st')"
  shows "alone rt (Req_Delete name t now) js (Delete_Lookup, st, w) = (Delete_Return status resp, st', w)"
proof (rule alone_long_enough [OF _ _ _ _ assms(1)])
  have "alone rt (Req_Delete name t now) [0, 0, 0, 0] (Delete_Lookup, st, w) = (Delete_Return status resp, st', w)"
    using assms(2) by (auto simp: DeleteFile_def getFile_eq Let_def split: option.splits)
  then show "\<exists>is. length is \<le> 4 \<and> alone rt (Req_Delete name t now) is (Delete_Lookup, st, w) = (Delete_Return status resp, st', w)"
    by (intro exI [of _ "[0, 0, 0, 0]"]) (simp del: alone.simps)
qed simp_all

lemma RegisterDataNode_alone:
  assumes "3 \<le> length js" "RegisterDataNode (hash_order rt) peer port st = ((status, resp), st')"
  shows "alone rt (Req_Register peer port) js (Register_Check, st, w) = (Register_Return status resp, st', w)"
proof (rule alone_long_enough [OF _ _ _ _ assms(1)])
  have "alone rt (Req_Register peer port) [0, 0, 0] (Register_Check, st, w) = (Register_Return status resp, st', w)"
    using assms(2) by (auto simp: RegisterDataNode_def Let_def split: option.splits)
  then show "\<exists>is. length is \<le> 3 \<and> alone rt (Req_Register peer port) is (Register_Check, st, w) = (Register_Return status resp, st', w)"
    by (intro exI [of _ "[0, 0, 0]"]) (simp del: alone.simps)
qed simp_all

lemma UnregisterDataNode_alone:
  assumes "2 \<le> length js" "UnregisterDataNode node_id st = ((status, resp), st')"
  shows "alone rt (Req_Unregister node_id) js (Unregister_Find, st, w) = (Unregister_Return status resp, st', w)"
proof (rule alone_long_enough [OF _ _ _ _ assms(1)])
  have "alone rt (Req_Unregister node_id) [0, 0] (Unregister_Find, st, w) = (Unregister_Return status resp, st', w)"
    using assms(2) by (auto simp: UnregisterDataNode_def split: option.splits)
  then show "\<exists>is. length is \<le> 2 \<and> alone rt (Req_Unregister node_id) is (Unregister_Find, st, w) = (Unregister_Return status resp, st', w)"
    by (intro exI [of _ "[0, 0]"]) (simp del: alone.simps)
qed simp_all

end
