(* ===== verification/Handler_Termination.thy ===== *)
theory Handler_Termination
  imports Handler_Alone Sweep
begin

text \<open>
  Every handler comes to an end whatever the other threads do: a bound on the steps it has left
  falls with each of its own steps, in any state of the coordinator and the nodes. The end is
  undefined behaviour only if another thread takes away what the handler holds an iterator or a
  pointer to. The cleanup worker, which holds the mutex of the store for a whole round, comes to
  the end of the round in the same way.
\<close>

section \<open>A thread among others\<close>

text \<open>
  The own steps of a thread while the rest of the system does anything at all: \<open>\<sigma> n\<close> is
  what is chosen in its step number \<open>n\<close> and the state in which it takes it.
\<close>

primrec driven :: "'w runtime \<Rightarrow> request \<Rightarrow> (nat \<Rightarrow> nat \<times> CoordinatorServiceImpl \<times> 'w) \<Rightarrow> nat \<Rightarrow> handler" where
  "driven rt r \<sigma> 0 = entry_point r"
| "driven rt r \<sigma> (Suc n) = fst (advance rt (fst (\<sigma> n)) r (driven rt r \<sigma> n) (snd (\<sigma> n)))"

text \<open>A bound on the steps a handler has left, for a download once it has its iterators.\<close>

fun task_steps :: "task \<Rightarrow> nat" where
  "task_steps Task_Find = 3"
| "task_steps Task_Client = 2"
| "task_steps (Task_Call info) = 1"
| "task_steps (Task_Done status) = 0"

definition later_chunks :: "FileMeta \<Rightarrow> nat \<Rightarrow> nat" where
  "later_chunks meta i = sum_list (map chunk_steps (drop i (chunks meta))) + 1"

fun put_left :: "PutFileRequest list \<Rightarrow> handler \<Rightarrow> nat" where
  "put_left reqs Put_Check = 14 * upload_chunks (upload_data reqs) + 2"
| "put_left reqs (Put_Loop name d i cs) = 14 * (upload_chunks d - i) + 1"
| "put_left reqs (Put_Place name d i cs cid) = 14 * (upload_chunks d - Suc i) + 14"
| "put_left reqs (Put_Pick name d i cs cid ids) = 14 * (upload_chunks d - Suc i) + 13"
| "put_left reqs (Put_Send name d i cs c) = 14 * (upload_chunks d - Suc i) + 3 * length (node_ids c) + 3"
| "put_left reqs (Put_Wait name d i cs c tasks) = 14 * (upload_chunks d - Suc i) + sum_list (map task_steps tasks) + 2"
| "put_left reqs h = 0"

fun get_left :: "handler \<Rightarrow> nat" where
  "get_left (Get_Loop meta i resps) = later_chunks meta i"
| "get_left (Get_Find meta i resps ids) = later_chunks meta (Suc i) + 3 * length ids + 1"
| "get_left (Get_Client meta i resps node_id ids) = later_chunks meta (Suc i) + 3 * length ids + 3"
| "get_left (Get_Call meta i resps info ids) = later_chunks meta (Suc i) + 3 * length ids + 2"
| "get_left h = 0"

fun other_left :: "handler \<Rightarrow> nat" where
  "other_left Delete_Lookup = 4"
| "other_left Delete_Move = 3"
| "other_left Delete_Test = 2"
| "other_left Delete_Set = 1"
| "other_left Register_Check = 3"
| "other_left Register_Draw = 2"
| "other_left (Register_Insert i) = 1"
| "other_left Unregister_Find = 2"
| "other_left Unregister_Erase = 1"
| "other_left h = 0"

fun own_step :: "request \<Rightarrow> handler \<Rightarrow> bool" where
  "own_step (Req_Delete name t now) h \<longleftrightarrow> h \<in> {Delete_Lookup, Delete_Move, Delete_Test, Delete_Set}"
| "own_step (Req_Register peer port) h \<longleftrightarrow> h \<in> {Register_Check, Register_Draw} \<or> (\<exists>i. h = Register_Insert i)"
| "own_step (Req_Unregister i) h \<longleftrightarrow> h \<in> {Unregister_Find, Unregister_Erase}"
| "own_step r h \<longleftrightarrow> True"

fun steps_left :: "request \<Rightarrow> handler \<Rightarrow> nat" where
  "steps_left (Req_Put reqs) h = put_left reqs h"
| "steps_left (Req_Get name wr) h = get_left h"
| "steps_left r h = (if own_step r h then other_left h else 0)"

lemma later_chunks_step:
  "i < length (chunks meta) \<Longrightarrow>
   later_chunks meta i = later_chunks meta (Suc i) + 3 * length (node_ids (chunks meta ! i)) + 2"
  unfolding later_chunks_def by (subst Cons_nth_drop_Suc [symmetric]) (simp_all add: chunk_steps_def)

lemma later_chunks_pos: "0 < later_chunks meta i"
  by (simp add: later_chunks_def)

lemma task_step_less:
  "task_step rt reg cid d node_id task w = Some (task', w') \<Longrightarrow> \<not> task_done task \<Longrightarrow> task_steps task' < task_steps task"
  by (cases "(rt, reg, cid, d, node_id, task, w)" rule: task_step.cases) (auto simp: Let_def split: option.splits prod.splits)

lemma sum_list_update_less:
  assumes "t < length xs" "f x < f (xs ! t :: 'a)"
  shows "sum_list (map f (xs[t := x])) < (sum_list (map f xs) :: nat)"
  using assms
proof (induction xs arbitrary: t)
  case (Cons y ys)
  then show ?case by (cases t) (auto intro: add_less_le_mono)
qed simp

lemma wait_steps_left:
  assumes "advance rt j (Req_Put reqs) (Put_Wait name d i cs c tasks) (st, w) = (h', s')"
  shows "steps_left (Req_Put reqs) h' < steps_left (Req_Put reqs) (Put_Wait name d i cs c tasks) \<and>
    (0 < steps_left (Req_Put reqs) h' \<or> finished h')"
proof (cases "running_tasks tasks = []")
  case True
  have "upload_chunks d - Suc i \<le> upload_chunks d - Suc i" by simp
  then show ?thesis using assms True by (auto simp: Let_def split: if_splits)
next
  case False
  define t where "t = running_tasks tasks ! (j mod length (running_tasks tasks))"
  have "t \<in> set (running_tasks tasks)" using False by (simp add: t_def)
  then have t: "t < length tasks" "\<not> task_done (tasks ! t)" by (simp_all add: running_tasks_iff)
  show ?thesis
  proof (cases "task_step rt (registered_nodes st) (chunk_id c) (chunk_slice d i) (node_ids c ! t) (tasks ! t) w")
    case None
    then show ?thesis using assms False by (auto simp: Let_def t_def)
  next
    case (Some q)
    obtain task w' where q: "q = (task, w')" by (cases q)
    then have "h' = Put_Wait name d i cs c (tasks[t := task])"
      using assms False Some by (auto simp: Let_def t_def)
    moreover have "sum_list (map task_steps (tasks[t := task])) < sum_list (map task_steps tasks)"
      using t task_step_less [OF Some [unfolded q] t(2)] by (intro sum_list_update_less)
    ultimately show ?thesis by simp
  qed
qed

lemma advance_steps_left:
  assumes "0 < steps_left r h"
  shows "steps_left r (fst (advance rt j r h s)) < steps_left r h \<and>
    (0 < steps_left r (fst (advance rt j r h s)) \<or> finished (fst (advance rt j r h s)))"
proof (cases "\<exists>reqs name d i cs c tasks. (r, h) = (Req_Put reqs, Put_Wait name d i cs c tasks)")
  case True
  then obtain reqs name d i cs c tasks where rh: "r = Req_Put reqs" "h = Put_Wait name d i cs c tasks" by blast
  obtain h' s' where "advance rt j (Req_Put reqs) (Put_Wait name d i cs c tasks) (fst s, snd s) = (h', s')" by (metis prod.exhaust)
  from wait_steps_left [OF this] this show ?thesis unfolding rh by simp
next
  case False
  then show ?thesis
    using assms
    by (cases r; cases h; cases s)
      (auto simp: Let_def put_receive_eq upload_data_def later_chunks_step later_chunks_pos default_ChunkInfo_def sum_list_replicate
        dest: pick_nodes_length simp del: put_receive.simps split: prod.splits list.splits option.splits)
qed

lemma driven_finishes:
  assumes "steps_left r (driven rt r \<sigma> k) \<le> n" "0 < steps_left r (driven rt r \<sigma> k) \<or> finished (driven rt r \<sigma> k)"
  shows "finished (driven rt r \<sigma> (k + n))"
  using assms
proof (induction n arbitrary: k)
  case 0
  then show ?case by simp
next
  case (Suc n)
  show ?case
  proof (cases "0 < steps_left r (driven rt r \<sigma> k)")
    case True
    from advance_steps_left [OF this, of rt "fst (\<sigma> k)" "snd (\<sigma> k)"] Suc.prems(1)
    have "steps_left r (driven rt r \<sigma> (Suc k)) \<le> n"
      "0 < steps_left r (driven rt r \<sigma> (Suc k)) \<or> finished (driven rt r \<sigma> (Suc k))" by simp_all
    from Suc.IH [OF this] show ?thesis by simp
  next
    case False
    then have f: "finished (driven rt r \<sigma> k)" using Suc.prems(2) by simp
    have "driven rt r \<sigma> (k + m) = driven rt r \<sigma> k" for m
      by (induction m) (simp_all add: advance_finished [OF f])
    from this [of "Suc n"] show ?thesis using f by (simp only: simp_thms)
  qed
qed

text \<open>
  What a thread relies on so that its next step is defined: the entries its iterators stand at are
  still there, an upload has fewer than \<open>2^31\<close> bytes before its next chunk, and the pointer and
  the iterators of a download lead to the file that is visible.
\<close>

fun put_safe :: "PutFileRequest list \<Rightarrow> CoordinatorServiceImpl \<Rightarrow> handler \<Rightarrow> bool" where
  "put_safe reqs st (Put_Loop name d i cs) \<longleftrightarrow> d = upload_data reqs"
| "put_safe reqs st (Put_Place name d i cs cid) \<longleftrightarrow> d = upload_data reqs \<and> i < upload_chunks d"
| "put_safe reqs st (Put_Pick name d i cs cid ids) \<longleftrightarrow> d = upload_data reqs \<and> i < upload_chunks d \<and>
     ids \<noteq> [] \<and> length ids + 3 \<le> 2 ^ 31"
| "put_safe reqs st (Put_Send name d i cs c) \<longleftrightarrow> d = upload_data reqs \<and> i < upload_chunks d"
| "put_safe reqs st (Put_Wait name d i cs c tasks) \<longleftrightarrow> d = upload_data reqs \<and> i < upload_chunks d \<and>
     (\<forall>t < length tasks. tasks ! t = Task_Client \<longrightarrow> map_of (registered_nodes st) (node_ids c ! t) \<noteq> None)"
| "put_safe reqs st h \<longleftrightarrow> h \<noteq> Undefined"

fun get_safe :: "string \<Rightarrow> CoordinatorServiceImpl \<Rightarrow> handler \<Rightarrow> bool" where
  "get_safe name st (Get_Deref meta) \<longleftrightarrow> active_files (store st) name = Some meta"
| "get_safe name st (Get_Loop meta i resps) \<longleftrightarrow> active_files (store st) name = Some meta"
| "get_safe name st (Get_Find meta i resps ids) \<longleftrightarrow> active_files (store st) name = Some meta"
| "get_safe name st (Get_Client meta i resps node_id ids) \<longleftrightarrow> active_files (store st) name = Some meta \<and>
     map_of (registered_nodes st) node_id \<noteq> None"
| "get_safe name st (Get_Call meta i resps info ids) \<longleftrightarrow> active_files (store st) name = Some meta"
| "get_safe name st h \<longleftrightarrow> h \<noteq> Undefined"

fun safe :: "request \<Rightarrow> CoordinatorServiceImpl \<Rightarrow> handler \<Rightarrow> bool" where
  "safe (Req_Put reqs) st h \<longleftrightarrow> put_safe reqs st h"
| "safe (Req_Get name wr) st h \<longleftrightarrow> get_safe name st h"
| "safe (Req_Delete name t now) st h \<longleftrightarrow> h \<noteq> Undefined"
| "safe (Req_Register peer port) st h \<longleftrightarrow> h \<noteq> Undefined"
| "safe (Req_Unregister node_id) st h \<longleftrightarrow>
     h \<noteq> Undefined \<and> (h = Unregister_Erase \<longrightarrow> map_of (registered_nodes st) node_id \<noteq> None)"

definition nodes_stay :: "CoordinatorServiceImpl \<Rightarrow> CoordinatorServiceImpl \<Rightarrow> bool" where
  "nodes_stay st st' \<longleftrightarrow> (\<forall>i. map_of (registered_nodes st) i \<noteq> None \<longrightarrow> map_of (registered_nodes st') i \<noteq> None)"

lemma wait_safe_step:
  assumes "safe (Req_Put reqs) st (Put_Wait name d i cs c tasks)" "nodes_stay st st2"
    and "advance rt j (Req_Put reqs) (Put_Wait name d i cs c tasks) (st, w) = (h', q)"
  shows "safe (Req_Put reqs) st2 h'"
proof (cases "running_tasks tasks = []")
  case True
  then show ?thesis using assms by (auto simp: Let_def split: if_splits)
next
  case False
  define t where "t = running_tasks tasks ! (j mod length (running_tasks tasks))"
  have "t \<in> set (running_tasks tasks)" using False by (simp add: t_def)
  then have t: "t < length tasks" "\<not> task_done (tasks ! t)" by (simp_all add: running_tasks_iff)
  have stay: "map_of (registered_nodes st2) l \<noteq> None" if "map_of (registered_nodes st) l \<noteq> None" for l
    using assms(2) that unfolding nodes_stay_def by blast
  have there: "map_of (registered_nodes st) (node_ids c ! l) \<noteq> None" if "l < length tasks" "tasks ! l = Task_Client" for l
    using assms(1) that by simp
  obtain task w' where step: "task_step rt (registered_nodes st) (chunk_id c) (chunk_slice d i) (node_ids c ! t) (tasks ! t) w
      = Some (task, w')"
    and task: "task = Task_Client \<Longrightarrow> map_of (registered_nodes st) (node_ids c ! t) \<noteq> None"
  proof (cases "tasks ! t")
    case Task_Find
    then show thesis by (cases "map_of (registered_nodes st) (node_ids c ! t)") (auto intro: that)
  next
    case Task_Client
    then obtain info where "map_of (registered_nodes st) (node_ids c ! t) = Some info" using there [OF t(1)] by blast
    then show thesis using Task_Client by (auto intro: that)
  next
    case (Task_Call info)
    obtain st1 w1 where "PutChunk (client_factory rt (info_address info) (info_port info)) (chunk_id c) (chunk_slice d i) w = (st1, w1)"
      by (metis prod.exhaust)
    then show thesis using that Task_Call by (auto simp: Let_def)
  next
    case (Task_Done status)
    then show thesis using t(2) by simp
  qed
  have "h' = Put_Wait name d i cs c (tasks[t := task])"
    using assms(3) False step by (simp add: Let_def flip: t_def)
  moreover have "map_of (registered_nodes st2) (node_ids c ! l) \<noteq> None"
    if "l < length tasks" "tasks[t := task] ! l = Task_Client" for l
    using that task there [of l] stay by (cases "l = t") simp_all
  ultimately show ?thesis using assms(1) by auto
qed

lemma pick_safe:
  assumes "ids \<noteq> []" "length ids + 3 \<le> 2 ^ 31"
  shows "pick_nodes ids x 3 \<noteq> None"
  using pick_nodes_eq [of ids 3 x] assms by simp

lemma put_safe_step:
  assumes "safe (Req_Put reqs) st h" "nodes_stay st st2" "few_nodes st" "length (upload_data reqs) \<le> 2 ^ 31"
    and "iterates_all (hash_order rt)" "advance rt j (Req_Put reqs) h (st, w) = (h', q)"
  shows "safe (Req_Put reqs) st2 h'"
proof -
  have small: "i * CHUNK_SIZE < 2 ^ 31" if "i < upload_chunks (upload_data reqs)" for i
    using small_slices(2) [OF assms(4)] that by (simp add: upload_chunks_def)
  have len: "length (hash_order rt (registered_nodes st)) + 3 \<le> 2 ^ 31"
    using assms(3) iterates_all_length [OF assms(5)] by (simp add: few_nodes_def)
  show ?thesis
  proof (cases h)
    case Put_Check
    then show ?thesis using assms(6)
      by (auto simp: put_receive_eq upload_data_def simp del: put_receive.simps split: list.splits if_splits)
  next
    case (Put_Wait name d i cs c tasks)
    show ?thesis using wait_safe_step [of reqs st name d i cs c tasks st2 rt j w h' q] assms(1,2,6) unfolding Put_Wait by blast
  next
    case (Put_Send name d i cs c)
    then show ?thesis using assms(1,6) small [of i] by (auto split: if_splits)
  next
    case (Put_Pick name d i cs cid ids)
    then obtain sel where "pick_nodes ids (next_node_index st) 3 = Some sel"
      using assms(1) pick_safe [of ids "next_node_index st"] by auto
    then show ?thesis using assms(1,6) Put_Pick by (auto simp: default_ChunkInfo_def)
  next
    case (Put_Place name d i cs cid)
    then show ?thesis using assms(1,6) len by (auto simp: default_ChunkInfo_def split: if_splits)
  next
    case (Put_Loop name d i cs)
    then show ?thesis using assms(1,6) by (auto simp: Let_def split: if_splits)
  qed (use assms(1,6) in auto)
qed

lemma active_alive: "active_files (store st) name = Some meta \<Longrightarrow> buffer_alive meta st"
proof -
  assume "active_files (store st) name = Some meta"
  then obtain e where e: "map_of (entries (store st)) name = Some e" "file_meta e = meta" "is_file e"
    by (auto simp: active_files_def split: option.splits if_splits)
  then show ?thesis using map_of_SomeD [OF e(1)] by (force simp: buffer_alive_def store_metas_def)
qed

lemma get_safe_step:
  assumes "safe (Req_Get name wr) st h" "nodes_stay st st2"
    and "active_files (store st2) name = active_files (store st) name"
    and "advance rt j (Req_Get name wr) h (st, w) = (h', q)"
  shows "safe (Req_Get name wr) st2 h'"
proof (cases h)
  case Get_Lookup
  then show ?thesis using assms(3,4) by (auto simp: getFile_eq split: option.splits)
next
  case (Get_Deref meta)
  then have "active_files (store st) name = Some meta" using assms(1) by simp
  then obtain e where "map_of (entries (store st)) name = Some e" "file_meta e = meta"
    by (auto simp: active_files_def split: option.splits if_splits)
  then show ?thesis using assms(1,3,4) Get_Deref by auto
next
  case (Get_Loop meta i resps)
  then show ?thesis using assms(1,3,4) active_alive [of st name meta] by (auto split: if_splits)
next
  case (Get_Find meta i resps ids)
  then show ?thesis using assms active_alive [of st name meta] unfolding nodes_stay_def
    by (auto split: if_splits list.splits option.splits)
next
  case (Get_Client meta i resps node_id ids)
  then show ?thesis using assms(1,3,4) by auto
next
  case (Get_Call meta i resps info ids)
  then show ?thesis using assms(1,3,4) active_alive [of st name meta] by (auto simp: Let_def split: if_splits prod.splits)
qed (use assms(1,4) in auto)


text \<open>What a handler answers, and the number of own steps it takes at most.\<close>

definition answered :: "handler \<Rightarrow> bool" where
  "answered h \<longleftrightarrow> finished h \<and> h \<noteq> Undefined"

fun own_steps :: "(nat \<Rightarrow> nat \<times> CoordinatorServiceImpl \<times> 'w) \<Rightarrow> request \<Rightarrow> nat" where
  "own_steps \<sigma> (Req_Put reqs) = 14 * upload_chunks (upload_data reqs) + 2"
| "own_steps \<sigma> (Req_Get name wr) = download_steps (store (fst (snd (\<sigma> 1)))) name"
| "own_steps \<sigma> (Req_Delete name t now) = 4"
| "own_steps \<sigma> (Req_Register peer port) = 3"
| "own_steps \<sigma> (Req_Unregister node_id) = 2"

text \<open>
  Nobody gets in the way of the request up to its step number \<open>k\<close>: no node leaves the registry,
  the file it downloads stays as it is. An upload has at most \<open>2^31\<close> bytes and finds fewer than
  \<open>2^31 - 2\<close> nodes. Deletions and registrations need nothing.
\<close>

fun undisturbed :: "nat \<Rightarrow> (nat \<Rightarrow> nat \<times> CoordinatorServiceImpl \<times> 'w) \<Rightarrow> request \<Rightarrow> bool" where
  "undisturbed k \<sigma> (Req_Put reqs) \<longleftrightarrow> length (upload_data reqs) \<le> 2 ^ 31 \<and>
     (\<forall>n < k. few_nodes (fst (snd (\<sigma> n))) \<and> nodes_stay (fst (snd (\<sigma> n))) (fst (snd (\<sigma> (Suc n)))))"
| "undisturbed k \<sigma> (Req_Get name wr) \<longleftrightarrow>
     (\<forall>n < k. nodes_stay (fst (snd (\<sigma> n))) (fst (snd (\<sigma> (Suc n)))) \<and>
        active_files (store (fst (snd (\<sigma> (Suc n))))) name = active_files (store (fst (snd (\<sigma> n)))) name)"
| "undisturbed k \<sigma> (Req_Unregister node_id) \<longleftrightarrow> nodes_stay (fst (snd (\<sigma> 0))) (fst (snd (\<sigma> 1)))"
| "undisturbed k \<sigma> r \<longleftrightarrow> True"

lemma own_steps_bound: "finished (driven rt r \<sigma> (own_steps \<sigma> r + n))"
proof (cases r)
  case (Req_Get name wr)
  let ?h = "driven rt (Req_Get name wr) \<sigma>"
  let ?m = "case map_of (entries (store (fst (snd (\<sigma> 1))))) name of None \<Rightarrow> 0 | Some entry \<Rightarrow> sum_list (map chunk_steps (chunks (file_meta entry)))"
  have "?h 1 = Get_Return (Status NOT_FOUND ''File not found'') [] \<or> (\<exists>meta. ?h 1 = Get_Deref meta)"
    by (cases "snd (\<sigma> 0)") (auto simp: getFile_eq split: option.split)
  moreover have "?h 2 = Undefined \<or> (\<exists>entry. ?h 2 = Get_Loop (file_meta entry) 0 [] \<and>
      map_of (entries (store (fst (snd (\<sigma> 1))))) name = Some entry)" if "?h 1 = Get_Deref meta" for meta
    using that by (cases "snd (\<sigma> 1)") (simp add: numeral_2_eq_2 split: option.split)
  moreover have "?h 2 = ?h 1" if "finished (?h 1)"
  proof -
    have "?h (Suc 1) = fst (advance rt (fst (\<sigma> 1)) (Req_Get name wr) (?h 1) (snd (\<sigma> 1)))" by (rule driven.simps(2))
    then show ?thesis unfolding advance_finished [OF that] fst_conv by (simp only: Suc_1)
  qed
  ultimately have "finished (?h 2) \<or> (\<exists>meta. ?h 2 = Get_Loop meta 0 [] \<and> later_chunks meta 0 = ?m + 1)"
    by (auto simp: later_chunks_def)
  then have "finished (?h (2 + (?m + 1 + n)))"
    by (intro driven_finishes) (auto elim!: finished.elims simp: later_chunks_pos)
  moreover have "2 + (?m + 1 + n) = own_steps \<sigma> r + n" by (simp add: download_steps_def Req_Get)
  ultimately show ?thesis unfolding Req_Get by (simp only:)
qed (use driven_finishes [where k = 0 and \<sigma> = \<sigma> and rt = rt and r = r and n = "own_steps \<sigma> r + n"] in simp_all)

lemma delete_safe_step:
  assumes "advance rt j (Req_Delete name t now) h (st, w) = (h', q)" "h \<noteq> Undefined"
  shows "h' \<noteq> Undefined"
  using assms by (cases h) (auto split: option.splits prod.splits if_splits)

lemma register_safe_step:
  assumes "advance rt j (Req_Register peer port) h (st, w) = (h', q)" "h \<noteq> Undefined"
  shows "h' \<noteq> Undefined"
  using assms by (cases h) (auto simp: Let_def split: option.splits prod.splits if_splits)

lemma unregister_safe_step:
  assumes "advance rt j (Req_Unregister i) h (st, w) = (h', q)"
    and "h = Unregister_Find \<and> nodes_stay st st2 \<or> h = Unregister_Erase \<and> map_of (registered_nodes st) i \<noteq> None \<or> answered h"
  shows "safe (Req_Unregister i) st2 h'"
  using assms(2)
proof (elim disjE)
  assume "answered h"
  then have "finished h" "h \<noteq> Undefined" by (simp_all add: answered_def)
  then have "h' = h" using assms(1) advance_finished [of h rt j "Req_Unregister i" "(st, w)"] by simp
  then show ?thesis using \<open>finished h\<close> \<open>h \<noteq> Undefined\<close> by auto
qed (use assms(1) in \<open>auto simp: nodes_stay_def split: option.splits if_splits\<close>)

lemma driven_safe:
  assumes "iterates_all (hash_order rt)" "undisturbed k \<sigma> r" "n \<le> k"
  shows "safe r (fst (snd (\<sigma> n))) (driven rt r \<sigma> n)"
  using assms(3)
proof (induction n)
  case 0
  show ?case by (cases r) simp_all
next
  case (Suc n)
  let ?st = "fst (snd (\<sigma> n))" and ?st' = "fst (snd (\<sigma> (Suc n)))" and ?h = "driven rt r \<sigma> n"
  obtain h' q where step: "advance rt (fst (\<sigma> n)) r ?h (?st, snd (snd (\<sigma> n))) = (h', q)"
    by (metis prod.exhaust)
  then have h': "driven rt r \<sigma> (Suc n) = h'" by simp
  have n: "n < k" and IH: "safe r ?st ?h" using Suc by simp_all
  have "safe r ?st' h'"
  proof (cases r)
    case (Req_Put reqs)
    have "safe (Req_Put reqs) ?st' h'"
      by (rule put_safe_step [OF _ _ _ _ assms(1) step [unfolded Req_Put]])
        (use IH assms(2) n in \<open>simp_all add: Req_Put\<close>)
    then show ?thesis by (simp add: Req_Put)
  next
    case (Req_Get name wr)
    have "safe (Req_Get name wr) ?st' h'"
      by (rule get_safe_step [OF _ _ _ step [unfolded Req_Get]]) (use IH assms(2) n in \<open>simp_all add: Req_Get\<close>)
    then show ?thesis by (simp add: Req_Get)
  next
    case (Req_Delete name t now)
    then show ?thesis using delete_safe_step [OF step [unfolded Req_Delete]] IH by simp
  next
    case (Req_Register peer port)
    then show ?thesis using register_safe_step [OF step [unfolded Req_Register]] IH by simp
  next
    case (Req_Unregister i)
    have end': "finished ?h" if "n \<noteq> 0" "n \<noteq> 1"
    proof -
      have "own_steps \<sigma> r + (n - 2) = n" using that by (simp add: Req_Unregister)
      then show ?thesis using own_steps_bound [of rt r \<sigma> "n - 2"] by (simp only:)
    qed
    have find: "?h = Unregister_Find" if "n = 0" by (simp add: that Req_Unregister)
    have erase: "?h = Unregister_Erase \<or> finished ?h" if "n = 1"
      unfolding that Req_Unregister by (cases "snd (\<sigma> 0)") (auto split: option.split)
    have defined: "?h \<noteq> Undefined" and there: "?h = Unregister_Erase \<Longrightarrow> map_of (registered_nodes ?st) i \<noteq> None"
      using IH unfolding Req_Unregister safe.simps by blast+
    have stay: "nodes_stay ?st ?st'" if "n = 0"
      using assms(2) unfolding Req_Unregister that by simp
    have "?h = Unregister_Find \<and> nodes_stay ?st ?st' \<or> ?h = Unregister_Erase \<and> map_of (registered_nodes ?st) i \<noteq> None \<or> answered ?h"
      unfolding answered_def using find erase end' defined there stay by blast
    from unregister_safe_step [OF step [unfolded Req_Unregister], of ?st', folded Req_Unregister] this show ?thesis by (simp add: Req_Unregister)
  qed
  then show ?case by (simp only: h')
qed

text \<open>
  A round of the cleanup while it holds the mutex: only it changes the store \<open>ms\<close> then, while
  the clock, the rest of the coordinator and the nodes are as \<open>\<tau>\<close> says for each of its steps.
\<close>

primrec swept ::
  "'w runtime \<Rightarrow> (nat \<Rightarrow> time_point \<times> CoordinatorServiceImpl \<times> 'w \<times> cleanup_log list) \<Rightarrow> sweep \<times> MetadataStore
    \<Rightarrow> nat \<Rightarrow> sweep \<times> MetadataStore" where
  "swept rt \<tau> c 0 = c"
| "swept rt \<tau> c (Suc n) =
    (case swept rt \<tau> c n of (sw, ms) \<Rightarrow>
       case \<tau> n of (clock, st, q) \<Rightarrow>
         case sweep_step rt clock (sw, st\<lparr>store := ms\<rparr>, q) of (sw', st', q') \<Rightarrow> (sw', store st'))"

definition later_tombstones :: "MetadataStore \<Rightarrow> nat \<Rightarrow> nat" where
  "later_tombstones ms pos = sum_list (map (\<lambda>t. 3 * length (replicas (fst (snd t))) + 2) (drop pos (deleted_entries ms))) + 1"

fun sweep_left :: "MetadataStore \<Rightarrow> sweep \<Rightarrow> nat" where
  "sweep_left ms (Sweep_Scan now pos) = later_tombstones ms pos"
| "sweep_left ms (Sweep_Find now pos left) = 3 * length left + 1 + later_tombstones ms (Suc pos)"
| "sweep_left ms (Sweep_Client now pos cid i left) = 3 * length left + 3 + later_tombstones ms (Suc pos)"
| "sweep_left ms (Sweep_Call now pos cid i info left) = 3 * length left + 2 + later_tombstones ms (Suc pos)"
| "sweep_left ms sw = 0"

lemma later_tombstones_step:
  "pos < length (deleted_entries ms) \<Longrightarrow>
   later_tombstones ms pos = later_tombstones ms (Suc pos) + 3 * length (replicas (fst (snd (deleted_entries ms ! pos)))) + 2"
  unfolding later_tombstones_def by (subst Cons_nth_drop_Suc [symmetric]) simp_all

lemma later_tombstones_removed:
  "later_tombstones (ms\<lparr>deleted_entries := take pos (deleted_entries ms) @ drop (Suc pos) (deleted_entries ms),
     tombstone_count := tc\<rparr>) pos = later_tombstones ms (Suc pos)"
  by (cases "pos \<le> length (deleted_entries ms)") (simp_all add: later_tombstones_def)

lemma sweep_step_left:
  assumes "sw \<noteq> Sweep_Idle" "sw \<noteq> Sweep_Undefined"
    and "sweep_step rt clock (sw, st, q) = (sw', st', q')"
  shows "sw' = Sweep_Idle \<or> sw' = Sweep_Undefined \<or> sweep_left (store st') sw' < sweep_left (store st) sw"
proof (cases sw)
  case (Sweep_Scan now pos)
  show ?thesis
  proof (cases "length (deleted_entries (store st)) \<le> pos")
    case True
    then show ?thesis using assms(3) Sweep_Scan by (cases q) auto
  next
    case False
    then show ?thesis using assms(3) Sweep_Scan later_tombstones_step [of pos "store st"]
      by (cases q; cases "deleted_entries (store st) ! pos") (auto simp: Let_def split: if_splits)
  qed
next
  case (Sweep_Find now pos left)
  then show ?thesis using assms(3) later_tombstones_removed [where pos = pos and ms = "store st"]
    by (cases q; cases left) (auto split: option.splits)
next
  case (Sweep_Client now pos cid i left)
  then show ?thesis using assms(3) by (cases q) (auto split: option.splits)
next
  case (Sweep_Call now pos cid i info left)
  then show ?thesis using assms(3) by (cases q) (auto simp: Let_def split: prod.splits)
qed (use assms in simp_all)

lemma swept_ends:
  assumes "sweep_left (snd (swept rt \<tau> c k)) (fst (swept rt \<tau> c k)) \<le> n"
  shows "\<exists>l \<le> k + n. fst (swept rt \<tau> c l) = Sweep_Idle \<or> fst (swept rt \<tau> c l) = Sweep_Undefined"
  using assms
proof (induction n arbitrary: k)
  case 0
  then have "fst (swept rt \<tau> c k) = Sweep_Idle \<or> fst (swept rt \<tau> c k) = Sweep_Undefined"
    by (cases "fst (swept rt \<tau> c k)") (simp_all add: later_tombstones_def)
  then show ?case by auto
next
  case (Suc n)
  obtain sw ms where c: "swept rt \<tau> c k = (sw, ms)" by (metis prod.exhaust)
  obtain clock st q where t: "\<tau> k = (clock, st, q)" by (metis prod.exhaust)
  obtain sw' st' q' where s: "sweep_step rt clock (sw, st\<lparr>store := ms\<rparr>, q) = (sw', st', q')" by (metis prod.exhaust)
  have next': "swept rt \<tau> c (Suc k) = (sw', store st')" by (simp add: c t s)
  show ?case
  proof (cases "sw = Sweep_Idle \<or> sw = Sweep_Undefined")
    case True
    then show ?thesis by (intro exI [of _ k]) (simp add: c)
  next
    case False
    from sweep_step_left [OF _ _ s] False consider "sw' = Sweep_Idle \<or> sw' = Sweep_Undefined"
      | "sweep_left (store st') sw' < sweep_left ms sw" by auto
    then show ?thesis
    proof cases
      case 1
      then show ?thesis using next' by (intro exI [of _ "Suc k"]) auto
    next
      case 2
      then have "sweep_left (snd (swept rt \<tau> c (Suc k))) (fst (swept rt \<tau> c (Suc k))) \<le> n"
        using Suc.prems next' c by simp
      from Suc.IH [OF this] show ?thesis by simp
    qed
  qed
qed

text \<open>C10. Every handler comes to an end within a bound on its own steps: fourteen for each chunk of an
  upload and two more, four for a deletion, three for a registration, two for an unregistration,
  for a download three for each replica and two for each chunk of the file its pointer leads to and
  three more, in whatever states of the coordinator and the nodes it takes these steps. The end is
  an answer or undefined behaviour; it is an answer, for deletions and registrations always, for
  the others if they are undisturbed (no node leaves the registry meanwhile, the file of a download
  stays visible and unchanged, an upload has at most \<open>2^31\<close> bytes and fewer than \<open>2^31 - 2\<close> nodes
  to choose from). Only own steps are counted: a call to a data node is one of them and is taken to
  return, though the code sets no deadline; waiting for the mutex of the store is none. A cleanup
  round, the only holder of that mutex over several steps, lets go of it or meets undefined
  behaviour within three steps for each replica and two for each tombstone and one more.\<close>

theorem handlers_terminate:
  assumes "iterates_all (hash_order rt)"
  shows "(answered (driven rt r \<sigma> (own_steps \<sigma> r + n)) \<or> driven rt r \<sigma> (own_steps \<sigma> r + n) = Undefined) \<and>
    (undisturbed (own_steps \<sigma> r + n) \<sigma> r \<longrightarrow> answered (driven rt r \<sigma> (own_steps \<sigma> r + n))) \<and>
    (\<exists>l \<le> sum_list (map (\<lambda>(path, meta, t). 3 * length (replicas meta) + 2) (deleted_entries ms)) + 1.
       fst (swept rt \<tau> (Sweep_Scan now 0, ms) l) = Sweep_Idle \<or> fst (swept rt \<tau> (Sweep_Scan now 0, ms) l) = Sweep_Undefined)"
proof (intro conjI impI)
  let ?h = "driven rt r \<sigma> (own_steps \<sigma> r + n)"
  have end': "finished ?h" by (rule own_steps_bound)
  then show "answered ?h \<or> ?h = Undefined" by (auto simp: answered_def)
  show "answered ?h" if "undisturbed (own_steps \<sigma> r + n) \<sigma> r"
  proof -
    have "safe r (fst (snd (\<sigma> (own_steps \<sigma> r + n)))) ?h" by (rule driven_safe [OF assms that]) simp
    then have "?h \<noteq> Undefined" by (cases r) auto
    then show ?thesis using end' by (simp add: answered_def)
  qed
  have "sweep_left ms (Sweep_Scan now 0) = sum_list (map (\<lambda>(path, meta, t). 3 * length (replicas meta) + 2) (deleted_entries ms)) + 1"
    by (simp add: later_tombstones_def case_prod_unfold)
  then show "\<exists>l \<le> sum_list (map (\<lambda>(path, meta, t). 3 * length (replicas meta) + 2) (deleted_entries ms)) + 1.
       fst (swept rt \<tau> (Sweep_Scan now 0, ms) l) = Sweep_Idle \<or> fst (swept rt \<tau> (Sweep_Scan now 0, ms) l) = Sweep_Undefined"
    using swept_ends [of rt \<tau> "(Sweep_Scan now 0, ms)" 0] by simp
qed

theorem handlers_terminate_witness:
  "\<exists>reqs. upload_data reqs = ''abc'' \<and>
     answered (driven demo_runtime (Req_Put reqs) (\<lambda>n. (n, three_nodes, demo_w0)) 16)"
proof -
  define reqs where "reqs = [\<lparr>pfr_filename = ''/f'', pfr_data = ''abc''\<rparr>]"
  define \<sigma> where "\<sigma> = (\<lambda>n::nat. (n, three_nodes, demo_w0))"
  have order: "iterates_all (hash_order demo_runtime)" by (simp add: demo_runtime_def iterates_all_id)
  have d: "upload_data reqs = ''abc''" by (simp add: reqs_def upload_data_def)
  then have "own_steps \<sigma> (Req_Put reqs) = 16" by (simp add: upload_chunks_def num_chunks_value)
  moreover have "undisturbed k \<sigma> (Req_Put reqs)" for k
    by (simp add: d \<sigma>_def few_nodes_def three_nodes_def nodes_stay_def)
  ultimately have "answered (driven demo_runtime (Req_Put reqs) \<sigma> 16)"
    using handlers_terminate [OF order, of "Req_Put reqs" \<sigma> 0] by simp
  then show ?thesis using d unfolding \<sigma>_def by blast
qed
end
