(* ===== verification/Thread_Runs.thy ===== *)
theory Thread_Runs
  imports Interleaving_Invariant Handler_Termination
begin

text \<open>
  Runs of the interleaved system built by hand: one thread from its arrival to its end,
  and two uploads of one name that both pass the check before either commits.
\<close>

section \<open>Runs of one thread as moves\<close>

lemma alone_moves:
  assumes "i < length (threads s)" "threads s ! i = (r, h)" "sweeper s = Sweep_Idle"
    and "alone rt r js (h, coordinator s, nodes s) = (h', st', w')"
  shows "(move rt ^^ length js) s (s\<lparr>threads := (threads s)[i := (r, h')], coordinator := st', nodes := w'\<rparr>)"
  using assms
proof (induction js arbitrary: s h)
  case Nil
  then have "s\<lparr>threads := (threads s)[i := (r, h')], coordinator := st', nodes := w'\<rparr> = s"
    using list_update_id [of "threads s" i] by simp
  then show ?case by simp
next
  case (Cons j js)
  obtain h1 st1 w1 where step: "advance rt j r h (coordinator s, nodes s) = (h1, st1, w1)" by (metis prod.exhaust)
  let ?s = "s\<lparr>threads := (threads s)[i := (r, h1)], coordinator := st1, nodes := w1\<rparr>"
  have "move rt s ?s" by (rule move.thread [OF Cons.prems(1,2) disjI1 [OF Cons.prems(3)] step])
  moreover have "(move rt ^^ length js) ?s (?s\<lparr>threads := (threads ?s)[i := (r, h')], coordinator := st', nodes := w'\<rparr>)"
    using Cons.prems(1,3,4) step by (intro Cons.IH [where h = h1]) (simp_all del: advance.simps)
  ultimately have "(move rt ^^ Suc (length js)) s (?s\<lparr>threads := (threads ?s)[i := (r, h')], coordinator := st', nodes := w'\<rparr>)"
    by (rule relpowp_Suc_I2)
  then show ?case by (simp del: relpowp.simps)
qed

lemma moves_trans: "(move rt ^^ a) s t \<Longrightarrow> (move rt ^^ b) t u \<Longrightarrow> (move rt ^^ (a + b)) s u"
  by (auto simp: relpowp_add)

lemma move_once: "move rt s t \<Longrightarrow> (move rt ^^ 1) s t"
  by (simp add: eq_OO)

text \<open>A request that no other thread disturbs.\<close>

lemma request_moves:
  assumes "alone rt r js (entry_point r, coordinator s, nodes s) = (h', st', w')" "sweeper s = Sweep_Idle"
  shows "(move rt ^^ Suc (length js)) s (s\<lparr>threads := threads s @ [(r, h')], coordinator := st', nodes := w'\<rparr>)"
proof -
  let ?s = "s\<lparr>threads := threads s @ [(r, entry_point r)]\<rparr>"
  have "(move rt ^^ length js) ?s (?s\<lparr>threads := (threads ?s)[length (threads s) := (r, h')], coordinator := st', nodes := w'\<rparr>)"
    by (rule alone_moves) (use assms in simp_all)
  from relpowp_Suc_I2 [OF move.arrive this] show ?thesis by (simp del: relpowp.simps)
qed

section \<open>Two uploads of one name\<close>

context dfs_nodes
begin

text \<open>
  An upload that has passed the check, on live nodes: its thread's moves to the end, and
  where they leave the system.
\<close>

definition after_upload :: "nat \<Rightarrow> PutFileRequest list \<Rightarrow> string \<Rightarrow> nat \<Rightarrow> ChunkInfo list \<Rightarrow> uint32 \<Rightarrow> 'a \<Rightarrow> 'a system \<Rightarrow> 'a system" where
  "after_upload i reqs name n cs x w s = s\<lparr>
     threads := (threads s)[i := (Req_Put reqs, Put_Return status_OK \<lparr>pfs_success = True\<rparr>)],
     coordinator := (coordinator s)\<lparr>chunk_id_counter := of_nat n, next_node_index := x,
       store := putFile name \<lparr>fm_size = of_nat (length (upload_data reqs)), chunk_size = of_nat CHUNK_SIZE, chunks = cs\<rparr>
         (store (coordinator s))\<rparr>,
     nodes := w\<rparr>"

lemma upload_completes:
  assumes "client_factory rt = create" "good_runtime rt" "sound (nodes s)" "chunk_id_counter (coordinator s) = of_nat n"
    and "distinct (map fst (registered_nodes (coordinator s)))" "registered_nodes (coordinator s) \<noteq> []"
    and "\<forall>(j, info) \<in> set (registered_nodes (coordinator s)). live (nodes s) (info_endpoint info)"
    and "length (upload_data reqs) \<le> 2 ^ 31" "n + 2048 \<le> 2 ^ 31"
    and i: "i < length (threads s)" "threads s ! i = (Req_Put reqs, Put_Loop name (upload_data reqs) 0 [])"
    and m_def: "m = upload_chunks (upload_data reqs)" and idle: "sweeper s = Sweep_Idle"
    and few: "few_nodes (coordinator s)"
  shows "\<exists>l cs x w'. (move rt ^^ l) s (after_upload i reqs name (n + m) cs x w' s) \<and> m \<le> 2048 \<and>
     map chunk_id cs = map chunk_name [n..<n + m] \<and> changes (fresh_names n (n + m)) (nodes s) w' \<and>
     list_all2 (replica_ok (registered_nodes (coordinator s)) w') cs (map (chunk_slice (upload_data reqs)) [0..<m]) \<and>
     (\<forall>c \<in> set cs. node_ids c \<noteq> [] \<and> set (node_ids c) \<subseteq> fst ` set (registered_nodes (coordinator s)))"
proof -
  let ?d = "upload_data reqs" and ?st = "coordinator s"
  have m: "m \<le> 2048" "\<forall>i \<in> set [0..<m]. i * CHUNK_SIZE < 2 ^ 31"
    using small_slices(1,2) [OF assms(8)] by (simp_all add: m_def upload_chunks_def)
  have len: "n + length [0..<m] \<le> 2 ^ 31" using m(1) assms(9) by simp
  obtain cs st' w' where run: "put_chunks rt ?d [0..<m] ?st (nodes s) = Some (Inr cs, st', w')"
    using put_chunks_ok [OF assms(1-4) len assms(6,5,7) m(2) few] by blast
  obtain m' x where e: "st' = ?st\<lparr>chunk_id_counter := of_nat (n + m'), next_node_index := x\<rparr>"
      "changes (fresh_names n (n + m')) (nodes s) w'"
      "\<forall>cs'. Inr cs = (Inr cs' :: Status + ChunkInfo list) \<longrightarrow> m' = length [0..<m] \<and> map chunk_id cs' = map chunk_name [n..<n + m'] \<and>
        (\<forall>c \<in> set cs'. set (node_ids c) \<subseteq> fst ` set (registered_nodes ?st)) \<and>
        list_all2 (replica_ok (registered_nodes ?st) w') cs' (map (chunk_slice ?d) [0..<m])"
    using put_chunks_effect [OF assms(1-4) len run] by blast
  have m': "m' = m" using e(3) by simp
  have h: "iterates_all (hash_order rt)" using assms(2) by (simp add: good_runtime_def)
  have all: "runs_all_tasks (sched rt)" using assms(2) by (simp add: good_runtime_def)
  obtain js where js: "returned (commit_upload name ?d (put_chunks rt ?d [0..<m] ?st (nodes s)))
     (alone rt (Req_Put reqs) js (Put_Loop name ?d 0 [], ?st, nodes s))"
    using put_loop_returns [OF all, where d = ?d] unfolding m_def by blast
  have a: "alone rt (Req_Put reqs) js (Put_Loop name ?d 0 [], ?st, nodes s)
       = (Put_Return status_OK \<lparr>pfs_success = True\<rparr>, coordinator (after_upload i reqs name (n + m) cs x w' s), w')"
    using js unfolding run by (simp add: commit_upload_def e(1) m' after_upload_def)
  have "(move rt ^^ length js) s (after_upload i reqs name (n + m) cs x w' s)"
    using alone_moves [OF i idle a] by (simp add: after_upload_def del: relpowp.simps)
  then show ?thesis
    using m(1) e(2,3) put_chunks_nodes [OF h run] m'
    by (intro exI [of _ "length js"] exI [of _ cs] exI [of _ x] exI [of _ w']) (simp del: relpowp.simps)
qed

end

lemma putFile_twice:
  "all_chunks (putFile p m2 ((putFile p m1 ms)\<lparr>read_count := x\<rparr>)) = all_chunks (putFile p m2 ms)"
  "all_chunks (putFile p m2 (putFile p m1 ms)) = all_chunks (putFile p m2 ms)"
  by (simp_all add: all_chunks_def store_metas_def putFile_def AList.update_last)

lemma check_new_name:
  assumes "upload_name reqs \<noteq> []" "active_files (store st) (upload_name reqs) = None"
  shows "alone rt (Req_Put reqs) [0] (Put_Check, st, w) = (Put_Loop (upload_name reqs) (upload_data reqs) 0 [],
    st\<lparr>store := (store st)\<lparr>read_count := read_count (store st) + 1\<rparr>\<rparr>, w)"
  using assms by (cases reqs)
    (simp_all add: put_receive_eq upload_name_def upload_data_def del: put_receive.simps)

lemma upload_chunks_pos:
  assumes "d \<noteq> []" "length d \<le> 2 ^ 50"
  shows "0 < upload_chunks d"
proof -
  have "1048576 \<le> length d + 1048575" using assms(1) by (cases d) simp_all
  then show ?thesis using num_chunks_value [OF assms(2)] by (simp add: upload_chunks_def div_greater_zero_iff)
qed

text \<open>The first of two uploads of a name that have both passed the check, then the second.\<close>

context dfs_nodes
begin

lemma first_chunk_lost:
  assumes "base_inv n k A st" "ids_of (all_chunks (store st)) \<subseteq> chunk_name ` {..<n}" "n + m1 + m2 \<le> 2 ^ 31" "0 < m1"
    and "map chunk_id cs1 = map chunk_name [n..<n + m1]" "map chunk_id cs2 = map chunk_name [n + m1..<n + m1 + m2]"
    and "list_all2 (replica_ok (registered_nodes st) w1) cs1 (map (chunk_slice d) [0..<m1])"
    and "\<forall>c \<in> set cs1. node_ids c \<noteq> [] \<and> set (node_ids c) \<subseteq> fst ` set (registered_nodes st)"
    and "changes (fresh_names (n + m1) (n + m1 + m2)) w1 w2" "chunks meta2 = cs2"
  shows "\<exists>e. stored w2 e (chunk_name n) = Some (chunk_slice d 0) \<and>
    chunk_name n \<notin> ids_of (all_chunks (putFile name meta2 (putFile name meta1 (store st))))"
proof -
  obtain c cs where cs1: "cs1 = c # cs" using assms(4,5) by (cases cs1) (auto simp: upt_conv_Cons)
  have id: "chunk_id c = chunk_name n" using assms(4,5) by (simp add: cs1 upt_conv_Cons)
  have r: "replica_ok (registered_nodes st) w1 c (chunk_slice d 0)" using assms(4,7) by (simp add: cs1 upt_conv_Cons)
  define i where "i = hd (node_ids c)"
  have i: "i \<in> set (node_ids c)" "i \<in> fst ` set (registered_nodes st)"
    using assms(8) hd_in_set by (auto simp: cs1 i_def)
  then obtain info where info: "map_of (registered_nodes st) i = Some info"
    using map_of_eq_None_iff by (metis not_None_eq)
  then have "stored w1 (info_endpoint info) (chunk_name n) = Some (chunk_slice d 0)" "valid (chunk_name n)"
    using r i(1) id by (auto simp: replica_ok_def)
  then have st2: "stored w2 (info_endpoint info) (chunk_name n) = Some (chunk_slice d 0)"
    using assms(4,9) unfolding changes_def by (metis fresh_names_chunk leD less_add_same_cancel1)
  have "set (all_chunks (putFile name meta2 (store st))) \<subseteq> set (all_chunks (store st)) \<union> set cs2"
    using set_mset_mono [OF all_chunks_putFile_le [of name meta2 "store st"]] assms(10) by simp
  then have "ids_of (all_chunks (putFile name meta2 (store st))) \<subseteq> ids_of (all_chunks (store st)) \<union> ids_of cs2"
    by (metis image_Un image_mono)
  moreover have "ids_of cs2 = chunk_name ` {n + m1..<n + m1 + m2}" using arg_cong [OF assms(6), of set] by simp
  ultimately have "ids_of (all_chunks (putFile name meta2 (store st))) \<subseteq> chunk_name ` {..<n} \<union> chunk_name ` {n + m1..<n + m1 + m2}"
    using order_trans [OF _ Un_mono [OF assms(2) subset_refl]] by simp
  moreover have "chunk_name n \<notin> chunk_name ` {..<n} \<union> chunk_name ` {n + m1..<n + m1 + m2}" using assms(4) by auto
  ultimately have "chunk_name n \<notin> ids_of (all_chunks (putFile name meta2 (putFile name meta1 (store st))))"
    unfolding putFile_twice by (metis subsetD)
  then show ?thesis using st2 by (intro exI conjI)
qed

text \<open>Both uploads past the check.\<close>

definition both_checked :: "PutFileRequest list \<Rightarrow> PutFileRequest list \<Rightarrow> string \<Rightarrow> 'a system \<Rightarrow> 'a system" where
  "both_checked reqs1 reqs2 name s = s\<lparr>
     threads := threads s @ [(Req_Put reqs1, Put_Loop name (upload_data reqs1) 0 []),
       (Req_Put reqs2, Put_Loop name (upload_data reqs2) 0 [])],
     coordinator := (coordinator s)\<lparr>store := (store (coordinator s))\<lparr>read_count := read_count (store (coordinator s)) + 1 + 1\<rparr>\<rparr>\<rparr>"

lemma both_checked_moves:
  assumes "upload_name reqs1 = name" "upload_name reqs2 = name" "name \<noteq> []"
    and "active_files (store (coordinator s)) name = None" "sweeper s = Sweep_Idle"
  shows "(move rt ^^ 4) s (both_checked reqs1 reqs2 name s)"
proof -
  let ?st = "coordinator s"
  define s1 where "s1 = s\<lparr>threads := threads s @ [(Req_Put reqs1, Put_Loop name (upload_data reqs1) 0 [])],
    coordinator := ?st\<lparr>store := (store ?st)\<lparr>read_count := read_count (store ?st) + 1\<rparr>\<rparr>, nodes := nodes s\<rparr>"
  have "(move rt ^^ Suc (length [0::nat])) s s1"
    unfolding s1_def by (rule request_moves) (use check_new_name [of reqs1 ?st rt "nodes s"] assms in simp_all)
  moreover have "(move rt ^^ Suc (length [0::nat])) s1 (s1\<lparr>threads := threads s1 @ [(Req_Put reqs2, Put_Loop name (upload_data reqs2) 0 [])],
    coordinator := coordinator (both_checked reqs1 reqs2 name s), nodes := nodes s1\<rparr>)"
    by (rule request_moves)
      (use check_new_name [of reqs2 "coordinator s1" rt "nodes s"] assms in \<open>simp_all add: both_checked_def s1_def\<close>)
  ultimately have "(move rt ^^ (Suc (length [0::nat]) + Suc (length [0::nat]))) s (s1\<lparr>threads := threads s1 @ [(Req_Put reqs2, Put_Loop name (upload_data reqs2) 0 [])],
    coordinator := coordinator (both_checked reqs1 reqs2 name s), nodes := nodes s1\<rparr>)" by (rule moves_trans)
  then show ?thesis by (simp add: both_checked_def s1_def numeral_eq_Suc del: relpowp.simps)
qed

lemma same_name_moves:
  assumes "client_factory rt = create" "good_runtime rt" "system_inv n k A s" "sweeper s = Sweep_Idle" "n + 4096 \<le> 2 ^ 31"
    and "registered_nodes (coordinator s) \<noteq> []"
    and "\<forall>(i, info) \<in> set (registered_nodes (coordinator s)). live (nodes s) (info_endpoint info)"
    and "upload_name reqs1 = name" "upload_name reqs2 = name" "name \<noteq> []"
    and "active_files (store (coordinator s)) name = None"
    and "length (upload_data reqs1) \<le> 2 ^ 31" "length (upload_data reqs2) \<le> 2 ^ 31" "upload_data reqs1 \<noteq> []"
    and "k + 3 \<le> 2 ^ 31"
  shows "\<exists>m s' meta e c. (move rt ^^ m) s s' \<and>
    threads s' = threads s @ [(Req_Put reqs1, Put_Return status_OK \<lparr>pfs_success = True\<rparr>),
      (Req_Put reqs2, Put_Return status_OK \<lparr>pfs_success = True\<rparr>)] \<and>
    active_files (store (coordinator s')) name = Some meta \<and> fm_size meta = of_nat (length (upload_data reqs2)) \<and>
    stored (nodes s') e c = Some (chunk_slice (upload_data reqs1) 0) \<and>
    c \<notin> ids_of (all_chunks (store (coordinator s')))"
proof -
  let ?L = "length (threads s)"
  define s2 where "s2 = both_checked reqs1 reqs2 name s"
  define u1 where "u1 = upload_chunks (upload_data reqs1)"
  define u2 where "u2 = upload_chunks (upload_data reqs2)"
  have S: "base_inv n k A (coordinator s2)" "sound (nodes s2)" "ids_of (all_chunks (store (coordinator s2))) \<subseteq> chunk_name ` {..<n}"
    using assms(3) unfolding system_inv_def ids_apart_def
    by (simp_all add: s2_def both_checked_def base_inv_def store_inv_def)
  have r2: "chunk_id_counter (coordinator s2) = of_nat n" "distinct (map fst (registered_nodes (coordinator s2)))"
    "registered_nodes (coordinator s2) \<noteq> []"
    "\<forall>(i, info) \<in> set (registered_nodes (coordinator s2)). live (nodes s2) (info_endpoint info)"
    "?L < length (threads s2)" "threads s2 ! ?L = (Req_Put reqs1, Put_Loop name (upload_data reqs1) 0 [])"
    "sweeper s2 = Sweep_Idle"
    using S(1) assms(4,6,7) by (simp_all add: s2_def both_checked_def base_inv_def nth_append)
  have n: "n + 2048 \<le> 2 ^ 31" using assms(5) by simp
  have few: "few_nodes (coordinator s)" by (rule system_few_nodes [OF assms(3,15)])
  then have few2: "few_nodes (coordinator s2)" by (simp add: s2_def both_checked_def few_nodes_def)
  obtain l1 cs1 x1 w1 where A: "(move rt ^^ l1) s2 (after_upload ?L reqs1 name (n + u1) cs1 x1 w1 s2)" "u1 \<le> 2048"
     "map chunk_id cs1 = map chunk_name [n..<n + u1]" "changes (fresh_names n (n + u1)) (nodes s2) w1"
     "list_all2 (replica_ok (registered_nodes (coordinator s2)) w1) cs1 (map (chunk_slice (upload_data reqs1)) [0..<u1])"
     "\<forall>c \<in> set cs1. node_ids c \<noteq> [] \<and> set (node_ids c) \<subseteq> fst ` set (registered_nodes (coordinator s2))"
    using upload_completes [OF assms(1,2) S(2) r2(1-4) assms(12) n r2(5,6) u1_def r2(7) few2] by blast
  define s3 where "s3 = after_upload ?L reqs1 name (n + u1) cs1 x1 w1 s2"
  have regs: "registered_nodes (coordinator s3) = registered_nodes (coordinator s2)"
    by (simp add: s3_def after_upload_def)
  have "live (nodes s3) (info_endpoint info)" if "(i, info) \<in> set (registered_nodes (coordinator s3))" for i info
  proof -
    have "live (nodes s2) (info_endpoint info)" using r2(4) that regs by auto
    from changes_live [OF A(4) this] show ?thesis by (simp add: s3_def after_upload_def)
  qed
  then have "\<forall>(i, info) \<in> set (registered_nodes (coordinator s3)). live (nodes s3) (info_endpoint info)"
    by auto
  moreover have "sound (nodes s3)" using changes_sound [OF A(4)] by (simp add: s3_def after_upload_def)
  ultimately have r3: "sound (nodes s3)" "chunk_id_counter (coordinator s3) = of_nat (n + u1)" "distinct (map fst (registered_nodes (coordinator s3)))"
    "registered_nodes (coordinator s3) \<noteq> []"
    "\<forall>(i, info) \<in> set (registered_nodes (coordinator s3)). live (nodes s3) (info_endpoint info)"
    "Suc ?L < length (threads s3)" "threads s3 ! Suc ?L = (Req_Put reqs2, Put_Loop name (upload_data reqs2) 0 [])"
    "sweeper s3 = Sweep_Idle"
    using r2(1-3,7) by (auto simp: s3_def after_upload_def s2_def both_checked_def nth_append)
  have few3: "few_nodes (coordinator s3)" using few2 regs by (simp add: few_nodes_def)
  have n2: "n + u1 + 2048 \<le> 2 ^ 31" using A(2) assms(5) by simp
  obtain l2 cs2 x2 w2 where B: "(move rt ^^ l2) s3 (after_upload (Suc ?L) reqs2 name (n + u1 + u2) cs2 x2 w2 s3)" "u2 \<le> 2048"
     "map chunk_id cs2 = map chunk_name [n + u1..<n + u1 + u2]" "changes (fresh_names (n + u1) (n + u1 + u2)) (nodes s3) w2"
    using upload_completes [OF assms(1,2) r3(1-5) assms(13) n2 r3(6,7) u2_def r3(8) few3] by blast
  define s4 where "s4 = after_upload (Suc ?L) reqs2 name (n + u1 + u2) cs2 x2 w2 s3"
  have u1: "0 < u1" using upload_chunks_pos [OF assms(14)] assms(12) by (simp add: u1_def)
  have le: "n + u1 + u2 \<le> 2 ^ 31" using n2 B(2) by simp
  have w1: "nodes s3 = w1" by (simp add: s3_def after_upload_def)
  note lost = first_chunk_lost [OF S(1,3) le u1 A(3) B(3) A(5,6) B(4) [unfolded w1]]
  have st4: "store (coordinator s4) = putFile name
      \<lparr>fm_size = of_nat (length (upload_data reqs2)), chunk_size = of_nat CHUNK_SIZE, chunks = cs2\<rparr> (putFile name
      \<lparr>fm_size = of_nat (length (upload_data reqs1)), chunk_size = of_nat CHUNK_SIZE, chunks = cs1\<rparr> (store (coordinator s2)))"
    "nodes s4 = w2"
    by (simp_all add: s4_def s3_def after_upload_def)
  have "\<exists>e. stored (nodes s4) e (chunk_name n) = Some (chunk_slice (upload_data reqs1) 0) \<and>
    chunk_name n \<notin> ids_of (all_chunks (store (coordinator s4)))"
    unfolding st4 by (rule lost) simp
  moreover have "threads s4 = threads s @ [(Req_Put reqs1, Put_Return status_OK \<lparr>pfs_success = True\<rparr>),
      (Req_Put reqs2, Put_Return status_OK \<lparr>pfs_success = True\<rparr>)]"
    by (simp add: s4_def s3_def s2_def after_upload_def both_checked_def list_update_append)
  moreover have "\<exists>meta. active_files (store (coordinator s4)) name = Some meta \<and> fm_size meta = of_nat (length (upload_data reqs2))"
    by (simp add: s4_def after_upload_def active_files_putFile)
  moreover have "(move rt ^^ (4 + l1 + l2)) s s4"
    using moves_trans [OF moves_trans [OF both_checked_moves [OF assms(8-11) assms(4)] A(1) [unfolded s2_def]] B(1) [unfolded s3_def s2_def]]
    unfolding s4_def s3_def s2_def .
  ultimately show ?thesis by blast
qed

end

section \<open>Threads and their own steps\<close>

text \<open>Every thread of the interleaved system is driven by the states it has met.\<close>

lemma driven_cong: "(\<And>m. m < n \<Longrightarrow> \<sigma> m = \<tau> m) \<Longrightarrow> driven rt r \<sigma> n = driven rt r \<tau> n"
  by (induction n) simp_all

lemma threads_driven:
  assumes "(move rt ^^ m) (start_system w) s" "(r, h) \<in> set (threads s)"
  shows "\<exists>\<sigma> n. n \<le> m \<and> h = driven rt r \<sigma> n"
  using assms
proof (induction m arbitrary: s r h)
  case 0
  then show ?case by (auto simp: start_system_def)
next
  case (Suc m)
  then obtain s0 where s0: "(move rt ^^ m) (start_system w) s0" "move rt s0 s" by auto
  have old: "\<exists>\<sigma> n. n \<le> Suc m \<and> h = driven rt r \<sigma> n" if "(r, h) \<in> set (threads s0)" for r h
    using Suc.IH [OF s0(1) that] le_SucI by blast
  from s0(2) Suc.prems(2) show ?case
  proof cases
    case (arrive r')
    then have "(r, h) \<in> set (threads s0) \<or> (\<forall>\<sigma>. h = driven rt r \<sigma> 0)" using Suc.prems(2) by auto
    then show ?thesis using old by blast
  next
    case (thread i r1 h1 j h' st' w')
    have "(r1, h1) \<in> set (threads s0)" using thread(2,3) nth_mem by metis
    from Suc.IH [OF s0(1) this] obtain \<sigma> n where n: "n \<le> m" "h1 = driven rt r1 \<sigma> n" by blast
    have "driven rt r1 (\<sigma>(n := (j, coordinator s0, nodes s0))) (Suc n) = h'"
      using thread(5) n(2) driven_cong [of n "\<sigma>(n := (j, coordinator s0, nodes s0))" \<sigma> rt r1] by simp
    moreover have "(r, h) \<in> set (threads s0) \<or> (r, h) = (r1, h')"
      using Suc.prems(2) thread(1) set_update_subset_insert [of "threads s0" i "(r1, h')"] by auto
    ultimately show ?thesis using old n(1) by (metis Suc_le_mono prod.inject)
  qed (use old Suc.prems(2) in auto)
qed

end
