(* ===== verification/Concurrent_Properties.thy ===== *)
theory Concurrent_Properties
  imports Thread_Runs Dfs_Properties
begin

text \<open>
  What concurrent requests can and cannot do to each other: the properties of the
  interleaved system over the network of data nodes, each with an example run.
\<close>

section \<open>The handlers and the invariant\<close>

lemma reached_inv:
  assumes "cluster_sound w" "good_runtime rt" "client_factory rt = CreateClient network_stub"
    and "(move rt ^^ m) (start_system w) s" "m \<le> 2 ^ 31"
  shows "\<exists>n k A. n \<le> m \<and> k \<le> m \<and> dfs.system_inv n k A s"
  using dfs.system_inv_reached [OF assms(3,2,1,4,5)] .

text \<open>The three nodes of the examples register, one after the other.\<close>

definition joined :: "(request \<times> handler) list" where
  "joined = map (\<lambda>(i, peer). (Req_Register peer 9000,
       Register_Return status_OK (empty_RegisterDataNodeResponse\<lparr>rdr_success := True, rdr_node_id := i\<rparr>)))
     [(1, ''ipv4:10.0.0.1:5000''), (2, ''ipv4:10.0.0.2:5000''), (3, ''ipv4:10.0.0.3:5000'')]"

lemma register_moves:
  assumes "sweeper s = Sweep_Idle" "RegisterDataNode (hash_order rt) peer port (coordinator s) = ((status, resp), st')"
  shows "(move rt ^^ 4) s (s\<lparr>threads := threads s @ [(Req_Register peer port, Register_Return status resp)], coordinator := st'\<rparr>)"
proof -
  have "alone rt (Req_Register peer port) [0, 0, 0] (entry_point (Req_Register peer port), coordinator s, nodes s)
      = (Register_Return status resp, st', nodes s)"
    unfolding entry_point.simps by (rule RegisterDataNode_alone [OF _ assms(2)]) simp
  from request_moves [OF this assms(1)] show ?thesis by (simp add: numeral_eq_Suc del: relpowp.simps)
qed

lemma demo_moves:
  "\<exists>s. (move demo_runtime ^^ 12) (start_system demo_w0) s \<and> coordinator s = three_nodes \<and>
     nodes s = demo_w0 \<and> threads s = joined \<and> sweeper s = Sweep_Idle"
proof -
  let ?ok = "\<lambda>i. (status_OK, empty_RegisterDataNodeResponse\<lparr>rdr_success := True, rdr_node_id := i\<rparr>)"
  let ?go = "\<lambda>peer s. s\<lparr>threads := threads s @ [(Req_Register peer 9000,
      (\<lambda>(status, resp). Register_Return status resp) (fst (RegisterDataNode (hash_order demo_runtime) peer 9000 (coordinator s))))],
    coordinator := snd (RegisterDataNode (hash_order demo_runtime) peer 9000 (coordinator s))\<rparr>"
  have go: "(move demo_runtime ^^ 4) s (?go peer s)" if "sweeper s = Sweep_Idle" for peer and s :: "cluster system"
    using register_moves [OF that, of demo_runtime peer 9000]
    by (cases "RegisterDataNode (hash_order demo_runtime) peer 9000 (coordinator s)") (auto simp del: relpowp.simps)
  define s1 where "s1 = ?go ''ipv4:10.0.0.1:5000'' (start_system demo_w0)"
  define s2 where "s2 = ?go ''ipv4:10.0.0.2:5000'' s1"
  define s3 where "s3 = ?go ''ipv4:10.0.0.3:5000'' s2"
  have idle: "sweeper (start_system demo_w0) = Sweep_Idle" "sweeper s1 = Sweep_Idle" "sweeper s2 = Sweep_Idle"
    "sweeper s3 = Sweep_Idle"
    by (simp_all add: start_system_def s1_def s2_def s3_def)
  have "(move demo_runtime ^^ 4) (start_system demo_w0) s1" unfolding s1_def by (rule go [OF idle(1)])
  moreover have "(move demo_runtime ^^ 4) s1 s2" unfolding s2_def by (rule go [OF idle(2)])
  moreover have "(move demo_runtime ^^ 4) s2 s3" unfolding s3_def by (rule go [OF idle(3)])
  ultimately have "(move demo_runtime ^^ (4 + 4 + 4)) (start_system demo_w0) s3" using moves_trans by blast
  moreover have "coordinator s3 = three_nodes" "nodes s3 = demo_w0" "threads s3 = joined"
    by (simp_all add: s1_def s2_def s3_def demo_runtime_def RegisterDataNode_def new_CoordinatorServiceImpl_def joined_def
        start_system_def three_nodes_def extractClientAddress_def rfind_char_def find_char_def)
  ultimately show ?thesis using idle(4) by (intro exI [of _ s3]) (simp del: relpowp.simps)
qed

text \<open>C9. A handler alone is the atomic handler: for every request there are choices with which the
  step-by-step thread computes, when no other thread moves, exactly what \<open>PutFile\<close>, \<open>GetFile\<close>,
  \<open>DeleteFile\<close>, \<open>RegisterDataNode\<close> or \<open>UnregisterDataNode\<close> does, answers, state and nodes alike,
  within the given numbers of steps, and a round of the cleanup in which nothing else moves is the
  step \<open>Cleaning\<close> of the worker.\<close>

theorem handlers_run_alone:
  assumes "runs_all_tasks (sched rt)"
  shows "(\<exists>js. length js \<le> 14 * upload_chunks (upload_data reqs) + 2 \<and>
      returned (PutFile rt reqs st w) (alone rt (Req_Put reqs) js (entry_point (Req_Put reqs), st, w)))
   \<and> alone rt (Req_Get name wr) (replicate (download_steps (store st) name + n) 0) (entry_point (Req_Get name wr), st, w)
     = (case GetFile rt \<lparr>gfr_filename = name\<rparr> wr st w of ((status, resps), q) \<Rightarrow> (Get_Return status resps, q))
   \<and> alone rt (Req_Delete name t now) (replicate (4 + n) 0) (entry_point (Req_Delete name t now), st, w)
     = (case DeleteFile \<lparr>dfr_path = name\<rparr> t now st of ((status, resp), st') \<Rightarrow> (Delete_Return status resp, st', w))
   \<and> alone rt (Req_Register peer port) (replicate (3 + n) 0) (entry_point (Req_Register peer port), st, w)
     = (case RegisterDataNode (hash_order rt) peer port st of ((status, resp), st') \<Rightarrow> (Register_Return status resp, st', w))
   \<and> alone rt (Req_Unregister node_id) (replicate (2 + n) 0) (entry_point (Req_Unregister node_id), st, w)
     = (case UnregisterDataNode node_id st of ((status, resp), st') \<Rightarrow> (Unregister_Return status resp, st', w))
   \<and> sweeps rt now (Sweep_Idle, st\<lparr>cleanup_thread := Some Cleaning\<rparr>, w, log)
       (Sweep_Idle, cleanupWorker_step rt now (st\<lparr>cleanup_thread := Some Cleaning\<rparr>, w, log))"
proof -
  obtain status resps st' w' where G: "GetFile rt \<lparr>gfr_filename = name\<rparr> wr st w = ((status, resps), st', w')"
    by (metis prod.exhaust)
  obtain dstatus dresp dst where D: "DeleteFile \<lparr>dfr_path = name\<rparr> t now st = ((dstatus, dresp), dst)"
    by (metis prod.exhaust)
  obtain rstatus rresp rst where R: "RegisterDataNode (hash_order rt) peer port st = ((rstatus, rresp), rst)"
    by (metis prod.exhaust)
  obtain ustatus uresp ust where U: "UnregisterDataNode node_id st = ((ustatus, uresp), ust)"
    by (metis prod.exhaust)
  show ?thesis
    unfolding G D R U entry_point.simps prod.case
    by (intro conjI PutFile_alone [OF assms] GetFile_alone [OF _ G] DeleteFile_alone [OF _ D]
        RegisterDataNode_alone [OF _ R] UnregisterDataNode_alone [OF _ U] sweep_alone) simp_all
qed

theorem handlers_run_alone_witness:
  "\<exists>js. alone demo_runtime (Req_Put [\<lparr>pfr_filename = ''a'', pfr_data = ''x''\<rparr>]) js (Put_Check, new_CoordinatorServiceImpl, demo_w0)
    = (Put_Return (Status INTERNAL ''No nodes available for replication'') \<lparr>pfs_success = False\<rparr>,
       new_CoordinatorServiceImpl\<lparr>store := empty_MetadataStore\<lparr>read_count := 1\<rparr>, chunk_id_counter := 1\<rparr>, demo_w0)"
proof -
  let ?reqs = "[\<lparr>pfr_filename = ''a'', pfr_data = ''x''\<rparr>]"
  have all: "runs_all_tasks (sched demo_runtime)" using demo_runtime_good by (simp add: good_runtime_def)
  have one: "nat (sint (num_chunks (Suc 0))) = Suc 0" using num_chunks_value [of 1] by simp
  have put: "PutFile demo_runtime ?reqs new_CoordinatorServiceImpl demo_w0
    = Some ((Status INTERNAL ''No nodes available for replication'', \<lparr>pfs_success = False\<rparr>),
        new_CoordinatorServiceImpl\<lparr>store := empty_MetadataStore\<lparr>read_count := 1\<rparr>, chunk_id_counter := 1\<rparr>, demo_w0)"
    by (simp add: PutFile_def put_receive_eq new_CoordinatorServiceImpl_def active_files_def one put_chunks.simps(2)
        selectNodesForReplication_def default_ChunkInfo_def empty_MetadataStore_def del: put_receive.simps)
  obtain js where "returned (PutFile demo_runtime ?reqs new_CoordinatorServiceImpl demo_w0)
      (alone demo_runtime (Req_Put ?reqs) js (entry_point (Req_Put ?reqs), new_CoordinatorServiceImpl, demo_w0))"
    using handlers_run_alone [OF all, THEN conjunct1, of ?reqs new_CoordinatorServiceImpl demo_w0] by blast
  then show ?thesis unfolding put by (intro exI [of _ js]) (simp only: returned.simps entry_point.simps)
qed

text \<open>C7. Concurrent requests never share an identifier: in every state of the interleaved system
  that at most \<open>2^31\<close> moves lead to, the identifiers of the chunks of all stored files and
  tombstones and of every upload in progress are pairwise different, and so are those of the
  registered nodes and of every registration in progress.\<close>

theorem concurrent_ids_unique:
  assumes "cluster_sound w" "good_runtime rt" "client_factory rt = CreateClient network_stub"
    and "(move rt ^^ m) (start_system w) s" "m \<le> 2 ^ 31"
  shows "distinct (map chunk_id (all_chunks (store (coordinator s)))) \<and>
    distinct (map fst (registered_nodes (coordinator s))) \<and>
    (\<forall>i < length (threads s). distinct (busy (snd (threads s ! i))) \<and>
       set (busy (snd (threads s ! i))) \<inter> chunk_id ` set (all_chunks (store (coordinator s))) = {} \<and>
       drawn (snd (threads s ! i)) \<inter> fst ` set (registered_nodes (coordinator s)) = {} \<and>
       (\<forall>j < length (threads s). i \<noteq> j \<longrightarrow> set (busy (snd (threads s ! i))) \<inter> set (busy (snd (threads s ! j))) = {} \<and>
          drawn (snd (threads s ! i)) \<inter> drawn (snd (threads s ! j)) = {}))"
proof -
  obtain n k A where S: "dfs.system_inv n k A s" using reached_inv [OF assms] by blast
  note I = dfs.system_invD [OF S]
  have reg: "distinct (map fst (registered_nodes (coordinator s)))" "fst ` set (registered_nodes (coordinator s)) \<subseteq> A"
    using I(1) by (simp_all add: base_inv_def)
  show ?thesis
  proof (intro conjI allI impI)
    show "distinct (map chunk_id (all_chunks (store (coordinator s))))" using I(3) by (simp only: ids_apart_def)
    show "distinct (map fst (registered_nodes (coordinator s)))" by (rule reg(1))
    fix i assume i: "i < length (threads s)"
    note i' = ids_apartD [OF I(3) i prod.collapse [symmetric]] nodes_apartD [OF I(4) i prod.collapse [symmetric]]
    show "distinct (busy (snd (threads s ! i)))" by (rule i'(1))
    show "set (busy (snd (threads s ! i))) \<inter> chunk_id ` set (all_chunks (store (coordinator s))) = {}" by (rule i'(2))
    show "drawn (snd (threads s ! i)) \<inter> fst ` set (registered_nodes (coordinator s)) = {}"
      using i'(8) reg(2) by fast
    fix j assume j: "j < length (threads s)" "i \<noteq> j"
    show "set (busy (snd (threads s ! i))) \<inter> set (busy (snd (threads s ! j))) = {}"
      by (rule i'(6) [OF j(1) prod.collapse [symmetric] j(2) [symmetric]])
    show "drawn (snd (threads s ! i)) \<inter> drawn (snd (threads s ! j)) = {}"
      by (rule i'(9) [OF j(1) prod.collapse [symmetric] j(2)])
  qed
qed

text \<open>C8. Every stored file is well formed, also under concurrency, on disks that never run full: it
  is an upload that answered OK, its size and chunk size say so, it has one descriptor for each
  megabyte begun, and each descriptor names three replicas, every one on a node whose registration
  has answered success with that identifier (positive, and at most the number of moves).\<close>

theorem concurrent_files_well_formed:
  assumes "cluster_tidy w" "disks_have_room w"
    and "good_runtime rt" "client_factory rt = CreateClient network_stub"
    and "(move rt ^^ m) (start_system w) s" "m \<le> 2 ^ 31"
    and "active_files (store (coordinator s)) name = Some meta"
  shows "\<exists>d. (name, d) \<in> uploads s \<and> fm_size meta = of_nat (length d) \<and> chunk_size meta = of_nat CHUNK_SIZE \<and>
    length (chunks meta) = upload_chunks d \<and>
    (\<forall>c \<in> set (chunks meta). replication_factor c = 3 \<and> length (node_ids c) = 3 \<and>
       (\<forall>i \<in> set (node_ids c). 0 < unat i \<and> unat i \<le> m \<and>
          (\<exists>peer port resp. (Req_Register peer port, Register_Return status_OK resp) \<in> set (threads s) \<and>
             rdr_success resp \<and> rdr_node_id resp = i)))"
proof -
  have sound: "cluster_sound w" using assms(1,2) by (simp add: cluster_sound_def)
  obtain n k A where k: "k \<le> m" and S: "dfs.system_inv n k A s" using reached_inv [OF sound assms(3-6)] by blast
  obtain d where d: "(name, d) \<in> uploads s"
    "describes (dfs.held A (registered_nodes (coordinator s)) (nodes s)) meta d"
    using dfs.system_invD(6) [OF S] assms(7) unfolding dfs.files_ok_def by blast
  have A: "A \<subseteq> of_nat ` {1..k}" using dfs.system_invD(4) [OF S] by (simp only: nodes_apart_def)
  have ok: "descriptor_ok A c" if "c \<in> set (chunks meta)" for c
    using describes_chunk [OF d(2)] that by (auto simp: in_set_conv_nth dfs.held_def)
  have "0 < unat i \<and> unat i \<le> m \<and>
      (\<exists>peer port resp. (Req_Register peer port, Register_Return status_OK resp) \<in> set (threads s) \<and>
         rdr_success resp \<and> rdr_node_id resp = i)" if c: "c \<in> set (chunks meta)" "i \<in> set (node_ids c)" for c i
  proof -
    have i: "i \<in> A" using ok [OF c(1)] c(2) by (auto simp: descriptor_ok_def)
    then obtain j where j: "i = of_nat j" "1 \<le> j" "j \<le> k" using A by auto
    then have "unat i = j" using k assms(6) by (simp add: unsigned_of_nat take_bit_nat_eq_self)
    moreover have "i \<in> enrolled s" using dfs.system_invD(8) [OF S] i by blast
    ultimately show ?thesis using j k by (simp add: enrolled_iff)
  qed
  then show ?thesis
    using d ok describes_length [OF d(2)] by (intro exI [of _ d]) (simp add: describes_def descriptor_ok_def)
qed

text \<open>C14. Nothing loses a visible file, on disks that never run full: whatever uploads, downloads, deletions, registrations,
  unregistrations and cleanup rounds interleave, every registered node that a visible file's
  descriptor names holds exactly the chunk's slice of one upload of that name that answered OK,
  so a download that runs next succeeds with these bytes if each chunk has one such node live and
  the file has at most \<open>2^50\<close> bytes. (A node whose disk is full would hold a truncated chunk and
  have answered OK.)\<close>

theorem concurrent_files_durable:
  assumes "cluster_tidy w" "disks_have_room w"
    and "good_runtime rt" "client_factory rt = CreateClient network_stub"
    and "(move rt ^^ m) (start_system w) s" "m \<le> 2 ^ 31"
    and "active_files (store (coordinator s)) name = Some meta"
  shows "\<exists>d. (name, d) \<in> uploads s \<and>
    (\<forall>j < length (chunks meta). \<forall>i \<in> set (node_ids (chunks meta ! j)). \<forall>info.
       map_of (registered_nodes (coordinator s)) i = Some info \<longrightarrow>
       stored_chunk (nodes s) (info_endpoint info) (chunk_id (chunks meta ! j)) = Some (chunk_slice d j)) \<and>
    (length d \<le> 2 ^ 50 \<longrightarrow> (\<forall>c \<in> set (chunks meta). \<exists>i \<in> set (node_ids c). \<exists>info.
         map_of (registered_nodes (coordinator s)) i = Some info \<and> node_live (nodes s) (info_endpoint info)) \<longrightarrow>
       (\<exists>status resps q. GetFile rt \<lparr>gfr_filename = name\<rparr> (\<lambda>_. True) (coordinator s) (nodes s) = ((status, resps), q) \<and>
          status_ok status \<and> concat (map gfs_data resps) = d))"
proof -
  have start: "cluster_sound w" using assms(1,2) by (simp add: cluster_sound_def)
  let ?reg = "registered_nodes (coordinator s)" and ?w = "nodes s"
  obtain n k A where S: "dfs.system_inv n k A s" using reached_inv [OF start assms(3-6)] by blast
  obtain d where d: "(name, d) \<in> uploads s" "describes (dfs.held A ?reg ?w) meta d"
    using dfs.system_invD(6) [OF S] assms(7) unfolding dfs.files_ok_def by blast
  have held: "dfs.held A ?reg ?w (chunks meta ! j) (chunk_slice d j)" if "j < length (chunks meta)" for j
    by (rule describes_chunk [OF d(2) that])
  have all: "list_all2 (dfs.replica_ok ?reg ?w) (chunks meta) (map (chunk_slice d) [0..<upload_chunks d])"
    using held describes_length [OF d(2)] by (simp add: list_all2_conv_all_nth dfs.replica_ok_def dfs.held_def)
  have "\<exists>status resps q. GetFile rt \<lparr>gfr_filename = name\<rparr> (\<lambda>_. True) (coordinator s) ?w = ((status, resps), q) \<and>
      status_ok status \<and> concat (map gfs_data resps) = d"
    if len: "length d \<le> 2 ^ 50" and live: "\<forall>c \<in> set (chunks meta). \<exists>i \<in> set (node_ids c). \<exists>info.
         map_of ?reg i = Some info \<and> node_live ?w (info_endpoint info)"
  proof -
    obtain status resps w' where loop: "get_file_loop rt ?reg (\<lambda>_. True) 0 (chunks meta) ?w = ((status, resps), w')"
      by (metis prod.exhaust)
    have sound: "cluster_sound ?w" by (rule dfs.system_invD(2) [OF S])
    have ok: "status_ok status"
      using dfs.get_file_loop_ok [OF assms(4) sound all _ live, of "\<lambda>_. True" 0] loop by simp
    have "map gfs_data resps = map (chunk_slice d) [0..<upload_chunks d]"
      by (rule dfs.get_file_loop_effect(2) [OF assms(4) sound all loop ok])
    then have "concat (map gfs_data resps) = d"
      using concat_all_slices [OF refl len] by (simp add: upload_chunks_def)
    then show ?thesis using loop ok assms(7) by (auto simp: GetFile_def getFile_eq)
  qed
  then show ?thesis using d(1) held by (intro exI [of _ d]) (simp add: dfs.held_def)
qed

text \<open>C6. Downloads are atomic under concurrency, on disks that never run full: whatever uploads (of at
  most \<open>2^50\<close> bytes), downloads, deletions, registrations, unregistrations and cleanups interleave
  and whichever calls are lost, a download that answers OK has streamed exactly the bytes of one
  upload of that name that answered OK. (On a full disk the node would have answered OK for a
  truncated chunk, and the download would stream that.)\<close>

theorem concurrent_downloads_exact:
  assumes "cluster_tidy w" "disks_have_room w"
    and "good_runtime rt" "client_factory rt = CreateClient network_stub"
    and "(move rt ^^ m) (start_system w) s" "m \<le> 2 ^ 31"
    and "(Req_Get name wr, Get_Return status resps) \<in> set (threads s)" "status_ok status"
    and "\<forall>reqs h. (Req_Put reqs, h) \<in> set (threads s) \<longrightarrow> length (upload_data reqs) \<le> 2 ^ 50"
  shows "(name, concat (map gfs_data resps)) \<in> uploads s"
proof -
  have start: "cluster_sound w" using assms(1,2) by (simp add: cluster_sound_def)
  obtain n k A where S: "dfs.system_inv n k A s" using reached_inv [OF start assms(3-6)] by blast
  from dfs.system_invD(7) [OF S assms(7)]
  have "dfs.thread_ok A (registered_nodes (coordinator s)) (nodes s) (uploads s) (Req_Get name wr) (Get_Return status resps)" .
  then obtain d where d: "(name, d) \<in> uploads s" "map gfs_data resps = map (chunk_slice d) [0..<upload_chunks d]"
    using assms(8) by auto
  then have "length d \<le> 2 ^ 50" using assms(9) by (auto simp: uploads_def)
  from concat_all_slices [OF refl this] have "concat (map gfs_data resps) = d" by (simp add: d(2) upload_chunks_def)
  then show ?thesis using d(1) by simp
qed

text \<open>C12. Two uploads of one name can both succeed, because the check of the name and the commit are two
  critical sections: from every reached state with live nodes and no cleanup round there is an interleaving in which
  two uploads of a new name both answer OK, only the second is visible afterwards, and a chunk
  of the first stays on a node while no file and no tombstone names it.\<close>

theorem same_name_race:
  assumes "cluster_sound w" "good_runtime rt" "client_factory rt = CreateClient network_stub"
    and "(move rt ^^ m) (start_system w) s" "m \<le> 2 ^ 30" and idle: "sweeper s = Sweep_Idle"
    and "registered_nodes (coordinator s) \<noteq> []"
    and "\<forall>(i, info) \<in> set (registered_nodes (coordinator s)). node_live (nodes s) (info_endpoint info)"
    and "upload_name reqs1 = name" "upload_name reqs2 = name" "name \<noteq> []"
    and "active_files (store (coordinator s)) name = None"
    and "length (upload_data reqs1) \<le> 2 ^ 31" "length (upload_data reqs2) \<le> 2 ^ 31" "upload_data reqs1 \<noteq> []"
  shows "\<exists>m s' meta e c. (move rt ^^ m) s s' \<and>
    threads s' = threads s @ [(Req_Put reqs1, Put_Return status_OK \<lparr>pfs_success = True\<rparr>),
      (Req_Put reqs2, Put_Return status_OK \<lparr>pfs_success = True\<rparr>)] \<and>
    active_files (store (coordinator s')) name = Some meta \<and> fm_size meta = of_nat (length (upload_data reqs2)) \<and>
    stored_chunk (nodes s') e c = Some (chunk_slice (upload_data reqs1) 0) \<and>
    c \<notin> chunk_id ` set (all_chunks (store (coordinator s')))"
proof -
  have m: "m \<le> 2 ^ 31" using assms(5) by simp
  obtain n k A where n: "n \<le> m" "dfs.system_inv n k A s" "k \<le> m" using reached_inv [OF assms(1-4) m] by blast
  have "n + 4096 \<le> 2 ^ 31" "k + 3 \<le> 2 ^ 31" using n(1,3) assms(5) by simp_all
  from dfs.same_name_moves [OF assms(3,2) n(2) idle this(1) assms(7-15) this(2)] show ?thesis .
qed

theorem same_name_race_witness:
  "\<exists>m s. (move demo_runtime ^^ m) (start_system demo_w0) s \<and>
    threads s = joined @ [(Req_Put [\<lparr>pfr_filename = ''a'', pfr_data = ''x''\<rparr>], Put_Return status_OK \<lparr>pfs_success = True\<rparr>),
      (Req_Put [\<lparr>pfr_filename = ''a'', pfr_data = ''yz''\<rparr>], Put_Return status_OK \<lparr>pfs_success = True\<rparr>)]"
proof -
  obtain s where s: "(move demo_runtime ^^ 12) (start_system demo_w0) s" "coordinator s = three_nodes" "nodes s = demo_w0"
      "threads s = joined" "sweeper s = Sweep_Idle"
    using demo_moves by blast
  have reg: "registered_nodes (coordinator s) \<noteq> []"
    "\<forall>(i, info) \<in> set (registered_nodes (coordinator s)). node_live (nodes s) (info_endpoint info)"
    "active_files (store (coordinator s)) ''a'' = None"
    using demo_all_live unfolding s(2,3)
    by (simp_all add: three_nodes_def new_CoordinatorServiceImpl_def active_files_def empty_MetadataStore_def)
  have twelve: "(12::nat) \<le> 2 ^ 30" by simp
  obtain m' s' where m': "(move demo_runtime ^^ m') s s'"
    "threads s' = threads s @ [(Req_Put [\<lparr>pfr_filename = ''a'', pfr_data = ''x''\<rparr>], Put_Return status_OK \<lparr>pfs_success = True\<rparr>),
      (Req_Put [\<lparr>pfr_filename = ''a'', pfr_data = ''yz''\<rparr>], Put_Return status_OK \<lparr>pfs_success = True\<rparr>)]"
    using same_name_race [OF demo_w0_sound demo_runtime_good s(1) twelve s(5) reg(1,2),
        of "[\<lparr>pfr_filename = ''a'', pfr_data = ''x''\<rparr>]" "''a''" "[\<lparr>pfr_filename = ''a'', pfr_data = ''yz''\<rparr>]"] reg(3)
    by (auto simp: upload_name_def upload_data_def)
  show ?thesis
    using moves_trans [OF s(1) m'(1)] m'(2) s(4)
    by (intro exI [of _ "12 + m'"] exI [of _ s']) (simp del: relpowp.simps)
qed

text \<open>An upload and a download of the example, as moves of two threads.\<close>

lemma demo_session:
  defines "r1 \<equiv> Req_Put [\<lparr>pfr_filename = ''a'', pfr_data = ''xyz''\<rparr>]" and "r2 \<equiv> Req_Get ''a'' (\<lambda>_. True)"
  shows "\<exists>m s status resps meta. (move demo_runtime ^^ m) (start_system demo_w0) s \<and> m \<le> 2 ^ 31 \<and>
    threads s = joined @ [(r1, Put_Return status_OK \<lparr>pfs_success = True\<rparr>), (r2, Get_Return status resps)] \<and> status_ok status \<and>
    active_files (store (coordinator s)) ''a'' = Some meta \<and> registered_nodes (coordinator s) = registered_nodes three_nodes \<and>
    length (chunks meta) = 1 \<and> sweeper s = Sweep_Idle \<and> m \<le> 50 \<and> set (node_ids (chunks meta ! 0)) = {1, 2, 3}"
proof -
  let ?reqs = "[\<lparr>pfr_filename = ''a'', pfr_data = ''xyz''\<rparr>]"
  have data: "upload_data ?reqs = ''xyz''" "upload_name ?reqs = ''a''" by (simp_all add: upload_data_def upload_name_def)
  have one: "upload_chunks ''xyz'' = 1" by (simp add: upload_chunks_def num_chunks_value)
  obtain s where s: "(move demo_runtime ^^ 12) (start_system demo_w0) s" "coordinator s = three_nodes" "nodes s = demo_w0"
      "threads s = joined" "sweeper s = Sweep_Idle"
    using demo_moves by blast
  obtain rs where r: "reached demo_runtime demo_registrations rs three_nodes demo_w0 []" using demo_registered_state by blast
  have pre: "registered_nodes three_nodes \<noteq> []" "active_files (store three_nodes) (upload_name ?reqs) = None"
    by (simp_all add: three_nodes_def new_CoordinatorServiceImpl_def active_files_def empty_MetadataStore_def)
  obtain st w status resps st' w' where
    P: "PutFile demo_runtime ?reqs three_nodes demo_w0 = Some ((status_OK, \<lparr>pfs_success = True\<rparr>), st, w)" and
    G: "GetFile demo_runtime \<lparr>gfr_filename = ''a''\<rparr> (\<lambda>_. True) st w = ((status, resps), st', w')" and ok: "status_ok status"
    using put_then_get_available' [OF r pre(1) demo_all_live _ pre(2)] data by auto
  have h: "iterates_all (hash_order demo_runtime)" and all: "runs_all_tasks (sched demo_runtime)"
    using demo_runtime_good by (simp_all add: good_runtime_def)
  obtain meta where meta: "active_files (store st) ''a'' = Some meta"
    using PutFile_meta [OF h P] data by (auto simp: status_OK_def status_ok_def)
  have three: "set (node_ids (chunks meta ! 0)) = {1, 2, 3}" 
  proof -
    from demo_upload [OF P] obtain c where c: "active_files (store st) ''a'' = Some \<lparr>fm_size = 3, chunk_size = 1048576, chunks = [c]\<rparr>"
      "set (node_ids c) = {1, 2, 3}" by blast
    have "meta = \<lparr>fm_size = 3, chunk_size = 1048576, chunks = [c]\<rparr>" using meta c(1) by simp
    then show ?thesis using c(2) by (simp only: FileMeta.simps nth_Cons_0)
  qed
  obtain js where js: "length js \<le> 16"
    "alone demo_runtime r1 js (entry_point r1, coordinator s, nodes s) = (Put_Return status_OK \<lparr>pfs_success = True\<rparr>, st, w)"
  proof -
    obtain js where "length js \<le> 14 * upload_chunks (upload_data ?reqs) + 2"
      "returned (PutFile demo_runtime ?reqs three_nodes demo_w0) (alone demo_runtime (Req_Put ?reqs) js (Put_Check, three_nodes, demo_w0))"
      using PutFile_alone [OF all] by blast
    then show thesis using that [of js] by (simp add: P data(1) one s(2,3) r1_def)
  qed
  define m1 where "m1 = 12 + Suc (length js)"
  define s1 where "s1 = s\<lparr>threads := threads s @ [(r1, Put_Return status_OK \<lparr>pfs_success = True\<rparr>)], coordinator := st, nodes := w\<rparr>"
  have s1: "(move demo_runtime ^^ m1) (start_system demo_w0) s1" "coordinator s1 = st" "nodes s1 = w"
    "threads s1 = joined @ [(r1, Put_Return status_OK \<lparr>pfs_success = True\<rparr>)]" "sweeper s1 = Sweep_Idle"
    unfolding m1_def using moves_trans [OF s(1) request_moves [OF js(2) s(5)]] s(4,5) by (simp_all add: s1_def del: relpowp.simps)
  have m1: "m1 \<le> 29" using js(1) by (simp add: m1_def)
  have steps: "download_steps (store st) ''a'' = 14" and len1: "length (chunks meta) = 1"
  proof -
    have "m1 \<le> 2 ^ 31" using m1 by simp
    from reached_inv [OF demo_w0_sound demo_runtime_good s1(1) this] obtain n k A where S: "dfs.system_inv n k A s1" by blast
    obtain d where d: "(''a'', d) \<in> uploads s1" "describes (dfs.held A (registered_nodes st) w) meta d"
      using dfs.system_invD(6) [OF S] meta s1(2,3) unfolding dfs.files_ok_def by blast
    have "d = ''xyz''" using d(1) s1(4) data by (auto simp: uploads_def r1_def joined_def)
    then show len: "length (chunks meta) = 1" using describes_length [OF d(2)] one by simp
    then obtain c where c: "chunks meta = [c]" by (cases "chunks meta") auto
    have "length (node_ids c) = 3" using describes_chunk [OF d(2), of 0] by (simp add: c dfs.held_def descriptor_ok_def)
    then show "download_steps (store st) ''a'' = 14"
      using active_files_Some(1) [OF meta] c by (auto simp: download_steps_def chunk_steps_def)
  qed
  have "alone demo_runtime r2 (replicate 14 0) (entry_point r2, coordinator s1, nodes s1) = (Get_Return status resps, st', w')"
    unfolding r2_def entry_point.simps s1(2,3) by (rule GetFile_alone [OF _ G]) (simp add: steps)
  note run = moves_trans [OF s1(1) request_moves [OF this s1(5)]]
  define s2 where "s2 = s1\<lparr>threads := threads s1 @ [(r2, Get_Return status resps)], coordinator := st', nodes := w'\<rparr>"
  have s2: "(move demo_runtime ^^ (m1 + Suc (length (replicate 14 (0::nat))))) (start_system demo_w0) s2" "coordinator s2 = st'"
    "threads s2 = joined @ [(r1, Put_Return status_OK \<lparr>pfs_success = True\<rparr>), (r2, Get_Return status resps)]"
    using run s1(4) by (simp_all add: s2_def del: relpowp.simps length_replicate)
  have st': "active_files (store st') ''a'' = Some meta" "registered_nodes st' = registered_nodes st"
    using G meta by (auto simp: GetFile_def getFile_eq split: prod.splits)
  have "status_ok status_OK" by (simp add: status_OK_def status_ok_def)
  from PutFile_meta [OF h P this] have "registered_nodes st' = registered_nodes three_nodes" unfolding st'(2) by blast
  then have final: "active_files (store (coordinator s2)) ''a'' = Some meta"
    "registered_nodes (coordinator s2) = registered_nodes three_nodes" using st'(1) by (simp_all only: s2(2))
  have "m1 + Suc (length (replicate 14 (0::nat))) \<le> 2 ^ 31" using m1 by simp
  moreover have "sweeper s2 = Sweep_Idle" by (simp add: s2_def s1(5))
  moreover have "m1 + Suc (length (replicate 14 (0::nat))) \<le> 50" using m1 by simp
  ultimately show ?thesis using s2(1) by (intro exI conjI) (rule s2(3) ok final len1 three | assumption)+
qed

theorem concurrent_ids_unique_witness:
  "\<exists>m s. (move demo_runtime ^^ m) (start_system demo_w0) s \<and> length (threads s) = 5 \<and>
    distinct (map chunk_id (all_chunks (store (coordinator s))))"
proof -
  obtain m s where s: "(move demo_runtime ^^ m) (start_system demo_w0) s" "m \<le> 2 ^ 31" "length (threads s) = 5"
  proof -
    obtain m s where s: "(move demo_runtime ^^ m) (start_system demo_w0) s" "m \<le> 2 ^ 31"
      "\<exists>q1 q2. threads s = joined @ [q1, q2]" using demo_session by blast
    then show thesis using that [of m s] by (auto simp: joined_def)
  qed
  from s(1,3) concurrent_ids_unique [OF demo_w0_sound demo_runtime_good s(1,2), THEN conjunct1] show ?thesis by iprover
qed

theorem concurrent_files_well_formed_witness:
  "\<exists>m s meta. (move demo_runtime ^^ m) (start_system demo_w0) s \<and>
    active_files (store (coordinator s)) ''a'' = Some meta \<and> fm_size meta = 3 \<and> length (chunks meta) = 1"
proof -
  obtain m s status resps meta where s: "(move demo_runtime ^^ m) (start_system demo_w0) s" "m \<le> 2 ^ 31"
    "threads s = joined @ [(Req_Put [\<lparr>pfr_filename = ''a'', pfr_data = ''xyz''\<rparr>], Put_Return status_OK \<lparr>pfs_success = True\<rparr>),
       (Req_Get ''a'' (\<lambda>_. True), Get_Return status resps)]"
    "active_files (store (coordinator s)) ''a'' = Some meta"
    using demo_session by blast
  obtain d where d: "(''a'', d) \<in> uploads s" "fm_size meta = of_nat (length d)" "length (chunks meta) = upload_chunks d"
    using concurrent_files_well_formed [OF demo_w0_room demo_runtime_good s(1,2,4)] by blast
  have "d = ''xyz''" using d(1) s(3) by (auto simp: uploads_def upload_data_def joined_def)
  then show ?thesis
    using d s(1,4) by (intro exI [of _ m] exI [of _ s] exI [of _ meta]) (simp add: upload_chunks_def num_chunks_value)
qed

theorem concurrent_files_durable_witness:
  "\<exists>m s meta. (move demo_runtime ^^ m) (start_system demo_w0) s \<and> active_files (store (coordinator s)) ''a'' = Some meta \<and>
    (\<forall>i \<in> set (node_ids (chunks meta ! 0)). \<forall>info. map_of (registered_nodes three_nodes) i = Some info \<longrightarrow>
       stored_chunk (nodes s) (info_endpoint info) (chunk_id (chunks meta ! 0)) = Some ''xyz'')"
proof -
  obtain m s status resps meta where s: "(move demo_runtime ^^ m) (start_system demo_w0) s" "m \<le> 2 ^ 31"
    "threads s = joined @ [(Req_Put [\<lparr>pfr_filename = ''a'', pfr_data = ''xyz''\<rparr>], Put_Return status_OK \<lparr>pfs_success = True\<rparr>),
       (Req_Get ''a'' (\<lambda>_. True), Get_Return status resps)]"
    "active_files (store (coordinator s)) ''a'' = Some meta" "registered_nodes (coordinator s) = registered_nodes three_nodes"
    "length (chunks meta) = 1"
    using demo_session by blast
  obtain d where d: "(''a'', d) \<in> uploads s"
    "\<forall>j < length (chunks meta). \<forall>i \<in> set (node_ids (chunks meta ! j)). \<forall>info.
       map_of (registered_nodes (coordinator s)) i = Some info \<longrightarrow>
       stored_chunk (nodes s) (info_endpoint info) (chunk_id (chunks meta ! j)) = Some (chunk_slice d j)"
    using concurrent_files_durable [OF demo_w0_room demo_runtime_good s(1,2,4)] by iprover
  have x: "d = ''xyz''" using d(1) s(3) by (auto simp: uploads_def upload_data_def joined_def)
  have "0 < length (chunks meta)" using s(6) by simp
  moreover have "chunk_slice d 0 = ''xyz''" by (simp add: x chunk_slice_eq CHUNK_SIZE_eq)
  ultimately have "\<forall>i \<in> set (node_ids (chunks meta ! 0)). \<forall>info. map_of (registered_nodes three_nodes) i = Some info \<longrightarrow>
       stored_chunk (nodes s) (info_endpoint info) (chunk_id (chunks meta ! 0)) = Some ''xyz''"
    using d(2) unfolding s(5) by metis
  then show ?thesis using s(1,4) by (intro exI [of _ m] exI [of _ s] exI [of _ meta] conjI)
qed

theorem concurrent_downloads_exact_witness:
  "\<exists>m s status resps. (move demo_runtime ^^ m) (start_system demo_w0) s \<and>
    (Req_Get ''a'' (\<lambda>_. True), Get_Return status resps) \<in> set (threads s) \<and> concat (map gfs_data resps) = ''xyz''"
proof -
  obtain m s status resps meta where s: "(move demo_runtime ^^ m) (start_system demo_w0) s" "m \<le> 2 ^ 31"
    "threads s = joined @ [(Req_Put [\<lparr>pfr_filename = ''a'', pfr_data = ''xyz''\<rparr>], Put_Return status_OK \<lparr>pfs_success = True\<rparr>),
       (Req_Get ''a'' (\<lambda>_. True), Get_Return status resps)]" "status_ok status"
    using demo_session by blast
  have "(Req_Get ''a'' (\<lambda>_. True), Get_Return status resps) \<in> set (threads s)" using s(3) by simp
  from concurrent_downloads_exact [OF demo_w0_room demo_runtime_good s(1,2) this s(4)]
  have "(''a'', concat (map gfs_data resps)) \<in> uploads s" using s(3) by (auto simp: upload_data_def joined_def)
  then have "concat (map gfs_data resps) = ''xyz''" using s(3) by (auto simp: uploads_def upload_data_def joined_def)
  then show ?thesis using s(1,3) by (intro exI [of _ m] exI [of _ s] exI [of _ status] exI [of _ resps]) simp
qed

lemma deletePath_keeps_meta:
  assumes "store_inv ms" "meta \<in> set (store_metas ms)" "length (deleted_entries ms) < MAX_DELETED_ENTRIES"
  shows "meta \<in> set (store_metas (deletePath p t now ms))"
proof (cases "\<exists>e. map_of (entries ms) p = Some e \<and> is_file e")
  case False
  then have "deletePath p t now ms = ms" by (auto simp: deletePath_def split: option.splits)
  then show ?thesis using assms(2) by simp
next
  case True
  then obtain e where e: "map_of (entries ms) p = Some e" "is_file e" by blast
  then have d: "entries (deletePath p t now ms) = AList.delete p (entries ms)"
    "deleted_entries (deletePath p t now ms) = deleted_entries ms @ [(p, file_meta e, t)]"
    using assms(3) by (simp_all add: deletePath_def Let_def)
  have keep: "(q, e') \<in> set (AList.delete p (entries ms)) \<or> e' = e" if "(q, e') \<in> set (entries ms)" for q e'
    using that map_of_SomeD [OF e(1)] assms(1) by (auto simp: store_inv_def AList.delete_eq dest: eq_key_imp_eq_value)
  show ?thesis
    using assms(2) keep unfolding store_metas_def d by fastforce
qed

section \<open>A deletion during a download\<close>

text \<open>A handler in the loop over the chunks of the given metadata, or at its end.\<close>

fun iterates :: "FileMeta \<Rightarrow> handler \<Rightarrow> bool" where
  "iterates meta (Get_Loop meta' i resps) \<longleftrightarrow> meta' = meta"
| "iterates meta (Get_Find meta' i resps ids) \<longleftrightarrow> meta' = meta"
| "iterates meta (Get_Client meta' i resps node_id ids) \<longleftrightarrow> meta' = meta"
| "iterates meta (Get_Call meta' i resps info ids) \<longleftrightarrow> meta' = meta"
| "iterates meta h \<longleftrightarrow> finished h"

text \<open>The loop of a download uses nothing of the store but the buffer its iterators point into.\<close>

lemma get_step_store:
  assumes "buffer_alive meta st" "buffer_alive meta (st\<lparr>store := ms\<rparr>)" "iterates meta h"
    and "get_step rt j name wr h (st, w) = (h', st', w')"
  shows "st' = st \<and> iterates meta h' \<and> get_step rt j name wr h (st\<lparr>store := ms\<rparr>, w) = (h', st\<lparr>store := ms\<rparr>, w')"
  using assms by (cases h) (auto simp: Let_def split: if_splits list.splits option.splits prod.splits)

lemma get_loop_store:
  assumes "buffer_alive meta st" "buffer_alive meta (st\<lparr>store := ms\<rparr>)" "iterates meta h"
  shows "alone rt (Req_Get name wr) js (h, st\<lparr>store := ms\<rparr>, w)
    = (case alone rt (Req_Get name wr) js (h, st, w) of (h', st', w') \<Rightarrow> (h', st'\<lparr>store := ms\<rparr>, w'))"
  using assms(3)
proof (induction js arbitrary: h w)
  case (Cons j js)
  obtain h1 st1 w1 where s: "get_step rt j name wr h (st, w) = (h1, st1, w1)" by (metis prod.exhaust)
  from get_step_store [OF assms(1,2) Cons.prems s]
  show ?case using Cons.IH [of h1 w1] s by simp
qed simp

text \<open>C13. A deletion between the two steps of a download makes it use a destroyed object:
  \<open>GetFile\<close> holds a bare pointer into the map after \<open>getFile\<close> has released the mutex, so for
  every visible file there is an interleaving of a download and a deletion that ends in undefined
  behaviour. Once the download iterates over the chunks, the deletion no longer disturbs it: as
  long as the deque has room it goes on exactly as it would have without.\<close>

theorem download_during_delete:
  assumes "active_files (store (coordinator s)) name = Some meta"
    and "store_inv (store (coordinator s))" "length (deleted_entries (store (coordinator s))) < MAX_DELETED_ENTRIES"
    and idle: "sweeper s = Sweep_Idle"
  shows "(\<exists>s'. (move rt ^^ 6) s s' \<and>
      threads s' = threads s @ [(Req_Get name wr, Undefined), (Req_Delete name t now, Delete_Test)])
    \<and> alone rt (Req_Get name wr) js
        (Get_Loop meta i resps, (coordinator s)\<lparr>store := deletePath name t now (store (coordinator s))\<rparr>, nodes s)
      = (case alone rt (Req_Get name wr) js (Get_Loop meta i resps, coordinator s, nodes s) of
           (h, st, w) \<Rightarrow> (h, st\<lparr>store := deletePath name t now (store (coordinator s))\<rparr>, w))"
proof -
  let ?ms = "store (coordinator s)" and ?L = "length (threads s)"
  let ?r1 = "Req_Get name wr" and ?r2 = "Req_Delete name t now"
  obtain e where e: "map_of (entries ?ms) name = Some e" "is_file e" "file_meta e = meta"
    using assms(1) by (auto simp: active_files_def split: option.splits if_splits)
  define st1 where "st1 = (coordinator s)\<lparr>store := snd (getFile name ?ms)\<rparr>"
  define s1 where "s1 = s\<lparr>threads := threads s @ [(?r1, Get_Deref meta)], coordinator := st1, nodes := nodes s\<rparr>"
  define st2 where "st2 = st1\<lparr>store := deletePath name t now (snd (getFile name (store st1)))\<rparr>"
  define s2 where "s2 = s1\<lparr>threads := threads s1 @ [(?r2, Delete_Test)], coordinator := st2, nodes := nodes s1\<rparr>"
  have g: "getFile name ?ms = (Some meta, snd (getFile name ?ms))" "fst (getFile name (store st1)) = Some meta"
    "entries (snd (getFile name (store st1))) = entries ?ms"
    using assms(1) by (simp_all add: getFile_eq active_files_def st1_def)
  have "(move rt ^^ Suc (length [0::nat])) s s1"
    unfolding s1_def by (rule request_moves) (use assms(1) idle in \<open>simp_all add: st1_def getFile_eq active_files_def\<close>)
  moreover have "(move rt ^^ Suc (length [0::nat, 0])) s1 s2"
    unfolding s2_def
    by (rule request_moves) (use g(2) idle in \<open>simp_all add: s1_def st2_def case_prod_beta\<close>)
  moreover have "(move rt ^^ length [0::nat]) s2 (s2\<lparr>threads := (threads s2)[?L := (?r1, Undefined)], coordinator := st2, nodes := nodes s2\<rparr>)"
  proof (rule alone_moves [of ?L s2 ?r1 "Get_Deref meta"])
    have "map_of (entries (store st2)) name = None"
      using e g(3) by (simp add: st2_def deletePath_def Let_def cleanupOldTombstones_eq map_of_delete)
    then show "alone rt ?r1 [0] (Get_Deref meta, coordinator s2, nodes s2) = (Undefined, st2, nodes s2)"
      by (simp add: s2_def)
  qed (use idle in \<open>simp_all add: s2_def s1_def nth_append\<close>)
  ultimately have "(move rt ^^ (Suc (length [0::nat]) + Suc (length [0::nat, 0]) + length [0::nat])) s
      (s2\<lparr>threads := (threads s2)[?L := (?r1, Undefined)], coordinator := st2, nodes := nodes s2\<rparr>)"
    by (intro moves_trans)
  moreover have "Suc (length [0::nat]) + Suc (length [0::nat, 0]) + length [0::nat] = (6::nat)" by simp
  moreover have "threads (s2\<lparr>threads := (threads s2)[?L := (?r1, Undefined)], coordinator := st2, nodes := nodes s2\<rparr>)
      = threads s @ [(?r1, Undefined), (?r2, Delete_Test)]"
    by (simp add: s2_def s1_def list_update_append)
  moreover have kept: "meta \<in> set (store_metas ?ms)"
    using e map_of_SomeD [OF e(1)] by (force simp: store_metas_def)
  have alive: "buffer_alive meta (coordinator s)" "buffer_alive meta ((coordinator s)\<lparr>store := deletePath name t now ?ms\<rparr>)"
    using kept deletePath_keeps_meta [OF assms(2) kept assms(3)] by (simp_all add: buffer_alive_def)
  ultimately show ?thesis
    using get_loop_store [OF alive, of "Get_Loop meta i resps"] by (metis iterates.simps(1))
qed

definition one_file :: FileMeta where
  "one_file = \<lparr>fm_size = 3, chunk_size = 1048576, chunks = [\<lparr>chunk_id = ''chunk_0'', node_ids = [1, 2, 3], replication_factor = 3\<rparr>]\<rparr>"

theorem download_during_delete_witness:
  "\<exists>s'. (move demo_runtime ^^ 6)
      ((start_system demo_w0)\<lparr>coordinator := three_nodes\<lparr>store := putFile ''a'' one_file empty_MetadataStore\<rparr>\<rparr>) s' \<and>
    map snd (threads s') = [Undefined, Delete_Test]"
proof -
  let ?s = "(start_system demo_w0)\<lparr>coordinator := three_nodes\<lparr>store := putFile ''a'' one_file empty_MetadataStore\<rparr>\<rparr>"
  have "active_files (store (coordinator ?s)) ''a'' = Some one_file"
    "store_inv (store (coordinator ?s))" "length (deleted_entries (store (coordinator ?s))) < MAX_DELETED_ENTRIES"
    "sweeper ?s = Sweep_Idle"
    using store_inv_putFile [OF store_inv_empty]
    by (simp_all add: active_files_putFile start_system_def) (simp add: putFile_def empty_MetadataStore_def MAX_DELETED_ENTRIES_def)
  from download_during_delete [OF this, THEN conjunct1, of demo_runtime "\<lambda>_. True" 0 0]
  obtain s' where s': "(move demo_runtime ^^ 6) ?s s'"
    "threads s' = threads ?s @ [(Req_Get ''a'' (\<lambda>_. True), Undefined), (Req_Delete ''a'' 0 0, Delete_Test)]"
    by iprover
  from s'(2) have "map snd (threads s') = [Undefined, Delete_Test]" by (simp add: start_system_def)
  with s'(1) show ?thesis by iprover
qed

end
