(* ===== verification/Registry_Races.thy ===== *)
theory Registry_Races
  imports Concurrent_Properties
begin

text \<open>
  What the registry of the nodes does not promise. It has no lock, so two handlers that
  check it and then change it, or keep an iterator into it, can get into each other's way.
\<close>

section \<open>Two handlers at the registry\<close>

text \<open>Steps of two threads that arrive last, as a list of choices which of them moves.\<close>

primrec both ::
  "'w runtime \<Rightarrow> request \<Rightarrow> request \<Rightarrow> bool list \<Rightarrow> (handler \<times> handler) \<times> CoordinatorServiceImpl \<times> 'w
    \<Rightarrow> (handler \<times> handler) \<times> CoordinatorServiceImpl \<times> 'w" where
  "both rt r1 r2 [] c = c"
| "both rt r1 r2 (b # bs) c =
    (case c of ((h1, h2), q) \<Rightarrow>
       both rt r1 r2 bs (if b then (case advance rt 0 r1 h1 q of (h, q') \<Rightarrow> ((h, h2), q'))
         else (case advance rt 0 r2 h2 q of (h, q') \<Rightarrow> ((h1, h), q'))))"

lemma both_moves:
  assumes "threads s = T @ [(r1, h1), (r2, h2)]" "sweeper s = Sweep_Idle"
    and "both rt r1 r2 bs ((h1, h2), coordinator s, nodes s) = ((h1', h2'), st', w')"
  shows "(move rt ^^ length bs) s (s\<lparr>threads := T @ [(r1, h1'), (r2, h2')], coordinator := st', nodes := w'\<rparr>)"
  using assms
proof (induction bs arbitrary: s h1 h2)
  case Nil
  then have "s\<lparr>threads := T @ [(r1, h1'), (r2, h2')], coordinator := st', nodes := w'\<rparr> = s" by simp
  then show ?case by simp
next
  case (Cons b bs)
  define i where "i = (if b then length T else Suc (length T))"
  obtain r h where rh: "r = (if b then r1 else r2)" "h = (if b then h1 else h2)" by blast
  obtain g st1 w1 where step: "advance rt 0 r h (coordinator s, nodes s) = (g, st1, w1)" by (metis prod.exhaust)
  let ?s = "s\<lparr>threads := (threads s)[i := (r, g)], coordinator := st1, nodes := w1\<rparr>"
  have "move rt s ?s"
    by (rule move.thread [OF _ _ disjI1 [OF Cons.prems(2)] step]) (use Cons.prems(1) in \<open>simp_all add: i_def rh nth_append\<close>)
  moreover have "(move rt ^^ length bs) ?s (?s\<lparr>threads := T @ [(r1, h1'), (r2, h2')], coordinator := st', nodes := w'\<rparr>)"
    using Cons.prems step
    by (intro Cons.IH [where ?h1.0 = "if b then g else h1" and ?h2.0 = "if b then h2 else g"])
      (simp_all add: i_def rh list_update_append del: advance.simps split: if_splits)
  ultimately have "(move rt ^^ Suc (length bs)) s (?s\<lparr>threads := T @ [(r1, h1'), (r2, h2')], coordinator := st', nodes := w'\<rparr>)"
    by (rule relpowp_Suc_I2)
  then show ?case by (simp del: relpowp.simps)
qed

lemma two_arrive:
  assumes "sweeper s = Sweep_Idle"
    and "both rt r1 r2 bs ((entry_point r1, entry_point r2), coordinator s, nodes s) = ((h1, h2), st', w')"
  shows "(move rt ^^ Suc (Suc (length bs))) s (s\<lparr>threads := threads s @ [(r1, h1), (r2, h2)], coordinator := st', nodes := w'\<rparr>)"
proof -
  let ?s1 = "s\<lparr>threads := threads s @ [(r1, entry_point r1)]\<rparr>"
  let ?s2 = "?s1\<lparr>threads := threads ?s1 @ [(r2, entry_point r2)]\<rparr>"
  have "(move rt ^^ length bs) ?s2 (?s2\<lparr>threads := threads s @ [(r1, h1), (r2, h2)], coordinator := st', nodes := w'\<rparr>)"
    by (rule both_moves) (use assms in simp_all)
  from relpowp_Suc_I2 [OF move.arrive relpowp_Suc_I2 [OF move.arrive this]] show ?thesis by (simp del: relpowp.simps)
qed

text \<open>C17. Two registrations of one endpoint can both succeed, because the check for a conflict and the
  insertion are separate accesses of the registry: from every state in which the endpoint is
  free there is an interleaving of two such requests that answers both with success and leaves
  two entries with that endpoint, under different identifiers, which the sequential handler
  never does.\<close>

theorem registration_race:
  assumes "find (\<lambda>(i, info). info_address info = extractClientAddress peer \<and> info_port info = port)
      (hash_order rt (registered_nodes (coordinator s))) = None"
    and "extractClientAddress peer' = extractClientAddress peer" "sweeper s = Sweep_Idle"
  shows "\<exists>s' i j. (move rt ^^ 8) s s' \<and> i \<noteq> j \<and>
    threads s' = threads s @ map (\<lambda>(peer, i). (Req_Register peer port,
      Register_Return status_OK (empty_RegisterDataNodeResponse\<lparr>rdr_success := True, rdr_node_id := i\<rparr>))) [(peer, i), (peer', j)] \<and>
    map_option info_endpoint (map_of (registered_nodes (coordinator s')) i) = Some (extractClientAddress peer, port) \<and>
    map_option info_endpoint (map_of (registered_nodes (coordinator s')) j) = Some (extractClientAddress peer, port)"
proof -
  let ?st = "coordinator s" and ?i = "next_node_id (coordinator s)"
  let ?resp = "\<lambda>i. Register_Return status_OK (empty_RegisterDataNodeResponse\<lparr>rdr_success := True, rdr_node_id := i\<rparr>)"
  let ?info = "\<lambda>i. \<lparr>info_node_id = i, info_address = extractClientAddress peer, info_port = port\<rparr>"
  define reg where "reg = AList.update (?i + 1) (?info (?i + 1)) (AList.update ?i (?info ?i) (registered_nodes ?st))"
  define st' where "st' = ?st\<lparr>registered_nodes := reg, next_node_id := ?i + 1 + 1\<rparr>"
  let ?s = "s\<lparr>threads := threads s @ [(Req_Register peer port, ?resp ?i), (Req_Register peer' port, ?resp (?i + 1))],
    coordinator := st', nodes := nodes s\<rparr>"
  have "both rt (Req_Register peer port) (Req_Register peer' port) [True, False, True, False, True, False]
      ((entry_point (Req_Register peer port), entry_point (Req_Register peer' port)), ?st, nodes s)
    = ((?resp ?i, ?resp (?i + 1)), st', nodes s)"
    using assms(1,2) by (simp add: st'_def reg_def Let_def)
  from two_arrive [OF assms(3) this]
  have "(move rt ^^ 8) s ?s" by (simp add: numeral_eq_Suc del: relpowp.simps)
  moreover have "map_of reg (?i + 1) = Some (?info (?i + 1))" "map_of reg ?i = Some (?info ?i)"
    by (simp_all add: reg_def update_conv)
  ultimately show ?thesis
    by (intro exI [of _ ?s] exI [of _ ?i] exI [of _ "?i + 1"]) (simp add: st'_def info_endpoint_def del: relpowp.simps)
qed

section \<open>Iterators that outlive their entry\<close>

lemma unregister_moves:
  assumes "map_of (registered_nodes (coordinator s)) node_id = Some info"
  shows "(move rt ^^ 3) s (s\<lparr>threads := threads s @ [(Req_Unregister node_id,
      Unregister_Return status_OK (empty_UnregisterDataNodeResponse\<lparr>udr_success := True\<rparr>))],
    coordinator := (coordinator s)\<lparr>registered_nodes := AList.delete node_id (registered_nodes (coordinator s))\<rparr>\<rparr>)"
proof -
  let ?r = "Req_Unregister node_id" and ?L = "length (threads s)"
  let ?resp = "Unregister_Return status_OK (empty_UnregisterDataNodeResponse\<lparr>udr_success := True\<rparr>)"
  let ?st' = "(coordinator s)\<lparr>registered_nodes := AList.delete node_id (registered_nodes (coordinator s))\<rparr>"
  let ?s1 = "s\<lparr>threads := threads s @ [(?r, entry_point ?r)]\<rparr>"
  let ?s2 = "?s1\<lparr>threads := (threads ?s1)[?L := (?r, Unregister_Erase)], coordinator := coordinator s, nodes := nodes s\<rparr>"
  let ?s3 = "?s2\<lparr>threads := (threads ?s2)[?L := (?r, ?resp)], coordinator := ?st', nodes := nodes s\<rparr>"
  have "move rt ?s1 ?s2"
    by (rule move.thread [where h = "entry_point ?r" and j = 0]) (use assms in \<open>simp_all add: nth_append\<close>)
  moreover have "move rt ?s2 ?s3"
    by (rule move.thread [where h = Unregister_Erase and j = 0]) (use assms in \<open>simp_all add: nth_append\<close>)
  ultimately have "(move rt ^^ 3) s ?s3"
    using relpowp_Suc_I2 [OF move.arrive [of rt s ?r] relpowp_Suc_I2 [OF _ move_once]] by (simp add: numeral_3_eq_3)
  then show ?thesis by (simp del: relpowp.simps)
qed

text \<open>A thread in a step that does not need the mutex, after that.\<close>

lemma then_undefined:
  assumes "map_of (registered_nodes (coordinator s)) node_id = Some info"
    and "l < length (threads s)" "threads s ! l = (r, h)" "\<not> needs_mutex r h"
    and "\<And>st. map_of (registered_nodes st) node_id = None \<Longrightarrow> advance rt j r h (st, nodes s) = (Undefined, st, nodes s)"
  shows "\<exists>s'. (move rt ^^ 4) s s' \<and> threads s' ! l = (r, Undefined)"
proof -
  define s1 where "s1 = s\<lparr>threads := threads s @ [(Req_Unregister node_id,
      Unregister_Return status_OK (empty_UnregisterDataNodeResponse\<lparr>udr_success := True\<rparr>))],
    coordinator := (coordinator s)\<lparr>registered_nodes := AList.delete node_id (registered_nodes (coordinator s))\<rparr>\<rparr>"
  have moves: "(move rt ^^ 3) s s1" unfolding s1_def by (rule unregister_moves [OF assms(1)])
  have l: "l < length (threads s1)" "threads s1 ! l = (r, h)" using assms(2,3) by (simp_all add: s1_def nth_append)
  have "map_of (registered_nodes (coordinator s1)) node_id = None" by (simp add: s1_def map_of_delete)
  from assms(5) [OF this] have "advance rt j r h (coordinator s1, nodes s1) = (Undefined, coordinator s1, nodes s1)"
    by (simp add: s1_def)
  from move.thread [OF l disjI2 [OF assms(4)] this]
  have "(move rt ^^ Suc 3) s (s1\<lparr>threads := (threads s1)[l := (r, Undefined)], coordinator := coordinator s1, nodes := nodes s1\<rparr>)"
    by (rule relpowp_Suc_I [OF moves])
  moreover have "Suc 3 = (4 :: nat)" by simp
  ultimately show ?thesis using l(1) by (metis nth_list_update_eq system.select_convs(1) system.surjective system.update_convs(1,2,3))
qed

lemma task_undefined:
  assumes "t < length tasks" "tasks ! t = Task_Client" "node_ids c ! t = node_id"
  shows "\<exists>j. \<forall>st. map_of (registered_nodes st) node_id = None \<longrightarrow>
    advance rt j (Req_Put reqs) (Put_Wait name d i cs c tasks) (st, w) = (Undefined, st, w)"
proof -
  have "t \<in> set (running_tasks tasks)" using assms(1,2) by (simp add: running_tasks_iff)
  then obtain j where j: "j < length (running_tasks tasks)" "running_tasks tasks ! j = t" by (auto simp: in_set_conv_nth)
  then have "running_tasks tasks \<noteq> []" by auto
  then show ?thesis using j assms(2,3) by (intro exI [of _ j]) (simp add: Let_def)
qed

text \<open>C18. An iterator into the registry can outlive its entry: two concurrent requests to unregister one
  node can both find it, so that the second erases through an iterator that the first has
  invalidated, and a node that unregisters while a download, an upload or the cleanup stands
  between its search of the registry and the use of the entry leaves these with one too; each
  ends in undefined behaviour.\<close>

theorem unlocked_registry:
  assumes "map_of (registered_nodes (coordinator s)) node_id = Some info"
  shows "(sweeper s = Sweep_Idle \<longrightarrow> (\<exists>s'. (move rt ^^ 6) s s' \<and> threads s' = threads s @ [(Req_Unregister node_id,
        Unregister_Return status_OK (empty_UnregisterDataNodeResponse\<lparr>udr_success := True\<rparr>)), (Req_Unregister node_id, Undefined)]))
    \<and> (\<forall>l name wr meta i resps ids. l < length (threads s) \<longrightarrow>
        threads s ! l = (Req_Get name wr, Get_Client meta i resps node_id ids) \<longrightarrow>
        (\<exists>s'. (move rt ^^ 4) s s' \<and> threads s' ! l = (Req_Get name wr, Undefined)))
    \<and> (\<forall>l reqs name d i cs c tasks t. l < length (threads s) \<longrightarrow>
        threads s ! l = (Req_Put reqs, Put_Wait name d i cs c tasks) \<longrightarrow>
        t < length tasks \<longrightarrow> tasks ! t = Task_Client \<longrightarrow> node_ids c ! t = node_id \<longrightarrow>
        (\<exists>s'. (move rt ^^ 4) s s' \<and> threads s' ! l = (Req_Put reqs, Undefined)))
    \<and> (\<forall>now pos cid left. sweeper s = Sweep_Client now pos cid node_id left \<longrightarrow>
        (\<exists>s'. (move rt ^^ 4) s s' \<and> sweeper s' = Sweep_Undefined))"
proof (intro conjI allI impI)
  assume idle: "sweeper s = Sweep_Idle"
  let ?r = "Req_Unregister node_id" and ?reg = "registered_nodes (coordinator s)"
  let ?resp = "Unregister_Return status_OK (empty_UnregisterDataNodeResponse\<lparr>udr_success := True\<rparr>)"
  have "both rt ?r ?r [True, False, True, False] ((entry_point ?r, entry_point ?r), coordinator s, nodes s)
      = ((?resp, Undefined), (coordinator s)\<lparr>registered_nodes := AList.delete node_id ?reg\<rparr>, nodes s)"
    using assms by (simp add: map_of_delete)
  from two_arrive [OF idle this] show "\<exists>s'. (move rt ^^ 6) s s' \<and> threads s' = threads s @ [(?r, ?resp), (?r, Undefined)]"
    by (intro exI conjI) (simp add: numeral_eq_Suc del: relpowp.simps, simp)
next
  fix l name wr meta i resps ids
  assume "l < length (threads s)" "threads s ! l = (Req_Get name wr, Get_Client meta i resps node_id ids)"
  then show "\<exists>s'. (move rt ^^ 4) s s' \<and> threads s' ! l = (Req_Get name wr, Undefined)"
    by (rule then_undefined [OF assms, where j = 0]) simp_all
next
  fix l reqs name d i cs c tasks t
  assume l: "l < length (threads s)" "threads s ! l = (Req_Put reqs, Put_Wait name d i cs c tasks)"
    and t: "t < length tasks" "tasks ! t = Task_Client" "node_ids c ! t = node_id"
  from task_undefined [OF t, of rt reqs name d i cs "nodes s"] obtain j where "\<forall>st. map_of (registered_nodes st) node_id = None \<longrightarrow>
      advance rt j (Req_Put reqs) (Put_Wait name d i cs c tasks) (st, nodes s) = (Undefined, st, nodes s)" by (rule exE)
  then show "\<exists>s'. (move rt ^^ 4) s s' \<and> threads s' ! l = (Req_Put reqs, Undefined)"
    by (intro then_undefined [OF assms l, where j = j]) simp_all
next
  fix now pos cid left
  assume sw: "sweeper s = Sweep_Client now pos cid node_id left"
  let ?st' = "(coordinator s)\<lparr>registered_nodes := AList.delete node_id (registered_nodes (coordinator s))\<rparr>"
  let ?s1 = "s\<lparr>threads := threads s @ [(Req_Unregister node_id,
      Unregister_Return status_OK (empty_UnregisterDataNodeResponse\<lparr>udr_success := True\<rparr>))], coordinator := ?st'\<rparr>"
  let ?s2 = "?s1\<lparr>sweeper := Sweep_Undefined, coordinator := ?st', nodes := nodes s, cleanup_output := cleanup_output s\<rparr>"
  have "move rt ?s1 ?s2" by (rule move.sweep [where now = 0]) (simp add: sw map_of_delete)
  from relpowp_Suc_I [OF unregister_moves [OF assms] this]
  show "\<exists>s'. (move rt ^^ 4) s s' \<and> sweeper s' = Sweep_Undefined"
    by (intro exI conjI) (simp add: numeral_eq_Suc del: relpowp.simps, simp)
qed

section \<open>Examples\<close>

theorem registration_race_witness:
  "\<exists>s i j. (move demo_runtime ^^ 8) (start_system demo_w0) s \<and> i \<noteq> j \<and>
    map_option info_endpoint (map_of (registered_nodes (coordinator s)) i) = Some (demo_endpoint ''10.0.0.1'') \<and>
    map_option info_endpoint (map_of (registered_nodes (coordinator s)) j) = Some (demo_endpoint ''10.0.0.1'')"
proof -
  have "extractClientAddress ''ipv4:10.0.0.1:5000'' = ''ipv4:10.0.0.1''" "extractClientAddress ''ipv4:10.0.0.1:6000'' = ''ipv4:10.0.0.1''"
    by (simp_all add: extractClientAddress_def rfind_char_def find_char_def)
  moreover have "find (\<lambda>(i, info). info_address info = extractClientAddress ''ipv4:10.0.0.1:5000'' \<and> info_port info = 9000)
      (hash_order demo_runtime (registered_nodes (coordinator (start_system demo_w0)))) = None"
    by (simp add: start_system_def demo_runtime_def new_CoordinatorServiceImpl_def)
  moreover have "sweeper (start_system demo_w0) = Sweep_Idle" by (simp add: start_system_def)
  ultimately show ?thesis
    using registration_race [of "''ipv4:10.0.0.1:5000''" 9000 demo_runtime "start_system demo_w0" "''ipv4:10.0.0.1:6000''"]
    by (auto simp: demo_endpoint_def simp del: relpowp.simps)
qed

theorem unlocked_registry_witness:
  "\<exists>s. (move demo_runtime ^^ 18) (start_system demo_w0) s \<and> threads s = joined @ [(Req_Unregister 1,
     Unregister_Return status_OK (empty_UnregisterDataNodeResponse\<lparr>udr_success := True\<rparr>)), (Req_Unregister 1, Undefined)]"
proof -
  obtain s where s: "(move demo_runtime ^^ 12) (start_system demo_w0) s" "coordinator s = three_nodes" "threads s = joined"
      "sweeper s = Sweep_Idle"
    using demo_moves by blast
  have "\<exists>info. map_of (registered_nodes (coordinator s)) 1 = Some info" by (simp add: s(2) three_nodes_def)
  then obtain info where info: "map_of (registered_nodes (coordinator s)) 1 = Some info" ..
  obtain s' where s': "(move demo_runtime ^^ 6) s s'" "threads s' = joined @ [(Req_Unregister 1,
     Unregister_Return status_OK (empty_UnregisterDataNodeResponse\<lparr>udr_success := True\<rparr>)), (Req_Unregister 1, Undefined)]"
    using unlocked_registry [OF info, of demo_runtime, THEN conjunct1, rule_format, OF s(4)] unfolding s(3) by blast
  have "(move demo_runtime ^^ (12 + 6)) (start_system demo_w0) s'" by (rule moves_trans [OF s(1) s'(1)])
  then show ?thesis using s'(2) by (intro exI [of _ s']) (simp del: relpowp.simps)
qed

end
