(* ===== verification/Failed_Uploads.thy ===== *)
theory Failed_Uploads
  imports Registry_Races
begin

text \<open>
  What an upload that fails leaves behind: its chunks are stored on data nodes, but no
  descriptor names them, and nothing ever removes them.
\<close>

section \<open>Identifiers in use\<close>

text \<open>The chunks some file, tombstone or running upload knows of.\<close>

definition in_use :: "'w system \<Rightarrow> string set" where
  "in_use s = ids_of (all_chunks (store (coordinator s))) \<union> {cid. \<exists>(r, h) \<in> set (threads s). cid \<in> set (busy h)}"

text \<open>A step of a thread that has the chunk either keeps it, or commits, or drops it and ends.\<close>

lemma busy_advance:
  assumes "advance rt j r h (st, w) = (h', st', w')" "cid \<in> set (busy h)"
  shows "cid \<in> set (busy h') \<or> (\<exists>resp. h' = Put_Return status_OK resp) \<or> busy h' = [] \<and> store st' = store st"
proof (cases "\<exists>reqs. r = Req_Put reqs")
  case True
  then obtain reqs where r: "r = Req_Put reqs" ..
  show ?thesis
    using assms unfolding r
    by (cases h) (auto simp: Let_def split: if_splits option.splits prod.splits)
next
  case False
  then have "h' = h" using assms by (cases r; cases h) auto
  then show ?thesis using assms(2) by simp
qed

context dfs_nodes
begin

lemma stored_unused:
  assumes "goes_on (set (busy h)) {} A reg w A' reg' w'" "cid \<in> chunk_name ` {..<n}" "n \<le> 2 ^ 31" "cid \<notin> set (busy h)"
  shows "stored w' e cid = stored w e cid"
proof (rule stored_goes_on(2) [OF assms(1) _ assms(4)])
  show "valid cid" using assms(2,3) valid_name by auto
qed simp

lemma unused_thread:
  assumes "client_factory rt = create" "good_runtime rt" "n < 2 ^ 31" "k < 2 ^ 32 - 1" and S: "system_inv n k A s"
    and i: "i < length (threads s)" "threads s ! i = (r, h)"
    and step: "advance rt j r h (coordinator s, nodes s) = (h', st', w')"
    and cid: "cid \<in> chunk_name ` {..<n}" "cid \<notin> in_use s"
  shows "cid \<notin> in_use (s\<lparr>threads := (threads s)[i := (r, h')], coordinator := st', nodes := w'\<rparr>) \<and>
    stored w' e cid = stored (nodes s) e cid"
proof (cases "finished h")
  case True
  have e: "h' = h" "st' = coordinator s" "w' = nodes s" using advance_finished [OF True, of rt j r] step by simp_all
  then have "s\<lparr>threads := (threads s)[i := (r, h')], coordinator := st', nodes := w'\<rparr> = s"
    using i list_update_id [of "threads s" i] by simp
  then show ?thesis using cid(2) e by simp
next
  case False
  let ?st = "coordinator s"
  note S' = system_invD [OF S]
  have mem: "(r, h) \<in> set (threads s)" using nth_mem [OF i(1)] i(2) by simp
  from S'(7) [OF this] have "before_step n k A (uploads s) r h ?st (nodes s)"
    using S'(1,2,6) own_ids_thread [OF S'(3) i] own_nodes_thread [OF S'(4) i] by (simp add: before_step_def)
  from advance_good [OF assms(1-4) this step False]
  obtain n' A' where g: "goes_on (set (busy h)) {} A (registered_nodes ?st) (nodes s) A' (registered_nodes st') w'"
    "ids_step n h (store ?st) n' h' (store st')"
    unfolding good_step_def by (elim exE conjE) (rule that)
  have b: "cid \<notin> set (busy h)" using cid(2) mem by (auto simp: in_use_def)
  have "cid \<notin> chunk_name ` {n..<n'}" using cid(1) by auto
  moreover have "set (busy h') \<subseteq> set (busy h) \<union> chunk_name ` {n..<n'}"
    and ms: "ids_of (all_chunks (store st')) \<subseteq> ids_of (all_chunks (store ?st)) \<union> set (busy h)"
    using g(2) by (simp_all only: ids_step_def)
  ultimately have h': "cid \<notin> set (busy h')" using b by blast
  have "cid \<notin> ids_of (all_chunks (store ?st))" using cid(2) by (simp only: in_use_def Un_iff) blast
  then have "cid \<notin> ids_of (all_chunks (store st'))" using b ms by blast
  moreover have "cid \<notin> set (busy h2)" if "(r2, h2) \<in> set ((threads s)[i := (r, h')])" for r2 h2
  proof -
    have "(r2, h2) = (r, h') \<or> (r2, h2) \<in> set (threads s)" using that set_update_subset_insert [of "threads s" i "(r, h')"] by blast
    then show ?thesis
    proof
      assume "(r2, h2) \<in> set (threads s)"
      then show ?thesis using cid(2) unfolding in_use_def by fast
    qed (use h' in simp)
  qed
  then have "\<not> (\<exists>(r, h) \<in> set ((threads s)[i := (r, h')]). cid \<in> set (busy h))" by fast
  moreover have "stored w' e cid = stored (nodes s) e cid"
    by (rule stored_unused [OF g(1) cid(1) _ b]) (use assms(3) in simp)
  ultimately show ?thesis by (simp add: in_use_def)
qed

lemma unused_sweep:
  assumes "client_factory rt = create" "n \<le> 2 ^ 31" and S: "system_inv n k A s"
    and step: "sweep_step rt now (sweeper s, coordinator s, nodes s, cleanup_output s) = (sw', st', w', log')"
    and cid: "cid \<in> chunk_name ` {..<n}" "cid \<notin> in_use s"
  shows "cid \<notin> in_use (s\<lparr>sweeper := sw', coordinator := st', nodes := w', cleanup_output := log'\<rparr>) \<and>
    stored w' e cid = stored (nodes s) e cid"
proof -
  let ?ms = "store (coordinator s)"
  have ok: "sweep_ok ?ms (sweeper s)" by (rule system_invD(5) [OF S])
  have sound: "sound (nodes s)" by (rule system_invD(2) [OF S])
  have valid: "valid cid" using cid(1) assms(2) valid_name by auto
  have unused: "cid \<notin> ids_of (all_chunks ?ms)" using cid(2) by (simp add: in_use_def)
  have "ids_of (all_chunks (store st')) \<subseteq> ids_of (all_chunks ?ms) \<and> stored w' e cid = stored (nodes s) e cid"
  proof (cases "sweeper s")
    case (Sweep_Find now' pos left)
    have pos: "pos < length (deleted_entries ?ms)" using ok Sweep_Find by simp
    show ?thesis
    proof (cases left)
      case Nil
      have "mset (all_chunks (store st')) \<subseteq># mset (all_chunks ?ms)"
        using step Sweep_Find Nil remove_tombstone_chunks [OF pos] by auto
      then have "set (all_chunks (store st')) \<subseteq> set (all_chunks ?ms)" by (metis set_mset_mono set_mset_mset)
      then show ?thesis using step Sweep_Find Nil by auto
    qed (use step Sweep_Find in \<open>auto split: prod.splits option.splits\<close>)
  next
    case (Sweep_Call now' pos c i info left)
    then have c: "pos < length (deleted_entries ?ms)" "c \<in> doomed ?ms pos" using ok by simp_all
    have "valid c" by (rule doomed_valid [OF S assms(2) c])
    have "c \<noteq> cid" using doomed_chunks [OF c(1)] c(2) unused by blast
    note same = changes_only [OF del_changes [OF sound \<open>valid c\<close>] valid this [symmetric]]
    have "st' = coordinator s" "w' = snd (DeleteChunk (create (info_address info) (info_port info)) c (nodes s))"
      using step Sweep_Call assms(1) by (auto simp: Let_def split: prod.splits)
    then show ?thesis using same by simp
  qed (use step in \<open>auto simp: Let_def split: if_splits option.splits prod.splits\<close>)
  then show ?thesis using cid(2) unused by (auto simp: in_use_def)
qed

text \<open>What nobody knows of stays unknown and stored, one move at a time.\<close>

lemma unused_move:
  assumes "move rt s s'" "client_factory rt = create" "good_runtime rt"
    and "system_inv n k A s" "n < 2 ^ 31" "k < 2 ^ 32 - 1"
    and "cid \<in> chunk_name ` {..<n}" "cid \<notin> in_use s"
  shows "cid \<notin> in_use s' \<and> stored (nodes s') e cid = stored (nodes s) e cid"
  using assms(1)
proof cases
  case (arrive r)
  have "busy (entry_point r) = []" by (cases r) simp_all
  then show ?thesis using assms(8) arrive by (auto simp: in_use_def)
next
  case (thread i r h j h' st' w')
  from unused_thread [OF assms(2,3,5,6,4) thread(2,3,5) assms(7,8)] thread(1) show ?thesis by simp
next
  case (worker now st' w' log')
  then have "store st' = store (coordinator s)" "w' = nodes s" by (auto split: option.splits worker_pc.splits)
  then show ?thesis using assms(8) worker(1) by (simp add: in_use_def)
next
  case (sweep now sw' st' w' log')
  have "n \<le> 2 ^ 31" using assms(5) by simp
  from unused_sweep [OF assms(2) this assms(4) sweep(2) assms(7,8)] sweep(1) show ?thesis by simp
qed

lemma unused_moves:
  assumes "client_factory rt = create" "good_runtime rt"
  shows "(move rt ^^ m) s s' \<Longrightarrow> system_inv n k A s \<Longrightarrow> n + m \<le> 2 ^ 31 \<Longrightarrow> k + m \<le> 2 ^ 31 \<Longrightarrow>
    cid \<in> chunk_name ` {..<n} \<Longrightarrow> cid \<notin> in_use s \<Longrightarrow>
    cid \<notin> in_use s' \<and> (\<forall>e. stored (nodes s') e cid = stored (nodes s) e cid)"
proof (induction m arbitrary: s n k A)
  case 0
  then show ?case by simp
next
  case (Suc m)
  obtain s1 where s1: "move rt s s1" "(move rt ^^ m) s1 s'" using relpowp_Suc_D2 [OF Suc.prems(1)] by blast
  have n: "n < 2 ^ 31" "k < 2 ^ 32 - 1" using Suc.prems(3,4) by simp_all
  from system_inv_move [OF s1(1) assms Suc.prems(2) n] obtain n' k' A' where
    I: "n \<le> n'" "n' \<le> Suc n" "k' \<le> Suc k" "system_inv n' k' A' s1" by blast
  note one = unused_move [OF s1(1) assms Suc.prems(2) n Suc.prems(5,6)]
  have "n' + m \<le> 2 ^ 31" "k' + m \<le> 2 ^ 31" "cid \<in> chunk_name ` {..<n'}" using I(1-3) Suc.prems(3-5) by auto
  from Suc.IH [OF s1(2) I(4) this] one show ?case by simp
qed

section \<open>The end of an upload\<close>

text \<open>A thread has the chunk, or has committed, or nobody knows of the chunk.\<close>

definition settled :: "nat \<Rightarrow> string \<Rightarrow> 'a system \<Rightarrow> bool" where
  "settled l cid s \<longleftrightarrow> l < length (threads s) \<and>
     (cid \<in> set (busy (snd (threads s ! l))) \<or> (\<exists>resp. snd (threads s ! l) = Put_Return status_OK resp) \<or> cid \<notin> in_use s)"

lemma settled_thread:
  assumes "client_factory rt = create" "good_runtime rt" "n < 2 ^ 31" "k < 2 ^ 32 - 1" and S: "system_inv n k A s"
    and i: "i < length (threads s)" "threads s ! i = (r, h)"
    and step: "advance rt j r h (coordinator s, nodes s) = (h', st', w')"
    and cid: "cid \<in> chunk_name ` {..<n}" "settled l cid s"
  shows "settled l cid (s\<lparr>threads := (threads s)[i := (r, h')], coordinator := st', nodes := w'\<rparr>)"
proof -
  let ?s = "s\<lparr>threads := (threads s)[i := (r, h')], coordinator := st', nodes := w'\<rparr>"
  have l: "l < length (threads s)" using cid(2) by (simp add: settled_def)
  consider (none) "cid \<notin> in_use s" | (other) "i \<noteq> l" | (over) resp where "i = l" "h = Put_Return status_OK resp"
    | (busy) "i = l" "cid \<in> set (busy h)"
    using cid(2) i by (cases "i = l") (auto simp: settled_def)
  then show ?thesis
  proof cases
    case none
    from unused_thread [OF assms(1-8) cid(1) none] l show ?thesis by (simp add: settled_def)
  next
    case other
    show ?thesis
    proof (cases "cid \<in> in_use s")
      case True
      then show ?thesis using cid(2) other by (auto simp: settled_def)
    next
      case False
      from unused_thread [OF assms(1-8) cid(1) False] l show ?thesis by (simp add: settled_def)
    qed
  next
    case over
    then have "h' = h" using step advance_finished [of h rt j r] by simp
    then show ?thesis using over l by (simp add: settled_def)
  next
    case busy
    from busy_advance [OF step busy(2)] consider "cid \<in> set (busy h')" | resp where "h' = Put_Return status_OK resp"
      | (drop) "busy h' = []" "store st' = store (coordinator s)" by blast
    then show ?thesis
    proof cases
      case drop
      note apart = ids_apartD [OF system_invD(3) [OF S] i]
      have "cid \<notin> ids_of (all_chunks (store st'))" using apart(2) busy(2) drop(2) by auto
      moreover have "cid \<notin> set (busy h2)" if h2: "(r2, h2) \<in> set ((threads s)[i := (r, h')])" for r2 h2
      proof -
        obtain q where q: "q < length (threads s)" "(threads s)[i := (r, h')] ! q = (r2, h2)"
          using h2 by (auto simp: in_set_conv_nth)
        show ?thesis
        proof (cases "q = i")
          case True
          then show ?thesis using q drop(1) by simp
        next
          case False
          then show ?thesis using apart(6) [OF q(1) _ False] q(2) busy(2) by auto
        qed
      qed
      ultimately have "cid \<notin> in_use ?s" unfolding in_use_def by fastforce
      then show ?thesis using l by (simp add: settled_def)
    qed (use busy(1) l in \<open>simp_all add: settled_def\<close>)
  qed
qed

lemma settled_move:
  assumes "move rt s s'" "client_factory rt = create" "good_runtime rt"
    and "system_inv n k A s" "n < 2 ^ 31" "k < 2 ^ 32 - 1"
    and "cid \<in> chunk_name ` {..<n}" "settled l cid s"
  shows "settled l cid s'"
proof -
  note unused = unused_move [OF assms(1-7)]
  from assms(1) show ?thesis
  proof cases
    case (arrive r)
    then show ?thesis using unused assms(8) by (auto simp: settled_def nth_append)
  next
    case (thread i r h j h' st' w')
    show ?thesis unfolding thread(1) by (rule settled_thread [OF assms(2,3,5,6,4) thread(2,3,5) assms(7,8)])
  next
    case worker
    then have "threads s' = threads s" by simp
    then show ?thesis using unused assms(8) by (auto simp: settled_def)
  next
    case sweep
    then have "threads s' = threads s" by simp
    then show ?thesis using unused assms(8) by (auto simp: settled_def)
  qed
qed

lemma settled_moves:
  assumes "client_factory rt = create" "good_runtime rt"
  shows "(move rt ^^ m) s s' \<Longrightarrow> system_inv n k A s \<Longrightarrow> n + m \<le> 2 ^ 31 \<Longrightarrow> k + m \<le> 2 ^ 31 \<Longrightarrow>
    cid \<in> chunk_name ` {..<n} \<Longrightarrow> settled l cid s \<Longrightarrow>
    settled l cid s' \<and> (\<exists>n' k' A'. n \<le> n' \<and> n' \<le> n + m \<and> k' \<le> k + m \<and> system_inv n' k' A' s')"
proof (induction m arbitrary: s n k A)
  case 0
  then show ?case by auto
next
  case (Suc m)
  obtain s1 where s1: "move rt s s1" "(move rt ^^ m) s1 s'" using relpowp_Suc_D2 [OF Suc.prems(1)] by blast
  have n: "n < 2 ^ 31" "k < 2 ^ 32 - 1" using Suc.prems(3,4) by simp_all
  from system_inv_move [OF s1(1) assms Suc.prems(2) n] obtain n' k' A' where
    I: "n \<le> n'" "n' \<le> Suc n" "k' \<le> Suc k" "system_inv n' k' A' s1" by blast
  note one = settled_move [OF s1(1) assms Suc.prems(2) n Suc.prems(5,6)]
  have "n' + m \<le> 2 ^ 31" "k' + m \<le> 2 ^ 31" "cid \<in> chunk_name ` {..<n'}" using I(1-3) Suc.prems(3-5) by auto
  from Suc.IH [OF s1(2) I(4) this one] obtain n2 k2 A2 where
    "settled l cid s'" "n' \<le> n2" "n2 \<le> n' + m" "k2 \<le> k' + m" "system_inv n2 k2 A2 s'" by blast
  then show ?case using I(1-3) by (intro conjI exI [of _ n2] exI [of _ k2] exI [of _ A2]) simp_all
qed

end

section \<open>The property\<close>

text \<open>C15. A failed upload leaks its chunks: a chunk that an upload had begun to distribute, when the
  upload then fails, is named by no file or tombstone ever after, and whatever moves follow,
  cleanup rounds among them, what the data nodes hold of it stays there.\<close>

theorem failed_upload_leaks:
  assumes "cluster_sound w" "good_runtime rt" "client_factory rt = CreateClient network_stub"
    and "(move rt ^^ m) (start_system w) s" "(move rt ^^ m1) s s1" "(move rt ^^ m2) s1 s2" "m + m1 + m2 \<le> 2 ^ 31"
    and "l < length (threads s)" "cid \<in> set (busy (snd (threads s ! l)))"
    and "threads s1 ! l = (Req_Put reqs, Put_Return status resp)" "\<not> status_ok status"
  shows "cid \<notin> ids_of (all_chunks (store (coordinator s2))) \<and>
    (\<forall>e. stored_chunk (nodes s2) e cid = stored_chunk (nodes s1) e cid)"
proof -
  have "m \<le> 2 ^ 31" using assms(7) by simp
  from reached_inv [OF assms(1-4) this] obtain n k A where S: "n \<le> m" "k \<le> m" "dfs.system_inv n k A s" by blast
  obtain r h where l: "threads s ! l = (r, h)" by (cases "threads s ! l")
  have cid: "cid \<in> chunk_name ` {..<n}" using ids_apartD(3) [OF dfs.system_invD(3) [OF S(3)] assms(8) l] assms(9) l by auto
  have "dfs.settled l cid s" using assms(8,9) by (simp add: dfs.settled_def)
  moreover have "n + m1 \<le> 2 ^ 31" "k + m1 \<le> 2 ^ 31" using S(1,2) assms(7) by simp_all
  ultimately obtain n1 k1 A1 where one: "dfs.settled l cid s1" "n \<le> n1" "n1 \<le> n + m1" "k1 \<le> k + m1" "dfs.system_inv n1 k1 A1 s1"
    using dfs.settled_moves [OF assms(3,2,5) S(3) _ _ cid] by blast
  have "status_ok status_OK" by (simp add: status_OK_def status_ok_def)
  then have "cid \<notin> in_use s1" using one(1) assms(10,11) by (auto simp: dfs.settled_def)
  moreover have "n1 + m2 \<le> 2 ^ 31" "k1 + m2 \<le> 2 ^ 31" "cid \<in> chunk_name ` {..<n1}"
    using one(2-4) S(1,2) assms(7) cid by auto
  ultimately show ?thesis
    using dfs.unused_moves [OF assms(3,2,6) one(5)] by (auto simp: in_use_def)
qed

section \<open>An example\<close>

text \<open>
  Three nodes are selected for the chunk, then one of them unregisters, so the distribution
  fails; the others have stored it.
\<close>

lemma demo_send:
  defines "c \<equiv> \<lparr>chunk_id = chunk_name 0, node_ids = [3, 2, 1], replication_factor = 3\<rparr>"
  shows "\<exists>st. alone demo_runtime (Req_Put [\<lparr>pfr_filename = ''a'', pfr_data = ''xyz''\<rparr>]) [0, 0, 0, 0] (Put_Check, three_nodes, demo_w0)
      = (Put_Send ''a'' ''xyz'' 0 [] c, st, demo_w0) \<and> registered_nodes st = registered_nodes three_nodes"
proof -
  have one: "upload_chunks ''xyz'' = 1" by (simp add: upload_chunks_def num_chunks_value)
  show ?thesis
    using one pick_three_of_three by (simp add: c_def put_receive_eq getFile_eq three_nodes_def new_CoordinatorServiceImpl_def active_files_def
        empty_MetadataStore_def default_ChunkInfo_def demo_runtime_def chunk_name_def Let_def to_string_nonneg
        digits.simps digit_chars upt_rec del: put_receive.simps)
qed

lemma demo_distribution_fails:
  defines "reg \<equiv> AList.delete 2 (registered_nodes three_nodes)"
  shows "\<exists>status w'. distributeChunkToNodes demo_runtime reg (chunk_name 0) (chunk_slice ''xyz'' 0) [3, 2, 1] demo_w0 = (status, w') \<and>
    \<not> status_ok status \<and> stored_chunk w' (demo_endpoint ''10.0.0.1'') (chunk_name 0) = Some ''xyz''"
proof -
  obtain status w' where D: "distributeChunkToNodes demo_runtime reg (chunk_name 0) (chunk_slice ''xyz'' 0) [3, 2, 1] demo_w0 = (status, w')"
    by (metis prod.exhaust)
  have v: "valid_chunk (chunk_name 0)" by simp
  have "map_of reg 2 = None" by (simp add: map_of_delete reg_def)
  then have bad: "\<not> status_ok status"
    using net.distribute_stored [OF demo_runtime_good(2) demo_w0_sound v demo_runtime_good(1), of reg "chunk_slice ''xyz'' 0" "[3, 2, 1]" 2] D
    by auto
  let ?info = "\<lparr>info_node_id = 1, info_address = ''ipv4:10.0.0.1'', info_port = 9000\<rparr>"
  have "map_of reg 1 = Some ?info" by (simp add: three_nodes_def map_of_delete reg_def)
  moreover have e: "info_endpoint ?info = demo_endpoint ''10.0.0.1''" by (simp add: info_endpoint_def demo_endpoint_def)
  moreover have "node_live demo_w0 (demo_endpoint ''10.0.0.1'')" by (rule demo_live) simp_all
  ultimately have kept: "stored_chunk w' (demo_endpoint ''10.0.0.1'') (chunk_name 0) = Some ''xyz''"
    using net.distribute_live_stored [OF demo_runtime_good(2) demo_w0_sound v demo_runtime_good(1), of 1 "[3, 2, 1]" reg ?info "chunk_slice ''xyz'' 0"] D
    by (simp add: chunk_slice_eq CHUNK_SIZE_eq)
  with D bad show ?thesis by blast
qed

theorem failed_upload_leaks_witness:
  "\<exists>m s1 s2 status resp. (move demo_runtime ^^ m) (start_system demo_w0) s1 \<and> (move demo_runtime ^^ 1) s1 s2 \<and>
    threads s1 ! 3 = (Req_Put [\<lparr>pfr_filename = ''a'', pfr_data = ''xyz''\<rparr>], Put_Return status resp) \<and> \<not> status_ok status \<and>
    chunk_name 0 \<notin> ids_of (all_chunks (store (coordinator s2))) \<and>
    stored_chunk (nodes s2) (demo_endpoint ''10.0.0.1'') (chunk_name 0) = Some ''xyz''"
proof -
  let ?reqs = "[\<lparr>pfr_filename = ''a'', pfr_data = ''xyz''\<rparr>]" and ?c = "\<lparr>chunk_id = chunk_name 0, node_ids = [3, 2, 1], replication_factor = 3\<rparr>"
  let ?r = "Req_Put ?reqs" and ?reg = "AList.delete 2 (registered_nodes three_nodes)"
  obtain s where s: "(move demo_runtime ^^ 12) (start_system demo_w0) s" "coordinator s = three_nodes" "nodes s = demo_w0"
      "threads s = joined" "sweeper s = Sweep_Idle"
    using demo_moves by blast
  obtain st where st: "alone demo_runtime ?r [0, 0, 0, 0] (entry_point ?r, coordinator s, nodes s) = (Put_Send ''a'' ''xyz'' 0 [] ?c, st, demo_w0)"
    "registered_nodes st = registered_nodes three_nodes"
    using demo_send s(2,3) by auto
  define sA where "sA = s\<lparr>threads := threads s @ [(?r, Put_Send ''a'' ''xyz'' 0 [] ?c)], coordinator := st, nodes := demo_w0\<rparr>"
  have A: "(move demo_runtime ^^ (12 + Suc (length [0 :: nat, 0, 0, 0]))) (start_system demo_w0) sA"
    unfolding sA_def by (rule moves_trans [OF s(1) request_moves [OF st(1) s(5)]])
  have three: "length joined = 3" by (simp add: joined_def)
  have "\<exists>info. map_of (registered_nodes (coordinator sA)) 2 = Some info" by (simp add: sA_def st(2) three_nodes_def)
  then obtain info where info: "map_of (registered_nodes (coordinator sA)) 2 = Some info" ..
  define sB where "sB = sA\<lparr>threads := threads sA @ [(Req_Unregister 2,
      Unregister_Return status_OK (empty_UnregisterDataNodeResponse\<lparr>udr_success := True\<rparr>))],
    coordinator := (coordinator sA)\<lparr>registered_nodes := AList.delete 2 (registered_nodes (coordinator sA))\<rparr>\<rparr>"
  have B: "(move demo_runtime ^^ 3) sA sB" unfolding sB_def by (rule unregister_moves [OF info])
  have sB: "3 < length (threads sB)" "threads sB ! 3 = (?r, Put_Send ''a'' ''xyz'' 0 [] ?c)" "sweeper sB = Sweep_Idle"
    "nodes sB = demo_w0" "registered_nodes (coordinator sB) = ?reg"
    by (simp_all add: sB_def sA_def s(4,5) three st(2) nth_append)
  obtain status w' where D: "distributeChunkToNodes demo_runtime ?reg (chunk_name 0) (chunk_slice ''xyz'' 0) [3, 2, 1] demo_w0 = (status, w')"
    and bad: "\<not> status_ok status" and kept: "stored_chunk w' (demo_endpoint ''10.0.0.1'') (chunk_name 0) = Some ''xyz''"
    using demo_distribution_fails by blast
  have all: "runs_all_tasks (sched demo_runtime)" using demo_runtime_good by (simp add: good_runtime_def)
  have "distributeChunkToNodes demo_runtime (registered_nodes (coordinator sB)) (chunk_id ?c) (chunk_slice ''xyz'' 0) (node_ids ?c) demo_w0
      = (status, w')" using D by (simp add: sB(5))
  from distribution_alone [OF all _ _ this, of ?reqs "''a''" "[]"] obtain js where js: "length js \<le> 11"
    "alone demo_runtime ?r js (Put_Send ''a'' ''xyz'' 0 [] ?c, coordinator sB, nodes sB)
      = (Put_Return status \<lparr>pfs_success = False\<rparr>, coordinator sB, w')"
    using bad by (auto simp: sB(4))
  define sC where "sC = sB\<lparr>threads := (threads sB)[3 := (?r, Put_Return status \<lparr>pfs_success = False\<rparr>)], coordinator := coordinator sB, nodes := w'\<rparr>"
  have C: "(move demo_runtime ^^ length js) sB sC" unfolding sC_def by (rule alone_moves [OF sB(1-3) js(2)])
  define sD where "sD = sC\<lparr>threads := threads sC @ [(Req_Unregister 1, entry_point (Req_Unregister 1))]\<rparr>"
  have "move demo_runtime sC sD" unfolding sD_def by (rule move.arrive)
  then have D1: "(move demo_runtime ^^ 1) sC sD" by (rule move_once)
  have BC: "(move demo_runtime ^^ (3 + length js)) sA sC" by (rule moves_trans [OF B C])
  have "3 < length (threads sA)" "chunk_name 0 \<in> set (busy (snd (threads sA ! 3)))"
    "threads sC ! 3 = (?r, Put_Return status \<lparr>pfs_success = False\<rparr>)"
    using sB(1) by (simp_all add: sA_def sC_def s(4) three nth_append)
  note leak = failed_upload_leaks [OF demo_w0_sound demo_runtime_good A BC D1 _ this bad]
  have "12 + Suc (length [0 :: nat, 0, 0, 0]) + (3 + length js) + 1 \<le> 2 ^ 31" using js(1) by simp
  note leak = leak [OF this]
  have "stored_chunk (nodes sD) (demo_endpoint ''10.0.0.1'') (chunk_name 0) = Some ''xyz''"
    using spec [OF conjunct2 [OF leak], of "demo_endpoint ''10.0.0.1''"] kept by (simp add: sC_def)
  with leak moves_trans [OF A BC] D1 bad \<open>threads sC ! 3 = _\<close> show ?thesis by blast
qed

end
