(* ===== verification/Restarted_Nodes.thy ===== *)
theory Restarted_Nodes
  imports Failed_Uploads
begin

text \<open>
  What becomes of the chunks of a node that stops and starts again. The registry gives it a new
  identifier, and no descriptor is ever changed, so the chunks stay on its disk while nobody can
  find them.
\<close>

section \<open>The chunks of visible files\<close>

definition visible_chunk :: "'w system \<Rightarrow> string \<Rightarrow> bool" where
  "visible_chunk s cid \<longleftrightarrow> (\<exists>p meta. active_files (store (coordinator s)) p = Some meta \<and> cid \<in> ids_of (chunks meta))"

definition in_flight :: "'w system \<Rightarrow> string \<Rightarrow> bool" where
  "in_flight s cid \<longleftrightarrow> (\<exists>(r, h) \<in> set (threads s). cid \<in> set (busy h))"

text \<open>A file becomes visible only with the chunks of the upload that commits it.\<close>

lemma advance_active:
  assumes "advance rt j r h (st, w) = (h', st', w')" "active_files (store st') p = Some meta"
  shows "active_files (store st) p = Some meta \<or> ids_of (chunks meta) \<subseteq> set (busy h)"
proof (cases r)
  case (Req_Put reqs)
  then show ?thesis using assms
    by (cases h) (auto simp: Let_def put_receive_eq active_files_putFile simp del: put_receive.simps
        split: if_splits option.splits prod.splits list.splits)
next
  case (Req_Get name wr)
  then show ?thesis using assms
    by (cases h) (auto simp: Let_def getFile_eq split: if_splits option.splits prod.splits list.splits)
next
  case (Req_Delete name t now)
  have del: "active_files (deletePath name t now ms) p = Some meta \<Longrightarrow> active_files ms p = Some meta" for ms
    by (simp add: active_files_deletePath split: if_splits)
  show ?thesis using assms unfolding Req_Delete
    by (cases h) (auto simp: Let_def getFile_eq dest!: del split: if_splits option.splits prod.splits list.splits)
next
  case (Req_Register peer port)
  then show ?thesis using assms
    by (cases h) (auto simp: Let_def split: if_splits option.splits prod.splits list.splits)
next
  case (Req_Unregister i)
  then show ?thesis using assms
    by (cases h) (auto simp: Let_def split: if_splits option.splits prod.splits list.splits)
qed

context dfs_nodes
begin

lemma visible_thread:
  assumes "client_factory rt = create" "good_runtime rt" "n < 2 ^ 31" "k < 2 ^ 32 - 1" and S: "system_inv n k A s"
    and i: "i < length (threads s)" "threads s ! i = (r, h)"
    and step: "advance rt j r h (coordinator s, nodes s) = (h', st', w')"
    and cid: "cid \<in> chunk_name ` {..<n}" "\<not> in_flight s cid"
    and s'_def: "s' = s\<lparr>threads := (threads s)[i := (r, h')], coordinator := st', nodes := w'\<rparr>"
  shows "\<not> in_flight s' cid \<and> (visible_chunk s' cid \<longrightarrow> visible_chunk s cid) \<and> stored w' e cid = stored (nodes s) e cid"
proof (cases "finished h")
  case True
  have e: "h' = h" "st' = coordinator s" "w' = nodes s" using advance_finished [OF True, of rt j r] step by simp_all
  then have "s' = s" using i list_update_id [of "threads s" i] by (simp add: s'_def)
  then show ?thesis using cid(2) e by simp
next
  case False
  let ?st = "coordinator s"
  note S' = system_invD [OF S]
  have mem: "(r, h) \<in> set (threads s)" using nth_mem [OF i(1)] i(2) by simp
  from S'(7) [OF this] have "before_step n k A (uploads s) r h ?st (nodes s)"
    using S'(1,2,6) own_ids_thread [OF S'(3) i] own_nodes_thread [OF S'(4) i] by (simp add: before_step_def)
  from advance_good [OF assms(1-4) this step False]
  obtain n' A' where g: "goes_on (set (busy h)) {} A (registered_nodes ?st) (nodes s) A' (registered_nodes st') w'"
    "ids_step n h (store ?st) n' h' (store st')"
    unfolding good_step_def by (elim exE conjE) (rule that)
  have b: "cid \<notin> set (busy h)" using cid(2) mem by (auto simp: in_flight_def)
  have "cid \<notin> chunk_name ` {n..<n'}" using cid(1) by auto
  moreover have "set (busy h') \<subseteq> set (busy h) \<union> chunk_name ` {n..<n'}"
    using g(2) by (simp_all only: ids_step_def)
  ultimately have h': "cid \<notin> set (busy h')" using b by blast
  have "cid \<notin> set (busy h2)" if "(r2, h2) \<in> set ((threads s)[i := (r, h')])" for r2 h2
  proof -
    have "(r2, h2) = (r, h') \<or> (r2, h2) \<in> set (threads s)" using that set_update_subset_insert [of "threads s" i "(r, h')"] by blast
    then show ?thesis
    proof
      assume "(r2, h2) \<in> set (threads s)"
      then show ?thesis using cid(2) unfolding in_flight_def by fast
    qed (use h' in simp)
  qed
  then have "\<not> in_flight s' cid" unfolding in_flight_def s'_def by fastforce
  moreover have "visible_chunk s cid" if "visible_chunk s' cid"
    using that advance_active [OF step] b unfolding visible_chunk_def s'_def by fastforce
  moreover have "stored w' e cid = stored (nodes s) e cid"
    by (rule stored_unused [OF g(1) cid(1) _ b]) (use assms(3) in simp)
  ultimately show ?thesis by blast
qed

lemma visible_sweep:
  assumes "client_factory rt = create" "n \<le> 2 ^ 31" and S: "system_inv n k A s"
    and step: "sweep_step rt now (sweeper s, coordinator s, nodes s, cleanup_output s) = (sw', st', w', log')"
    and cid: "cid \<in> chunk_name ` {..<n}" "visible_chunk s cid"
  shows "stored w' e cid = stored (nodes s) e cid"
proof (cases "\<exists>now' pos c i info left. sweeper s = Sweep_Call now' pos c i info left")
  case True
  let ?ms = "store (coordinator s)"
  obtain now' pos c i info left where sw: "sweeper s = Sweep_Call now' pos c i info left" using True by blast
  have c: "pos < length (deleted_entries ?ms)" "c \<in> doomed ?ms pos" using system_invD(5) [OF S] sw by simp_all
  have "valid c" by (rule doomed_valid [OF S assms(2) c])
  have ids: "distinct (map chunk_id (all_chunks ?ms))" using system_invD(3) [OF S] by (simp only: ids_apart_def)
  have "c \<noteq> cid" using cid(2) doomed_not_active [OF c(1) ids] c(2) unfolding visible_chunk_def by blast
  have valid: "valid cid" using cid(1) assms(2) valid_name by auto
  note same = changes_only [OF del_changes [OF system_invD(2) [OF S] \<open>valid c\<close>] valid \<open>c \<noteq> cid\<close> [symmetric]]
  have "w' = snd (DeleteChunk (create (info_address info) (info_port info)) c (nodes s))"
    using step sw assms(1) by (auto simp: Let_def split: prod.splits)
  then show ?thesis using same by simp
next
  case False
  then show ?thesis using step by (cases "sweeper s") (auto simp: Let_def split: if_splits option.splits prod.splits list.splits)
qed

lemma sweep_active:
  assumes "sweep_step rt now (sw, st, q) = (sw', st', q')"
  shows "active_files (store st') = active_files (store st)"
  using assms by (cases q; cases sw) (auto simp: Let_def active_files_def fun_eq_iff split: if_splits option.splits prod.splits list.splits)

lemma visible_move:
  assumes "move rt s s'" "client_factory rt = create" "good_runtime rt"
    and "system_inv n k A s" "n < 2 ^ 31" "k < 2 ^ 32 - 1"
    and "cid \<in> chunk_name ` {..<n}" "\<not> in_flight s cid"
  shows "\<not> in_flight s' cid \<and>
    (visible_chunk s' cid \<longrightarrow> visible_chunk s cid \<and> stored (nodes s') e cid = stored (nodes s) e cid)"
  using assms(1)
proof cases
  case (arrive r)
  have "busy (entry_point r) = []" by (cases r) simp_all
  then show ?thesis using assms(8) arrive by (auto simp: in_flight_def visible_chunk_def)
next
  case (thread i r h j h' st' w')
  from visible_thread [OF assms(2,3,5,6,4) thread(2,3,5) assms(7,8) thread(1)] thread(1) show ?thesis by simp
next
  case (worker now st' w' log')
  then have "store st' = store (coordinator s)" "w' = nodes s" by (auto split: option.splits worker_pc.splits)
  then show ?thesis using assms(8) worker(1) by (simp add: in_flight_def visible_chunk_def)
next
  case (sweep now sw' st' w' log')
  have "n \<le> 2 ^ 31" using assms(5) by simp
  note one = visible_sweep [OF assms(2) this assms(4) sweep(2) assms(7)]
  have "visible_chunk s' cid \<longleftrightarrow> visible_chunk s cid"
    using sweep_active [OF sweep(2)] sweep(1) by (simp add: visible_chunk_def)
  then show ?thesis using one assms(8) sweep(1) by (simp add: in_flight_def)
qed

lemma visible_moves:
  assumes "client_factory rt = create" "good_runtime rt"
  shows "(move rt ^^ m) s s' \<Longrightarrow> system_inv n k A s \<Longrightarrow> n + m \<le> 2 ^ 31 \<Longrightarrow> k + m \<le> 2 ^ 31 \<Longrightarrow>
    cid \<in> chunk_name ` {..<n} \<Longrightarrow> \<not> in_flight s cid \<Longrightarrow>
    visible_chunk s' cid \<longrightarrow> visible_chunk s cid \<and> stored (nodes s') e cid = stored (nodes s) e cid"
proof (induction m arbitrary: s n k A)
  case 0
  then show ?case by simp
next
  case (Suc m)
  obtain s1 where s1: "move rt s s1" "(move rt ^^ m) s1 s'" using relpowp_Suc_D2 [OF Suc.prems(1)] by blast
  have n: "n < 2 ^ 31" "k < 2 ^ 32 - 1" using Suc.prems(3,4) by simp_all
  from system_inv_move [OF s1(1) assms Suc.prems(2) n] obtain n' k' A' where
    I: "n \<le> n'" "n' \<le> Suc n" "k' \<le> Suc k" "system_inv n' k' A' s1" by blast
  note one = visible_move [OF s1(1) assms Suc.prems(2) n Suc.prems(5,6), where e = e]
  have "n' + m \<le> 2 ^ 31" "k' + m \<le> 2 ^ 31" "cid \<in> chunk_name ` {..<n'}" using I(1-3) Suc.prems(3-5) by auto
  from Suc.IH [OF s1(2) I(4) this] one show ?case by metis
qed

end

section \<open>Restarted nodes\<close>

lemma try_replicas_unregistered:
  "\<forall>i \<in> set ids. map_of reg i = None \<Longrightarrow> try_replicas rt reg cid ids w = (None, w)"
  by (induction ids) simp_all

lemma get_loop_unregistered:
  assumes "c \<in> set cs" "\<forall>i \<in> set (node_ids c). map_of reg i = None"
  shows "\<not> status_ok (fst (fst (get_file_loop rt reg wr i cs w)))"
  using assms(1)
proof (induction cs arbitrary: i w)
  case (Cons c' cs)
  show ?case
  proof (cases "c' = c")
    case True
    have "\<not> status_ok (fst (fst (readChunkWithFallback rt reg (chunk_id c) [] (node_ids c) w)))"
      by (simp add: readChunkWithFallback_def status_ok_def try_replicas_unregistered [OF assms(2)])
    then show ?thesis using True by (simp add: split_beta Let_def)
  next
    case False
    then have "c \<in> set cs" using Cons.prems by simp
    from Cons.IH [OF this] show ?thesis by (simp add: split_beta Let_def)
  qed
qed simp

text \<open>C16. A chunk whose nodes have all unregistered is lost although it is still stored, on disks
  that never run full: a node that starts again is given an identifier that none of the chunk's
  replicas has. Take a visible file, and any moves after which none of the nodes of its chunk
  \<open>j\<close> is registered. Whatever moves follow, registrations of the same endpoints among them, no
  registered node ever has an identifier that the chunk's descriptor names; and as long as the
  file is visible every endpoint that was a registered replica still stores exactly the chunk's
  slice of an upload of that name that answered OK, yet every download of the file fails.\<close>

theorem restart_loses_files:
  assumes "cluster_tidy w" "disks_have_room w" "good_runtime rt" "client_factory rt = CreateClient network_stub"
    and "(move rt ^^ m) (start_system w) s" "(move rt ^^ m1) s s1" "(move rt ^^ m2) s1 s2" "m + m1 + m2 \<le> 2 ^ 31"
    and "active_files (store (coordinator s)) name = Some meta" "j < length (chunks meta)"
    and "\<forall>i \<in> set (node_ids (chunks meta ! j)). map_of (registered_nodes (coordinator s1)) i = None"
  shows "(\<forall>(i, info) \<in> set (registered_nodes (coordinator s2)). i \<notin> set (node_ids (chunks meta ! j))) \<and>
    (active_files (store (coordinator s2)) name = Some meta \<longrightarrow>
      (\<exists>d. (name, d) \<in> uploads s \<and>
         (\<forall>i \<in> set (node_ids (chunks meta ! j)). \<forall>info. map_of (registered_nodes (coordinator s)) i = Some info \<longrightarrow>
            stored_chunk (nodes s2) (info_endpoint info) (chunk_id (chunks meta ! j)) = Some (chunk_slice d j))) \<and>
      (\<forall>wr. \<not> status_ok (fst (fst (GetFile rt \<lparr>gfr_filename = name\<rparr> wr (coordinator s2) (nodes s2))))))"
proof -
  let ?c = "chunks meta ! j" and ?reg = "\<lambda>s. registered_nodes (coordinator s)"
  have start: "cluster_sound w" using assms(1,2) by (simp add: cluster_sound_def)
  have "m \<le> 2 ^ 31" using assms(8) by simp
  from reached_inv [OF start assms(3-5) this] obtain n k A where S: "n \<le> m" "k \<le> m" "dfs.system_inv n k A s" by blast
  have bound: "n + (m1 + m2) \<le> 2 ^ 31" "k + (m1 + m2) \<le> 2 ^ 31" "n + m1 \<le> 2 ^ 31" "k + m1 \<le> 2 ^ 31"
    using S(1,2) assms(8) by simp_all
  from dfs.system_inv_moves [OF assms(4,3) S(3) assms(6) bound(3,4)] obtain n1 k1 A1
    where S1: "n1 \<le> n + m1" "k1 \<le> k + m1" "registry_grows A (?reg s) A1 (?reg s1)" "dfs.system_inv n1 k1 A1 s1" by blast
  have "n1 + m2 \<le> 2 ^ 31" "k1 + m2 \<le> 2 ^ 31" using S1(1,2) bound(1,2) by simp_all
  from dfs.system_inv_moves [OF assms(4,3) S1(4) assms(7) this] obtain A2
    where A2: "registry_grows A1 (?reg s1) A2 (?reg s2)" by blast
  obtain d where d: "(name, d) \<in> uploads s" "describes (dfs.held A (?reg s) (nodes s)) meta d"
    using dfs.system_invD(6) [OF S(3)] assms(9) unfolding dfs.files_ok_def by blast
  have held: "dfs.held A (?reg s) (nodes s) ?c (chunk_slice d j)" by (rule describes_chunk [OF d(2) assms(10)])
  then have A: "set (node_ids ?c) \<subseteq> A1" using S1(3) by (auto simp: dfs.held_def descriptor_ok_def registry_grows_def)
  have gone: "map_of (?reg s2) i = None" if "i \<in> set (node_ids ?c)" for i
    using A2 A assms(11) that unfolding registry_grows_def by (metis subsetD)
  then have gone': "\<forall>i \<in> set (node_ids ?c). map_of (?reg s2) i = None" by blast
  have mem: "?c \<in> set (chunks meta)" using assms(10) by simp
  have all: "chunk_id ?c \<in> ids_of (all_chunks (store (coordinator s)))"
    using active_chunks [OF assms(9)] mem by blast
  then have cid: "chunk_id ?c \<in> chunk_name ` {..<n}"
    using dfs.system_invD(3) [OF S(3)] unfolding ids_apart_def by blast
  have flight: "\<not> in_flight s (chunk_id ?c)"
    using ids_apartD(2) [OF dfs.system_invD(3) [OF S(3)]] all unfolding in_flight_def
    by (metis (no_types, lifting) IntI case_prodE emptyE in_set_conv_nth)
  have kept: "stored_chunk (nodes s2) e (chunk_id ?c) = stored_chunk (nodes s) e (chunk_id ?c)"
    if "active_files (store (coordinator s2)) name = Some meta" for e
  proof -
    have "visible_chunk s2 (chunk_id ?c)" using that mem unfolding visible_chunk_def by blast
    then show ?thesis
      using dfs.visible_moves [OF assms(4,3) moves_trans [OF assms(6,7)] S(3) bound(1,2) cid flight] by blast
  qed
  have "\<not> status_ok (fst (fst (GetFile rt \<lparr>gfr_filename = name\<rparr> wr (coordinator s2) (nodes s2))))"
    if "active_files (store (coordinator s2)) name = Some meta" for wr
    using get_loop_unregistered [OF mem gone'] that by (simp add: GetFile_def getFile_eq split_beta Let_def)
  moreover have "i \<notin> set (node_ids ?c)" if "(i, info) \<in> set (?reg s2)" for i info
    using gone [of i] that by (metis map_of_eq_None_iff fst_conv image_eqI)
  moreover have "\<exists>d. (name, d) \<in> uploads s \<and> (\<forall>i \<in> set (node_ids ?c). \<forall>info. map_of (?reg s) i = Some info \<longrightarrow>
      stored_chunk (nodes s2) (info_endpoint info) (chunk_id ?c) = Some (chunk_slice d j))"
    if "active_files (store (coordinator s2)) name = Some meta"
    using d(1) held kept [OF that] by (intro exI [of _ d]) (simp add: dfs.held_def)
  ultimately show ?thesis by blast
qed

section \<open>An example\<close>

lemma all_nodes_leave:
  assumes "registered_nodes (coordinator s) = registered_nodes three_nodes"
  shows "\<exists>s1. (move rt ^^ 9) s s1 \<and> registered_nodes (coordinator s1) = [] \<and> store (coordinator s1) = store (coordinator s) \<and>
    sweeper s1 = sweeper s"
proof -
  let ?go = "\<lambda>i s. s\<lparr>threads := threads s @ [(Req_Unregister i,
      Unregister_Return status_OK (empty_UnregisterDataNodeResponse\<lparr>udr_success := True\<rparr>))],
    coordinator := (coordinator s)\<lparr>registered_nodes := AList.delete i (registered_nodes (coordinator s))\<rparr>\<rparr>"
  have go: "(move rt ^^ 3) s (?go i s)" if "map_of (registered_nodes (coordinator s)) i \<noteq> None" for i and s
    using that unregister_moves by blast
  have "(move rt ^^ 3) s (?go 1 s)" by (rule go) (simp add: assms three_nodes_def)
  moreover have "(move rt ^^ 3) (?go 1 s) (?go 2 (?go 1 s))" by (rule go) (simp add: assms three_nodes_def)
  moreover have "(move rt ^^ 3) (?go 2 (?go 1 s)) (?go 3 (?go 2 (?go 1 s)))" by (rule go) (simp add: assms three_nodes_def)
  ultimately have "(move rt ^^ (3 + 3 + 3)) s (?go 3 (?go 2 (?go 1 s)))" using moves_trans by blast
  then show ?thesis
    by (intro exI [of _ "?go 3 (?go 2 (?go 1 s))"]) (simp add: assms three_nodes_def del: relpowp.simps)
qed

theorem restart_loses_files_witness:
  "\<exists>m s meta. (move demo_runtime ^^ m) (start_system demo_w0) s \<and> active_files (store (coordinator s)) ''a'' = Some meta \<and>
    (\<exists>i info. registered_nodes (coordinator s) = [(i, info)] \<and> info_endpoint info = demo_endpoint ''10.0.0.1'' \<and>
       i \<notin> set (node_ids (chunks meta ! 0))) \<and>
    stored_chunk (nodes s) (demo_endpoint ''10.0.0.1'') (chunk_id (chunks meta ! 0)) = Some ''xyz'' \<and>
    \<not> status_ok (fst (fst (GetFile demo_runtime \<lparr>gfr_filename = ''a''\<rparr> (\<lambda>_. True) (coordinator s) (nodes s))))"
proof -
  obtain m s status resps meta where s: "(move demo_runtime ^^ m) (start_system demo_w0) s" "m \<le> 50"
    "threads s = joined @ [(Req_Put [\<lparr>pfr_filename = ''a'', pfr_data = ''xyz''\<rparr>], Put_Return status_OK \<lparr>pfs_success = True\<rparr>),
       (Req_Get ''a'' (\<lambda>_. True), Get_Return status resps)]"
    "active_files (store (coordinator s)) ''a'' = Some meta" "registered_nodes (coordinator s) = registered_nodes three_nodes"
    "length (chunks meta) = 1" "sweeper s = Sweep_Idle" "set (node_ids (chunks meta ! 0)) = {1, 2, 3}"
    using demo_session by blast
  obtain s1 where s1: "(move demo_runtime ^^ 9) s s1" "registered_nodes (coordinator s1) = []"
    "store (coordinator s1) = store (coordinator s)" "sweeper s1 = sweeper s"
    using all_nodes_leave [OF s(5)] by blast
  let ?peer = "''ipv4:10.0.0.1:7000''" and ?id = "next_node_id (coordinator s1)"
  let ?info = "\<lparr>info_node_id = ?id, info_address = ''ipv4:10.0.0.1'', info_port = 9000\<rparr>"
  have addr: "extractClientAddress ?peer = ''ipv4:10.0.0.1''"
    by (simp add: extractClientAddress_def rfind_char_def find_char_def)
  obtain resp st2 where R: "RegisterDataNode (hash_order demo_runtime) ?peer 9000 (coordinator s1) = ((status_OK, resp), st2)"
    "registered_nodes st2 = [(?id, ?info)]" "store st2 = store (coordinator s)"
    by (simp add: RegisterDataNode_def addr s1(2,3) demo_runtime_def Let_def)
  define s2 where "s2 = s1\<lparr>threads := threads s1 @ [(Req_Register ?peer 9000, Register_Return status_OK resp)], coordinator := st2\<rparr>"
  have run: "(move demo_runtime ^^ 4) s1 s2" unfolding s2_def by (rule register_moves [OF _ R(1)]) (simp add: s(7) s1(4))
  have still: "active_files (store (coordinator s2)) ''a'' = Some meta" using s(4) by (simp add: s2_def R(3))
  have j: "0 < length (chunks meta)" and bound: "m + 9 + 4 \<le> 2 ^ 31" using s(2,6) by simp_all
  have gone: "\<forall>i \<in> set (node_ids (chunks meta ! 0)). map_of (registered_nodes (coordinator s1)) i = None" by (simp add: s1(2))
  note T = restart_loses_files [OF demo_w0_room demo_runtime_good s(1) s1(1) run bound s(4) j gone]
  have "?id \<notin> set (node_ids (chunks meta ! 0))" using T [THEN conjunct1] R(2) by (simp add: s2_def)
  moreover obtain d where d: "(''a'', d) \<in> uploads s" "\<forall>i \<in> {1, 2, 3}. \<forall>info. map_of (registered_nodes three_nodes) i = Some info \<longrightarrow>
      stored_chunk (nodes s2) (info_endpoint info) (chunk_id (chunks meta ! 0)) = Some (chunk_slice d 0)"
    using mp [OF T [THEN conjunct2] still, THEN conjunct1] unfolding s(5,8) by blast
  moreover have "chunk_slice d 0 = ''xyz''"
    using d(1) s(3) by (auto simp: uploads_def upload_data_def joined_def chunk_slice_eq CHUNK_SIZE_eq)
  moreover have "map_of (registered_nodes three_nodes) 1 = Some \<lparr>info_node_id = 1, info_address = ''ipv4:10.0.0.1'', info_port = 9000\<rparr>"
    by (simp add: three_nodes_def)
  ultimately have "?id \<notin> set (node_ids (chunks meta ! 0))"
    "stored_chunk (nodes s2) (demo_endpoint ''10.0.0.1'') (chunk_id (chunks meta ! 0)) = Some ''xyz''"
    by (simp_all add: demo_endpoint_def info_endpoint_def)
  moreover have "\<not> status_ok (fst (fst (GetFile demo_runtime \<lparr>gfr_filename = ''a''\<rparr> (\<lambda>_. True) (coordinator s2) (nodes s2))))"
    using mp [OF T [THEN conjunct2] still, THEN conjunct2] by blast
  moreover have "(move demo_runtime ^^ (m + (9 + 4))) (start_system demo_w0) s2"
    by (rule moves_trans [OF s(1) moves_trans [OF s1(1) run]])
  moreover have "registered_nodes (coordinator s2) = [(?id, ?info)]" "info_endpoint ?info = demo_endpoint ''10.0.0.1''"
    using R(2) by (simp_all add: s2_def demo_endpoint_def info_endpoint_def)
  ultimately show ?thesis using still by (intro exI conjI)
qed

end
