(* ===== verification/Sequential_Runs.thy ===== *)
theory Sequential_Runs
  imports Concurrent_Properties
begin

text \<open>
  The sequential runs of \<open>Coordinator_Refinement\<close>, in which every request is one operation
  and a cleanup may come at any time, are runs of the interleaved system: those in which a
  request arrives when the one before has been answered, and the worker sleeps its minute
  out before a cleanup.
\<close>

section \<open>The worker on its way to a round\<close>

text \<open>
  What a sequential run says of the worker: it is at the head of its loop, or it has not
  been started and there is nothing to clean up.
\<close>

definition worker_waits :: "CoordinatorServiceImpl \<Rightarrow> bool" where
  "worker_waits st \<longleftrightarrow>
     (if running st then cleanup_thread st = Some While_Test
      else cleanup_thread st = None \<and> deleted_entries (store st) = [])"

lemma worker_move:
  assumes "cleanup_thread (coordinator s) = Some pc" "pc \<noteq> Cleaning" "pc \<noteq> Exited" "running (coordinator s)"
    and "pc' = (case pc of While_Test \<Rightarrow> Sleep_Test 0 | Sleep_Test i \<Rightarrow> if i < 60 then Sleep_Test (Suc i) else Recheck | _ \<Rightarrow> Cleaning)"
  shows "move rt s (s\<lparr>coordinator := (coordinator s)\<lparr>cleanup_thread := Some pc'\<rparr>\<rparr>)"
proof -
  have "cleanupWorker_step rt 0 (coordinator s, nodes s, cleanup_output s)
      = ((coordinator s)\<lparr>cleanup_thread := Some pc'\<rparr>, nodes s, cleanup_output s)"
    using assms by (cases pc) auto
  from move.worker [OF _ this] assms(1,2) show ?thesis by simp
qed

lemma sleep_moves:
  "running (coordinator s) \<Longrightarrow> cleanup_thread (coordinator s) = Some (Sleep_Test i) \<Longrightarrow> i + m \<le> 60 \<Longrightarrow>
    (move rt ^^ m) s (s\<lparr>coordinator := (coordinator s)\<lparr>cleanup_thread := Some (Sleep_Test (i + m))\<rparr>\<rparr>)"
proof (induction m arbitrary: s i)
  case 0
  then have "s\<lparr>coordinator := (coordinator s)\<lparr>cleanup_thread := Some (Sleep_Test (i + 0))\<rparr>\<rparr> = s" by simp
  then show ?case by simp
next
  case (Suc m)
  let ?s1 = "s\<lparr>coordinator := (coordinator s)\<lparr>cleanup_thread := Some (Sleep_Test (Suc i))\<rparr>\<rparr>"
  have "move rt s ?s1" by (rule worker_move [OF Suc.prems(2)]) (use Suc.prems in simp_all)
  moreover have "(move rt ^^ m) ?s1 (?s1\<lparr>coordinator := (coordinator ?s1)\<lparr>cleanup_thread := Some (Sleep_Test (Suc i + m))\<rparr>\<rparr>)"
    by (rule Suc.IH) (use Suc.prems in simp_all)
  ultimately have "(move rt ^^ Suc m) s (?s1\<lparr>coordinator := (coordinator ?s1)\<lparr>cleanup_thread := Some (Sleep_Test (Suc i + m))\<rparr>\<rparr>)"
    by (rule relpowp_Suc_I2)
  then show ?case by (simp del: relpowp.simps)
qed

lemma to_cleaning:
  assumes "running (coordinator s)" "cleanup_thread (coordinator s) = Some While_Test"
  shows "(move rt ^^ 63) s (s\<lparr>coordinator := (coordinator s)\<lparr>cleanup_thread := Some Cleaning\<rparr>\<rparr>)"
proof -
  let ?at = "\<lambda>pc. s\<lparr>coordinator := (coordinator s)\<lparr>cleanup_thread := Some pc\<rparr>\<rparr>"
  have "move rt s (?at (Sleep_Test 0))" by (rule worker_move [OF assms(2)]) (use assms in simp_all)
  moreover have "(move rt ^^ 60) (?at (Sleep_Test 0)) (?at (Sleep_Test 60))"
    using sleep_moves [of "?at (Sleep_Test 0)" 0 60 rt] assms(1) by (simp del: relpowp.simps)
  moreover have "move rt (?at (Sleep_Test 60)) (?at Recheck)"
    using worker_move [of "?at (Sleep_Test 60)" "Sleep_Test 60" Recheck rt] assms(1) by simp
  moreover have "move rt (?at Recheck) (?at Cleaning)"
    using worker_move [of "?at Recheck" Recheck Cleaning rt] assms(1) by simp
  ultimately have "(move rt ^^ (Suc (Suc (Suc 60)))) s (?at Cleaning)"
    by (meson relpowp_Suc_I relpowp_Suc_I2)
  then show ?thesis by (simp add: numeral_eq_Suc del: relpowp.simps)
qed

lemma sweeps_moves:
  "(sweep_step rt now ^^ m) (sweeper s, coordinator s, nodes s, cleanup_output s) = (sw', st', w', log') \<Longrightarrow>
    (move rt ^^ m) s (s\<lparr>sweeper := sw', coordinator := st', nodes := w', cleanup_output := log'\<rparr>)"
proof (induction m arbitrary: sw' st' w' log')
  case 0
  then have "s\<lparr>sweeper := sw', coordinator := st', nodes := w', cleanup_output := log'\<rparr> = s" by auto
  then show ?case by simp
next
  case (Suc m)
  obtain sw1 st1 w1 log1 where one: "(sweep_step rt now ^^ m) (sweeper s, coordinator s, nodes s, cleanup_output s) = (sw1, st1, w1, log1)"
    by (metis prod.exhaust)
  let ?s1 = "s\<lparr>sweeper := sw1, coordinator := st1, nodes := w1, cleanup_output := log1\<rparr>"
  have "sweep_step rt now (sweeper ?s1, coordinator ?s1, nodes ?s1, cleanup_output ?s1) = (sw', st', w', log')"
    using Suc.prems one by simp
  from relpowp_Suc_I [OF Suc.IH [OF one] move.sweep [OF this]] show ?case by simp
qed

text \<open>A round of the sequential model, when the worker runs.\<close>

lemma round_moves:
  assumes "running (coordinator s)" "cleanup_thread (coordinator s) = Some While_Test" "sweeper s = Sweep_Idle"
    and "cleanup_round rt now (coordinator s) (nodes s, cleanup_output s) = (st', w', log')"
  shows "\<exists>m. (move rt ^^ m) s (s\<lparr>coordinator := st', nodes := w', cleanup_output := log'\<rparr>)"
proof -
  let ?st = "(coordinator s)\<lparr>cleanup_thread := Some Cleaning\<rparr>"
  let ?s1 = "s\<lparr>coordinator := ?st\<rparr>"
  have "(let (st', s') = cleanup_round rt now ?st (nodes s, cleanup_output s) in (st'\<lparr>cleanup_thread := Some While_Test\<rparr>, s'))
      = (st', w', log')"
    using assms(2,4) by (auto simp: cleanup_round_def Let_def split: prod.splits)
  then have "cleanupWorker_step rt now (?st, nodes s, cleanup_output s) = (st', w', log')" by simp
  with sweep_alone [of ?st rt now "(nodes s, cleanup_output s)"]
  obtain m where "(sweep_step rt now ^^ m) (sweeper ?s1, coordinator ?s1, nodes ?s1, cleanup_output ?s1) = (Sweep_Idle, st', w', log')"
    unfolding sweeps_def by (auto simp: assms(3) simp del: funpow.simps cleanupWorker_step.simps)
  from moves_trans [OF to_cleaning [OF assms(1,2)] sweeps_moves [OF this]]
  have "(move rt ^^ (63 + m)) s (?s1\<lparr>sweeper := Sweep_Idle, coordinator := st', nodes := w', cleanup_output := log'\<rparr>)" .
  moreover have "?s1\<lparr>sweeper := Sweep_Idle, coordinator := st', nodes := w', cleanup_output := log'\<rparr>
      = s\<lparr>coordinator := st', nodes := w', cleanup_output := log'\<rparr>" by (simp add: assms(3))
  ultimately show ?thesis by (intro exI [of _ "63 + m"]) (simp only:)
qed

text \<open>A round of the sequential model before there is a worker does nothing.\<close>

lemma no_round:
  assumes "deleted_entries (store st) = []"
  shows "cleanup_round rt now st q = (st, q)"
  using assms by (simp add: cleanup_round_def cleanupTombstones_def)

section \<open>What the operations leave to the worker\<close>

lemma put_chunks_frame:
  "put_chunks rt d is st w = Some (r, st', w') \<Longrightarrow>
    store st' = store st \<and> running st' = running st \<and> cleanup_thread st' = cleanup_thread st"
proof (induction "is" arbitrary: st w r)
  case (Cons i "is")
  define st1 where "st1 = st\<lparr>chunk_id_counter := chunk_id_counter st + 1\<rparr>"
  obtain ids st2 where sel: "selectNodesForReplication (hash_order rt) 3 st1 = Some (ids, st2)"
    using Cons.prems by (auto simp: Let_def replication_factor_default simp flip: st1_def split: option.splits)
  have "store st2 = store st \<and> running st2 = running st \<and> cleanup_thread st2 = cleanup_thread st"
    using select_state [OF sel] by (auto simp: st1_def)
  then show ?case
    using Cons sel by (auto simp: st1_def default_ChunkInfo_def Let_def split: if_splits prod.splits option.splits sum.splits)
qed simp

lemma PutFile_worker_waits:
  assumes "PutFile rt reqs st w = Some (r, st', w')" "worker_waits st"
  shows "worker_waits st'"
proof -
  have "deleted_entries (store st') = deleted_entries (store st) \<and> running st' = running st \<and> cleanup_thread st' = cleanup_thread st"
    using assms(1)
    by (auto simp: PutFile_def put_receive_eq getFile_eq putFile_def Let_def dest!: put_chunks_frame
        split: list.splits option.splits prod.splits sum.splits if_splits simp del: put_receive.simps)
  then show ?thesis using assms(2) by (simp add: worker_waits_def)
qed

lemma dfs_step_worker_waits:
  assumes "dfs_step rt x (st, w, log) = Some (r, st', w', log')" "worker_waits st"
  shows "worker_waits st'"
proof (cases x)
  case (Put_File reqs)
  then show ?thesis using assms PutFile_worker_waits [of rt reqs st w _ st' w'] by auto
next
  case (Get_File name wr)
  then show ?thesis
    using assms by (auto simp: worker_waits_def GetFile_def getFile_eq Let_def split: prod.splits option.splits if_splits)
next
  case (Delete_File name t now)
  then show ?thesis
    using assms by (auto simp: worker_waits_def DeleteFile_def getFile_eq Let_def split: prod.splits option.splits if_splits)
next
  case (Register_Node peer port)
  then show ?thesis
    using assms by (auto simp: worker_waits_def RegisterDataNode_def Let_def split: prod.splits option.splits if_splits)
next
  case (Unregister_Node i)
  then show ?thesis
    using assms by (auto simp: worker_waits_def UnregisterDataNode_def Let_def split: prod.splits option.splits if_splits)
next
  case (Cleanup_Round now)
  then show ?thesis
    using assms no_round [of st rt now "(w, log)"]
    by (auto simp: worker_waits_def cleanup_round_def cleanupTombstones_def Let_def split: prod.splits if_splits)
qed

section \<open>Requests and their answers\<close>

text \<open>The request of a sequential operation, and the answer a finished handler has given.\<close>

fun request_of :: "dfs_op \<Rightarrow> request option" where
  "request_of (Put_File reqs) = Some (Req_Put reqs)"
| "request_of (Get_File name wr) = Some (Req_Get name wr)"
| "request_of (Delete_File name t now) = Some (Req_Delete name t now)"
| "request_of (Register_Node peer port) = Some (Req_Register peer port)"
| "request_of (Unregister_Node i) = Some (Req_Unregister i)"
| "request_of (Cleanup_Round now) = None"

fun answer_of :: "handler \<Rightarrow> dfs_result option" where
  "answer_of (Put_Return status resp) = Some (Put_Result status)"
| "answer_of (Get_Return status resps) = Some (Get_Result status (concat (map gfs_data resps)))"
| "answer_of (Delete_Return status resp) = Some (Delete_Result status)"
| "answer_of (Register_Return status resp) = Some (Register_Result status resp)"
| "answer_of (Unregister_Return status resp) = Some (Unregister_Result status resp)"
| "answer_of _ = None"

definition answers :: "dfs_op list \<Rightarrow> dfs_result list \<Rightarrow> (request \<times> dfs_result option) list" where
  "answers ops rs = concat (map (\<lambda>(x, r). case request_of x of None \<Rightarrow> [] | Some q \<Rightarrow> [(q, Some r)]) (zip ops rs))"

lemma request_alone:
  assumes "runs_all_tasks (sched rt)" "request_of x = Some q"
    and "dfs_step rt x (st, w, log) = Some (r, st', w', log')"
  shows "\<exists>js h. alone rt q js (entry_point q, st, w) = (h, st', w') \<and> answer_of h = Some r \<and> log' = log"
proof (cases x)
  case (Put_File reqs)
  then obtain status resp where P: "PutFile rt reqs st w = Some ((status, resp), st', w')" "r = Put_Result status" "log' = log"
    using assms(3) by auto
  from PutFile_alone [OF assms(1), of reqs st w] obtain js
    where "returned (PutFile rt reqs st w) (alone rt (Req_Put reqs) js (Put_Check, st, w))" by blast
  then show ?thesis using P assms(2) Put_File by (intro exI [of _ js]) auto
next
  case (Get_File name wr)
  then obtain status resps where G: "GetFile rt \<lparr>gfr_filename = name\<rparr> wr st w = ((status, resps), st', w')"
    "r = Get_Result status (concat (map gfs_data resps))" "log' = log"
    using assms(3) by (auto simp: Let_def split: prod.splits)
  let ?js = "replicate (download_steps (store st) name) (0 :: nat)"
  have "alone rt (Req_Get name wr) ?js (Get_Lookup, st, w) = (Get_Return status resps, st', w')"
    by (rule GetFile_alone [OF _ G(1)]) simp
  then show ?thesis
    using G(2,3) assms(2) Get_File by (intro exI [of _ ?js] exI [of _ "Get_Return status resps"]) auto
next
  case (Delete_File name t now)
  then obtain status resp where D: "DeleteFile \<lparr>dfr_path = name\<rparr> t now st = ((status, resp), st')"
    "r = Delete_Result status" "log' = log" "w' = w"
    using assms(3) by (auto simp: Let_def split: prod.splits)
  have "alone rt (Req_Delete name t now) [0, 0, 0, 0] (Delete_Lookup, st, w) = (Delete_Return status resp, st', w)"
    by (rule DeleteFile_alone [OF _ D(1)]) simp
  then show ?thesis
    using D(2-4) assms(2) Delete_File by (intro exI [of _ "[0, 0, 0, 0]"] exI [of _ "Delete_Return status resp"]) (auto simp del: alone.simps)
next
  case (Register_Node peer port)
  then obtain status resp where D: "RegisterDataNode (hash_order rt) peer port st = ((status, resp), st')"
    "r = Register_Result status resp" "log' = log" "w' = w"
    using assms(3) by (auto simp: Let_def split: prod.splits)
  have "alone rt (Req_Register peer port) [0, 0, 0] (Register_Check, st, w) = (Register_Return status resp, st', w)"
    by (rule RegisterDataNode_alone [OF _ D(1)]) simp
  then show ?thesis
    using D(2-4) assms(2) Register_Node by (intro exI [of _ "[0, 0, 0]"] exI [of _ "Register_Return status resp"]) (auto simp del: alone.simps)
next
  case (Unregister_Node i)
  then obtain status resp where D: "UnregisterDataNode i st = ((status, resp), st')"
    "r = Unregister_Result status resp" "log' = log" "w' = w"
    using assms(3) by (auto simp: Let_def split: prod.splits)
  have "alone rt (Req_Unregister i) [0, 0] (Unregister_Find, st, w) = (Unregister_Return status resp, st', w)"
    by (rule UnregisterDataNode_alone [OF _ D(1)]) simp
  then show ?thesis
    using D(2-4) assms(2) Unregister_Node by (intro exI [of _ "[0, 0]"] exI [of _ "Unregister_Return status resp"]) (auto simp del: alone.simps)
qed (use assms(2) in simp)

text \<open>One operation of a sequential run as moves of the system.\<close>

lemma dfs_step_moves:
  assumes "runs_all_tasks (sched rt)" "worker_waits (coordinator s)" "sweeper s = Sweep_Idle"
    and "dfs_step rt x (coordinator s, nodes s, cleanup_output s) = Some (r, st', w', log')"
  shows "\<exists>m T. (move rt ^^ m) s (s\<lparr>threads := threads s @ T, coordinator := st', nodes := w', cleanup_output := log'\<rparr>) \<and>
    map (map_prod id answer_of) T = answers [x] [r]"
proof (cases "request_of x")
  case None
  then obtain now where x: "x = Cleanup_Round now" by (cases x) simp_all
  then have round: "cleanup_round rt now (coordinator s) (nodes s, cleanup_output s) = (st', w', log')"
    using assms(4) by (auto split: prod.splits)
  have "\<exists>m. (move rt ^^ m) s (s\<lparr>coordinator := st', nodes := w', cleanup_output := log'\<rparr>)"
  proof (cases "running (coordinator s)")
    case True
    then show ?thesis using round_moves [OF True _ assms(3) round] assms(2) by (simp add: worker_waits_def del: relpowp.simps)
  next
    case False
    then have "deleted_entries (store (coordinator s)) = []" using assms(2) by (simp add: worker_waits_def)
    then have "s\<lparr>coordinator := st', nodes := w', cleanup_output := log'\<rparr> = s" using round by (simp add: no_round)
    then show ?thesis by (intro exI [of _ 0]) simp
  qed
  then obtain m where "(move rt ^^ m) s (s\<lparr>coordinator := st', nodes := w', cleanup_output := log'\<rparr>)" ..
  then show ?thesis by (intro exI [of _ m] exI [of _ "[]"]) (simp add: answers_def x del: relpowp.simps)
next
  case (Some q)
  from request_alone [OF assms(1) Some assms(4)] obtain js h
    where h: "alone rt q js (entry_point q, coordinator s, nodes s) = (h, st', w')" "answer_of h = Some r" "log' = cleanup_output s"
    by blast
  have "s\<lparr>threads := threads s @ [(q, h)], coordinator := st', nodes := w'\<rparr>
      = s\<lparr>threads := threads s @ [(q, h)], coordinator := st', nodes := w', cleanup_output := log'\<rparr>" by (simp add: h(3))
  with request_moves [OF h(1) assms(3)]
  have "(move rt ^^ Suc (length js)) s (s\<lparr>threads := threads s @ [(q, h)], coordinator := st', nodes := w', cleanup_output := log'\<rparr>)"
    by (simp only:)
  moreover have "map (map_prod id answer_of) [(q, h)] = answers [x] [r]" by (simp add: answers_def Some h(2))
  ultimately show ?thesis by (intro exI [of _ "Suc (length js)"] exI [of _ "[(q, h)]"] conjI)
qed

lemma dfs_run_moves:
  assumes "runs_all_tasks (sched rt)"
  shows "dfs_run rt ops (coordinator s, nodes s, cleanup_output s) = Some (rs, st', w', log') \<Longrightarrow>
    worker_waits (coordinator s) \<Longrightarrow> sweeper s = Sweep_Idle \<Longrightarrow>
    \<exists>m T. (move rt ^^ m) s (s\<lparr>threads := threads s @ T, coordinator := st', nodes := w', cleanup_output := log'\<rparr>) \<and>
      map (map_prod id answer_of) T = answers ops rs"
proof (induction ops arbitrary: s rs)
  case Nil
  then have "s\<lparr>threads := threads s @ [], coordinator := st', nodes := w', cleanup_output := log'\<rparr> = s" by auto
  then show ?case using Nil by (intro exI [of _ 0] exI [of _ "[]"]) (simp add: answers_def)
next
  case (Cons x ops)
  from Cons.prems(1) obtain r st1 w1 log1 rs' where
    step: "dfs_step rt x (coordinator s, nodes s, cleanup_output s) = Some (r, st1, w1, log1)"
    and run: "dfs_run rt ops (st1, w1, log1) = Some (rs', st', w', log')" and rs: "rs = r # rs'"
    by (auto split: option.splits)
  from dfs_step_moves [OF assms Cons.prems(2,3) step] obtain m1 T1 where
    one: "(move rt ^^ m1) s (s\<lparr>threads := threads s @ T1, coordinator := st1, nodes := w1, cleanup_output := log1\<rparr>)"
      "map (map_prod id answer_of) T1 = answers [x] [r]" by blast
  let ?s1 = "s\<lparr>threads := threads s @ T1, coordinator := st1, nodes := w1, cleanup_output := log1\<rparr>"
  have "worker_waits st1" by (rule dfs_step_worker_waits [OF step Cons.prems(2)])
  then have "worker_waits (coordinator ?s1)" "sweeper ?s1 = Sweep_Idle"
      "dfs_run rt ops (coordinator ?s1, nodes ?s1, cleanup_output ?s1) = Some (rs', st', w', log')"
    using run Cons.prems(3) by simp_all
  from Cons.IH [OF this(3,1,2)] obtain m2 T2 where
    two: "(move rt ^^ m2) ?s1 (?s1\<lparr>threads := threads ?s1 @ T2, coordinator := st', nodes := w', cleanup_output := log'\<rparr>)"
      "map (map_prod id answer_of) T2 = answers ops rs'"
    by blast
  from moves_trans [OF one(1) two(1)]
  have "(move rt ^^ (m1 + m2)) s (s\<lparr>threads := threads s @ (T1 @ T2), coordinator := st', nodes := w', cleanup_output := log'\<rparr>)"
    by (simp del: relpowp.simps)
  moreover have "map (map_prod id answer_of) (T1 @ T2) = answers (x # ops) rs"
    using one(2) two(2) by (simp add: answers_def rs)
  ultimately show ?case by (intro exI [of _ "m1 + m2"] exI [of _ "T1 @ T2"] conjI)
qed

text \<open>C11. The interleaved system simulates the sequential one: every run of requests and cleanup rounds
  from a fresh coordinator, each as one operation, is also a run of the threads and the worker,
  which ends with the same coordinator, nodes and log, the worker idle, and one finished thread for
  every request, in the order of the requests and with the same answers. So what the sequential
  properties say of the code is said of executions the threaded program has. The converse does
  not hold: interleaved runs reach states and answers that no sequential run does.\<close>

theorem sequential_runs_interleave:
  assumes "runs_all_tasks (sched rt)"
    and "dfs_run rt ops (new_CoordinatorServiceImpl, w, []) = Some (rs, st, w', log)"
  shows "\<exists>m s. (move rt ^^ m) (start_system w) s \<and> coordinator s = st \<and> nodes s = w' \<and> cleanup_output s = log \<and>
    sweeper s = Sweep_Idle \<and> map (map_prod id answer_of) (threads s) = answers ops rs \<and>
    (\<forall>(r, h) \<in> set (threads s). finished h)"
proof -
  let ?s = "start_system w"
  have "worker_waits (coordinator ?s)" "sweeper ?s = Sweep_Idle"
    by (simp_all add: start_system_def worker_waits_def new_CoordinatorServiceImpl_def empty_MetadataStore_def)
  moreover have "dfs_run rt ops (coordinator ?s, nodes ?s, cleanup_output ?s) = Some (rs, st, w', log)"
    using assms(2) by (simp add: start_system_def)
  ultimately obtain m T where
    run: "(move rt ^^ m) ?s (?s\<lparr>threads := threads ?s @ T, coordinator := st, nodes := w', cleanup_output := log\<rparr>)"
      "map (map_prod id answer_of) T = answers ops rs"
    using dfs_run_moves [OF assms(1)] by blast
  have "finished h" if "(r, h) \<in> set T" for r h
  proof -
    have "(r, answer_of h) \<in> set (answers ops rs)" using that unfolding run(2) [symmetric] by force
    then have "answer_of h \<noteq> None" by (auto simp: answers_def split: option.splits)
    then show ?thesis by (cases h) simp_all
  qed
  then show ?thesis
    using run by (intro exI [of _ m] exI [of _ "?s\<lparr>threads := threads ?s @ T, coordinator := st, nodes := w', cleanup_output := log\<rparr>"])
      (auto simp: start_system_def simp del: relpowp.simps)
qed

lemma dfs_run_length: "dfs_run rt ops s = Some (rs, s') \<Longrightarrow> length rs = length ops"
  by (induction ops arbitrary: s rs) (auto split: option.splits)

lemma answers_requests: "length rs = length ops \<Longrightarrow> map fst (answers ops rs) = List.map_filter request_of ops"
  by (induction ops rs rule: list_induct2') (auto simp: answers_def List.map_filter_simps split: option.splits)

theorem sequential_runs_interleave_witness:
  "\<exists>w m s. (move demo_runtime ^^ m) (start_system w) s \<and> sweeper s = Sweep_Idle \<and>
    map fst (threads s) = List.map_filter request_of demo_ops \<and> length (threads s) = 9"
proof -
  obtain rs st w' log where "reached demo_runtime demo_ops rs st w' log"
    using demo_reached [of demo_ops] by (auto simp: demo_ops_def upload_data_def)
  then obtain w where run: "dfs_run demo_runtime demo_ops (new_CoordinatorServiceImpl, w, []) = Some (rs, st, w', log)"
    by (auto simp: reached_def)
  have all: "runs_all_tasks (sched demo_runtime)" using demo_runtime_good by (simp add: good_runtime_def)
  obtain m s where s: "(move demo_runtime ^^ m) (start_system w) s" "sweeper s = Sweep_Idle"
    "map (map_prod id answer_of) (threads s) = answers demo_ops rs"
    using sequential_runs_interleave [OF all run] by blast
  have "map fst (threads s) = map fst (map (map_prod id answer_of) (threads s))" by simp
  also have "\<dots> = List.map_filter request_of demo_ops"
    unfolding s(3) by (rule answers_requests [OF dfs_run_length [OF run]])
  finally have fst: "map fst (threads s) = List.map_filter request_of demo_ops" .
  have "length (threads s) = length (map fst (threads s))" by simp
  also have "\<dots> = 9" unfolding fst by (simp add: demo_ops_def List.map_filter_simps)
  finally show ?thesis using s(1,2) fst by blast
qed

end
