(* ===== verification/Spec2Isabelle.thy ===== *)
theory Spec2Isabelle
  imports Cli Restarted_Nodes Sequential_Runs
begin

text \<open>
  A verification of \<open>toy_dfs\<close>, a distributed file system in C++ over gRPC.

  \<^bold>\<open>The program.\<close> A coordinator keeps the metadata: which files exist, of which chunks of
  one megabyte, and which three data nodes hold each chunk. Data nodes keep a chunk as a file of
  their own file system. A client uploads, downloads and deletes whole files by three requests to
  the coordinator, which talks to the data nodes itself. A data node registers with the
  coordinator when it starts and gets an identifier. A deleted file becomes a tombstone; a
  background worker removes its chunks from the data nodes five minutes later. There are three
  executables: coordinator, data node and command line client.

  \<^bold>\<open>The theories and the code they model\<close> (paths are under \<open>src/\<close>).

  \<^item> \<open>Prelude\<close>, \<open>Cpp_Strings\<close>: machine types (LP64), gRPC status, exceptions, the parts of
    \<open>std::string\<close> and \<open>iostream\<close> in use; facts on association lists, words and multisets.
  \<^item> \<open>Metadata_Store\<close>: \<open>coordinator/include/metadata_store.h\<close>, class \<open>MetadataStore\<close>. The
    record has the class's fields; every public and private method is a function on it.
  \<^item> \<open>Datanode_Storage\<close>, \<open>Datanode_Service\<close>: \<open>datanode/src/datanode_config.cpp\<close>,
    \<open>datanode_utils.cpp\<close>, \<open>datanode_service_impl.cpp\<close>; the file system is modelled with faults
    and quotas per path.
  \<^item> \<open>Datanode_Stub\<close>: \<open>datanode/src/datanode_stub_wrapper.cpp\<close>; states the contract
    of what the coordinator relies on: \<open>writable_nodes\<close> says which part of a chunk a node keeps
    when it answers OK, \<open>chunk_nodes\<close> is the case in which it keeps all of it.
  \<^item> \<open>Cluster\<close>: the transport, in which any call may be lost before or after it takes effect,
    and the interpretations that wrapper, transport and handlers meet the contract: \<open>disk\<close> for
    disks of any size, on which a file may be cut off at its quota, \<open>net\<close> for disks with room
    for every chunk.
  \<^item> \<open>Registry\<close>, \<open>Replication\<close>, \<open>Coordinator\<close>: \<open>coordinator/src/coordinator_service_impl.cpp\<close>.
    Node registration and round-robin placement in \<open>int32_t\<close>, where an index that overflows is
    undefined; concurrent distribution and reading with
    fallback; the handlers \<open>PutFile\<close>, \<open>GetFile\<close>, \<open>DeleteFile\<close>, each as one operation, the
    cleanup worker as a program counter, and the destructor.
  \<^item> \<open>Handler_Threads\<close>: the five handlers as threads, in the same file. A step takes a
    thread from one access of the shared state to the next: a method of the store, an atomic
    counter or flag, a search, dereference, insertion or erasure in the registry, a call to a
    data node; the asynchronous tasks of a distribution step one by one in any order. The
    registry has no lock in the code, and none here.
  \<^item> \<open>Sweep\<close>: \<open>cleanupOldTombstonesInternal\<close> and the chunk deleter of \<open>cleanupWorker\<close> step by
    step, under the mutex of the store, which the steps that need it wait for.
  \<^item> \<open>Interleaving\<close>: the relation \<open>move\<close>, in which requests arrive and any number of threads,
    the worker and its rounds take their steps in any order.
  \<^item> \<open>Dfs_Client\<close>: \<open>client/src/dfs_client.cpp\<close>.
  \<^item> \<open>Servers\<close>, \<open>Cli\<close>: \<open>server/include/dfs_server.h\<close>, \<open>server/src/datanode_server.cpp\<close> and
    the three \<open>main.cpp\<close>, with exit codes and console output. The \<open>parse_opts\<close> of the two servers
    runs off its end unless it exits, which is undefined behaviour.

  \<^bold>\<open>What is proved.\<close>

  \<^item> \<open>Metadata_Store\<close>, \<open>Registry\<close>: the store and the registry refine finite maps on every
    branch; the two cleanup loops agree; the statistics are exact; a full deque loses chunks.
  \<^item> \<open>Datanode_Storage\<close>, \<open>Datanode_Service\<close>: a chunk that was put is read back byte for byte;
    chunk paths are distinct and exist for identifiers below \<open>2^31\<close>; the branches of
    \<open>DeleteChunk\<close>; a short write is reported as success.
  \<^item> \<open>Replication\<close>: a distribution is OK exactly when every replica is stored, as far as the disks
    have room; a read finds the first replica that answers.
  \<^item> \<open>Coordinator_Contract\<close>, \<open>Coordinator_Refinement\<close>: inside the locale \<open>dfs_nodes\<close>, over any
    nodes that meet the contract, the invariant of the coordinator and the refinement of a map
    from names to contents.
  \<^item> \<open>Dfs_Properties\<close>: these facts for the cluster, through the interpretation \<open>dfs\<close>: any
    sequence of requests refines a map, uploads are available at once, downloads survive the
    loss of replicas, the cleanup removes the chunks of deleted files only, the destructor joins.
  \<^item> \<open>Handler_Alone\<close>, \<open>Handler_Termination\<close>: a thread that moves alone computes what the
    handler of \<open>Coordinator\<close> or \<open>Registry\<close> does; every thread ends after a bounded number of own
    steps whatever the others do in between, with an answer unless they take away what it holds
    an iterator or a pointer to, and a cleanup round, which holds the mutex, ends too.
  \<^item> \<open>Thread_Invariant\<close>, \<open>Thread_Steps\<close>, \<open>Interleaving_Invariant\<close>: what a thread relies on
    from one step to the next, that its own steps and those of the others keep it, and with it
    the invariant of the interleaved system, over any nodes that meet the contract.
  \<^item> \<open>Thread_Runs\<close>, \<open>Concurrent_Properties\<close>: for every interleaving identifiers are never
    shared, files are well formed, no visible file is lost, and a download that answers OK has
    one complete upload in it; and the races of the code, two uploads of one name that both
    succeed, and a deletion that destroys what a download has a pointer to.
  \<^item> \<open>Sequential_Runs\<close>: the runs of \<open>Dfs_Properties\<close>, in which a request is one operation, are
    runs of the interleaved system with the same states and answers, but not the other way
    round: the interleaved system simulates the sequential one.
  \<^item> \<open>Registry_Races\<close>: two registrations of one endpoint can both succeed; iterators into the
    registry can be used after their entry is gone.
  \<^item> \<open>Failed_Uploads\<close>: the chunks of an upload that fails are never named and never removed.
  \<^item> \<open>Restarted_Nodes\<close>: a chunk whose nodes have all unregistered is never read again, although
    they register again and still store it.
  \<^item> \<open>Dfs_Client\<close>, \<open>Servers\<close>, \<open>Cli\<close>: the round trip through the client library and through the
    command line, error mapping, the lifecycle of a data node, what the client refuses and the
    command lines of the servers.

  \<^bold>\<open>Bounds.\<close> \<open>get_chunk_path\<close> reads a chunk number with \<open>std::stoi\<close>, so at most \<open>2^31\<close>
  identifiers are usable. An upload of at most 2 GiB takes at most 2048 of them, so a run of
  fewer than \<open>2^20\<close> requests stays below, and so does a run of \<open>2^31\<close> moves of the interleaved
  system, which draw at most one each. Alone or not, an upload ends within 14 own steps for each
  of its chunks and two more, a download within three for each replica of its chunks, two for
  each chunk and three more, a deletion within four, a registration within three and an
  unregistration within two. Uploads over 2 GiB overflow \<open>i * chunk_size\<close>. For
  contents of at most \<open>2^50\<close> bytes the number of chunks fits the \<open>int\<close> it is kept in; \<open>2^51\<close> bytes
  give a negative number and an empty file. The placement of a chunk on fewer than \<open>2^31 - 2\<close>
  registered nodes does not overflow. The worker is run
  with fuel only in the destructor, where three steps are enough from any program counter.

  \<^bold>\<open>Parameters.\<close> Where the code depends on something it does not fix, a definition takes it as an
  argument: the iteration order of an \<open>unordered_map\<close>, the order in which asynchronous tasks run,
  clock readings, the fate of each call of the network, faults and quotas of the disks, the
  result of each \<open>Write\<close> on a stream, whether a port can be bound, what \<open>getopt_long\<close> yields.
  The hypotheses on them say what the C++ library documents: an iteration visits every entry
  once, every task runs. That no disk runs full is a hypothesis of its own, \<open>disks_have_room\<close>, of
  the properties on the contents of files, and the texts before these properties name it: on a
  full disk the code reports a cut off chunk as stored. The connection between a client and the
  coordinator, in the properties of \<open>Dfs_Client\<close> and \<open>Cli\<close>, is a reliable one.

  \<^bold>\<open>Not modelled.\<close> The code gRPC and protobuf generate or provide: messages are records, a stream
  is a list, and \<open>Shutdown\<close> ends all calls at once, without its deadline. Memory that is not
  sequentially consistent, and what two simultaneous accesses of the registry do to each other:
  an access is one step, so a data race is seen only as an order of steps; an iteration over the
  registry is one access too. A registration is taken to
  leave the iterators of other threads valid. The identity of map entries and buffers: whether
  an entry was overwritten in place or erased and inserted again is a choice of the step that
  uses a pointer to it, and two metadata records of one name without chunks are not told apart. The messages the coordinator's handlers write to the console. Links
  and \<open>..\<close> in paths. The tests under \<open>test/\<close> and the build files have no counterpart. What is
  left of the sources besides these are declarations, includes and accessors for the tests.
\<close>

end
